(* ===== verification/Prelude.thy ===== *)
theory Prelude
  imports Main "HOL-Library.Sublist" "HOL-Library.Char_ord" "HOL-Library.List_Lexorder"
begin

text \<open>
  The prelude of the covibe development: the type names the components share, the lemma
  collections their proofs rely on, generic facts about lists and maps, and the interface of
  a machine whose steps keep an invariant. Go strings and byte slices, and the bytes of a
  JavaScript \<open>Uint8Array\<close>, are all lists of \<open>char\<close>: an Isabelle \<open>char\<close> is exactly one byte.
\<close>

type_synonym bytes = "char list"

text \<open>Time is counted in nanoseconds, as Go's \<open>time.Duration\<close> and \<open>time.Time\<close> count it;
  \<open>0\<close> stands for Go's zero time.\<close>

type_synonym nanos = int

definition seconds :: "int \<Rightarrow> nanos" where
  "seconds n = n * 1000000000"

named_theorems machine_inv \<comment> \<open>one-step preservation lemmas of the component invariants\<close>
named_theorems frame \<comment> \<open>fields an operation leaves alone\<close>

section \<open>Lists\<close>

lemma take_eq_prefix: "take (length p) s = p \<longleftrightarrow> prefix p s"
proof
  assume "take (length p) s = p"
  then show "prefix p s" by (metis take_is_prefix)
next
  assume "prefix p s"
  then show "take (length p) s = p" by (auto simp: prefix_def)
qed

lemma takeWhile_all [simp]: "list_all P xs \<Longrightarrow> takeWhile P xs = xs"
  by (induction xs) auto

lemma dropWhile_none: "(\<forall>x\<in>set xs. \<not> P x) \<Longrightarrow> dropWhile P xs = xs"
  by (cases xs) auto

lemma dropWhile_suffix: "suffix (dropWhile P xs) xs"
  by (simp add: suffix_dropWhile)

lemma set_dropWhile_subset: "set (dropWhile P xs) \<subseteq> set xs"
  by (auto dest: set_dropWhileD)

lemma list_all_dropWhile: "list_all Q xs \<Longrightarrow> list_all Q (dropWhile P xs)"
  by (auto simp: list_all_iff dest: set_dropWhileD)

lemma list_all_take: "list_all Q xs \<Longrightarrow> list_all Q (take n xs)"
  by (auto simp: list_all_iff dest: in_set_takeD)

lemma list_all_drop: "list_all Q xs \<Longrightarrow> list_all Q (drop n xs)"
  by (auto simp: list_all_iff dest: in_set_dropD)

text \<open>The last \<open>n\<close> elements, Go's \<open>s[len(s)-n:]\<close> for a list that is at least that long.\<close>

definition keep_last :: "nat \<Rightarrow> 'a list \<Rightarrow> 'a list" where
  "keep_last n xs = drop (length xs - n) xs"

lemma length_keep_last [simp]: "length (keep_last n xs) = min n (length xs)"
  by (simp add: keep_last_def min_def)

lemma keep_last_suffix: "suffix (keep_last n xs) xs"
  by (simp add: keep_last_def suffix_drop)

lemma keep_last_short [simp]: "length xs \<le> n \<Longrightarrow> keep_last n xs = xs"
  by (simp add: keep_last_def)

lemma keep_last_append_keep_last: "keep_last n (keep_last n xs @ ys) = keep_last n (xs @ ys)"
proof (cases "length xs \<le> n")
  case True
  then show ?thesis by simp
next
  case False
  then have "length (keep_last n xs) = n" by simp
  then show ?thesis
    using False by (simp add: keep_last_def add.commute)
qed

section \<open>Maps\<close>

lemma map_upd_dom_iff: "k \<in> dom (m(a \<mapsto> b)) \<longleftrightarrow> k = a \<or> k \<in> dom m"
  by auto

lemma ran_restrict_subset: "ran (m |` A) \<subseteq> ran m"
  by (auto simp: ran_def restrict_map_def split: if_splits)

section \<open>Machines\<close>

text \<open>
  A component with state is a step function, run over the events in the order they happen
  (\<open>run\<close>), or a step relation with its reachable states (\<open>reachable\<close>) where goroutines
  interleave. Both come with an interface: whoever proves that one step keeps a predicate
  gets it for every run, respectively every reachable state.
\<close>

definition run :: "('s \<Rightarrow> 'e \<Rightarrow> 's) \<Rightarrow> 's \<Rightarrow> 'e list \<Rightarrow> 's" where
  "run step s es = foldl step s es"

lemma run_Nil [simp]: "run step s [] = s"
  and run_Cons [simp]: "run step s (e # es) = run step (step s e) es"
  and run_append: "run step s (es @ fs) = run step (run step s es) fs"
  by (simp_all add: run_def)

inductive reachable :: "('s \<Rightarrow> bool) \<Rightarrow> ('s \<Rightarrow> 'e \<Rightarrow> 's \<Rightarrow> bool) \<Rightarrow> 's \<Rightarrow> bool"
  for start :: "'s \<Rightarrow> bool" and trans :: "'s \<Rightarrow> 'e \<Rightarrow> 's \<Rightarrow> bool" where
  reach_start: "start s \<Longrightarrow> reachable start trans s"
| reach_step: "reachable start trans s \<Longrightarrow> trans s e t \<Longrightarrow> reachable start trans t"

locale machine =
  fixes step :: "'s \<Rightarrow> 'e \<Rightarrow> 's"
    and admissible :: "'e \<Rightarrow> bool"
    and inv :: "'s \<Rightarrow> bool"
  assumes step_inv: "inv s \<Longrightarrow> admissible e \<Longrightarrow> inv (step s e)"
begin

lemma run_inv: "inv s \<Longrightarrow> list_all admissible es \<Longrightarrow> inv (run step s es)"
  by (induction es arbitrary: s) (auto intro: step_inv)

lemma run_inv_prefix:
  "inv s \<Longrightarrow> list_all admissible (es @ fs) \<Longrightarrow> inv (run step s es)"
  by (rule run_inv) simp_all

end

locale system =
  fixes start :: "'s \<Rightarrow> bool"
    and trans :: "'s \<Rightarrow> 'e \<Rightarrow> 's \<Rightarrow> bool"
    and inv :: "'s \<Rightarrow> bool"
  assumes start_inv: "start s \<Longrightarrow> inv s"
    and trans_inv: "inv s \<Longrightarrow> trans s e t \<Longrightarrow> inv t"
begin

lemma reachable_inv: "reachable start trans s \<Longrightarrow> inv s"
  by (induction rule: reachable.induct) (auto intro: start_inv trans_inv)

end

end
