(* ===== verification/GoStrings.thy ===== *)
theory GoStrings
  imports Prelude
begin

text \<open>
  The part of Go's \<open>strings\<close>, \<open>strconv\<close> and \<open>unicode/utf8\<close> packages the program uses. A Go
  string is its bytes; a \<open>range\<close> loop, \<open>ToLower\<close>, \<open>TrimSpace\<close> and \<open>strings.Map\<close> read it as
  UTF-8 runes, an undecodable byte counting as one \<open>U+FFFD\<close>. The Unicode lower-case table
  outside ASCII is the parameter \<open>ul\<close> of \<open>ToLower\<close> and of everything that calls it.
\<close>

section \<open>Bytes\<close>

abbreviation byte_val :: "char \<Rightarrow> nat" where
  "byte_val c \<equiv> of_char c"

lemma byte_val_less [simp]: "byte_val c < 256"
  by simp

lemma char_of_byte_val [simp]: "char_of (byte_val c) = c"
  by simp

lemma byte_val_char_of: "n < 256 \<Longrightarrow> byte_val (char_of n) = n"
  by simp

lemma byte_val_inj: "byte_val c = byte_val d \<longleftrightarrow> c = d"
  by simp

section \<open>Prefixes, cuts and joins\<close>

definition HasPrefix :: "bytes \<Rightarrow> bytes \<Rightarrow> bool" where
  "HasPrefix s p = (take (length p) s = p)"

definition HasSuffix :: "bytes \<Rightarrow> bytes \<Rightarrow> bool" where
  "HasSuffix s p = (length p \<le> length s \<and> drop (length s - length p) s = p)"

definition TrimPrefix :: "bytes \<Rightarrow> bytes \<Rightarrow> bytes" where
  "TrimPrefix s p = (if HasPrefix s p then drop (length p) s else s)"

definition TrimSuffix :: "bytes \<Rightarrow> bytes \<Rightarrow> bytes" where
  "TrimSuffix s p = (if HasSuffix s p then take (length s - length p) s else s)"

text \<open>\<open>strings.TrimLeft\<close>, \<open>TrimRight\<close> and \<open>Trim\<close> with a cutset of ASCII characters.\<close>

definition TrimLeft :: "bytes \<Rightarrow> bytes \<Rightarrow> bytes" where
  "TrimLeft s cs = dropWhile (\<lambda>c. c \<in> set cs) s"

definition TrimRight :: "bytes \<Rightarrow> bytes \<Rightarrow> bytes" where
  "TrimRight s cs = rev (dropWhile (\<lambda>c. c \<in> set cs) (rev s))"

definition Trim :: "bytes \<Rightarrow> bytes \<Rightarrow> bytes" where
  "Trim s cs = TrimRight (TrimLeft s cs) cs"

text \<open>\<open>IndexAny\<close> with an ASCII set; \<open>None\<close> is Go's \<open>-1\<close>. \<open>IndexByte\<close> is the one-element case.\<close>

fun IndexAny :: "bytes \<Rightarrow> bytes \<Rightarrow> nat option" where
  "IndexAny [] cs = None"
| "IndexAny (c # s) cs = (if c \<in> set cs then Some 0 else map_option Suc (IndexAny s cs))"

abbreviation IndexByte :: "bytes \<Rightarrow> char \<Rightarrow> nat option" where
  "IndexByte s c \<equiv> IndexAny s [c]"

fun Index :: "bytes \<Rightarrow> bytes \<Rightarrow> nat option" where
  "Index s sub = (if HasPrefix s sub then Some 0
     else case s of [] \<Rightarrow> None | _ # r \<Rightarrow> map_option Suc (Index r sub))"

declare Index.simps [simp del]

definition LastIndexByte :: "bytes \<Rightarrow> char \<Rightarrow> nat option" where
  "LastIndexByte s c = map_option (\<lambda>i. length s - 1 - i) (IndexByte (rev s) c)"

definition Contains :: "bytes \<Rightarrow> bytes \<Rightarrow> bool" where
  "Contains s sub = (Index s sub \<noteq> None)"

text \<open>\<open>strings.Cut\<close> at a one-byte separator: before, after, found.\<close>

definition Cut :: "bytes \<Rightarrow> char \<Rightarrow> bytes \<times> bytes \<times> bool" where
  "Cut s c = (case IndexByte s c of
     Some i \<Rightarrow> (take i s, drop (Suc i) s, True) | None \<Rightarrow> (s, [], False))"

text \<open>\<open>strings.Split\<close> at a one-byte separator, and \<open>strings.FieldsFunc\<close>.\<close>

fun Split :: "bytes \<Rightarrow> char \<Rightarrow> bytes list" where
  "Split [] c = [[]]"
| "Split (x # s) c = (if x = c then [] # Split s c
     else case Split s c of [] \<Rightarrow> [[x]] | p # ps \<Rightarrow> (x # p) # ps)"

function FieldsFunc :: "(char \<Rightarrow> bool) \<Rightarrow> bytes \<Rightarrow> bytes list" where
  "FieldsFunc f s = (case dropWhile f s of [] \<Rightarrow> []
     | t # ts \<Rightarrow> takeWhile (\<lambda>c. \<not> f c) (t # ts) #
         FieldsFunc f (dropWhile (\<lambda>c. \<not> f c) (t # ts)))"
  by pat_completeness auto
termination
proof (relation "measure (\<lambda>(f, s). length (dropWhile f s) + length s)", simp)
  fix f :: "char \<Rightarrow> bool" and s t ts
  assume a: "dropWhile f s = t # ts"
  have nf: "\<not> f t" using a by (metis hd_dropWhile list.discI list.sel(1))
  have "length (t # ts) \<le> length s" using a by (metis length_dropWhile_le)
  moreover have "length (dropWhile f (dropWhile (\<lambda>c. \<not> f c) ts)) \<le> length (dropWhile (\<lambda>c. \<not> f c) ts)"
    and "length (dropWhile (\<lambda>c. \<not> f c) ts) \<le> length ts"
    by (rule length_dropWhile_le)+
  ultimately show "((f, dropWhile (\<lambda>c. \<not> f c) (t # ts)), f, s)
     \<in> measure (\<lambda>(f, s). length (dropWhile f s) + length s)"
    using a nf by simp
qed

declare FieldsFunc.simps [simp del]

fun Join :: "bytes list \<Rightarrow> bytes \<Rightarrow> bytes" where
  "Join [] sep = []"
| "Join [a] sep = a"
| "Join (a # as) sep = a @ sep @ Join as sep"

text \<open>The lines \<open>bufio.Scanner\<close> makes of a text: without their newline and a carriage return
  before it, up to the first line that does not fit its buffer of \<open>maxTok\<close> bytes.\<close>

definition newline :: char where "newline = CHR 0x0A"
definition carriage :: char where "carriage = CHR 0x0D"

definition drop_cr :: "bytes \<Rightarrow> bytes" where
  "drop_cr l = (if l \<noteq> [] \<and> last l = carriage then butlast l else l)"

definition ScanLines :: "nat \<Rightarrow> bytes \<Rightarrow> bytes list" where
  "ScanLines maxTok s = (let ls = Split s newline; ls = (if last ls = [] then butlast ls else ls)
     in map drop_cr (takeWhile (\<lambda>l. length l < maxTok) ls))"

lemma HasPrefix_iff: "HasPrefix s p \<longleftrightarrow> prefix p s"
  by (simp add: HasPrefix_def take_eq_prefix)

lemma HasPrefix_append [simp]: "HasPrefix (p @ s) p"
  by (simp add: HasPrefix_def)

lemma HasPrefix_Nil [simp]: "HasPrefix s []"
  by (simp add: HasPrefix_def)

lemma HasPrefix_Cons [simp]: "HasPrefix (c # s) (d # p) = (c = d \<and> HasPrefix s p)"
  by (auto simp: HasPrefix_def)

lemma HasPrefix_Nil_Cons [simp]: "HasPrefix [] (d # p) = False"
  by (simp add: HasPrefix_def)

lemma TrimPrefix_append [simp]: "TrimPrefix (p @ s) p = s"
  by (simp add: TrimPrefix_def HasPrefix_def)

lemma TrimSuffix_append [simp]: "TrimSuffix (s @ p) p = s"
  by (simp add: TrimSuffix_def HasSuffix_def)

lemma IndexAny_None: "IndexAny s cs = None \<longleftrightarrow> set s \<inter> set cs = {}"
  by (induction s) auto

lemma IndexAny_append_found:
  "set s \<inter> set cs = {} \<Longrightarrow> c \<in> set cs \<Longrightarrow> IndexAny (s @ c # t) cs = Some (length s)"
  by (induction s) auto

lemma IndexAny_Some_nth: "IndexAny s cs = Some i \<Longrightarrow>
   i < length s \<and> s ! i \<in> set cs \<and> set (take i s) \<inter> set cs = {}"
proof (induction s arbitrary: i)
  case Nil
  then show ?case by simp
next
  case (Cons c s)
  show ?case
  proof (cases "c \<in> set cs")
    case True
    with Cons.prems show ?thesis by simp
  next
    case False
    with Cons.prems obtain j where "IndexAny s cs = Some j" "i = Suc j" by auto
    with Cons.IH [of j] False show ?thesis by simp
  qed
qed

lemma Cut_append [simp]: "c \<notin> set s \<Longrightarrow> Cut (s @ c # t) c = (s, t, True)"
  by (simp add: Cut_def IndexAny_append_found)

lemma Cut_found: "Cut s c = (a, b, True) \<Longrightarrow> s = a @ c # b \<and> c \<notin> set a"
  by (auto simp: Cut_def split: option.splits dest!: IndexAny_Some_nth)
     (metis append_take_drop_id Cons_nth_drop_Suc)

lemma Split_ne [simp]: "Split s c \<noteq> []"
  by (induction s) (auto split: list.splits)

lemma Split_none: "c \<notin> set s \<Longrightarrow> Split s c = [s]"
  by (induction s) auto

lemma Split_append: "c \<notin> set a \<Longrightarrow> Split (a @ c # b) c = a # Split b c"
  by (induction a) auto

lemma Split_Cons_sep [simp]: "Split (c # b) c = [] # Split b c"
  by simp

lemma set_Trim_subset: "set (Trim s cs) \<subseteq> set s"
  unfolding Trim_def TrimRight_def TrimLeft_def
  using set_dropWhile_subset [of "\<lambda>c. c \<in> set cs"] by (metis dual_order.trans set_rev)

lemma list_all_Trim: "list_all P s \<Longrightarrow> list_all P (Trim s cs)"
  using set_Trim_subset [of s cs] by (auto simp: list_all_iff)

lemma TrimRight_last: "TrimRight s cs \<noteq> [] \<Longrightarrow> last (TrimRight s cs) \<notin> set cs"
  unfolding TrimRight_def
  by (metis hd_dropWhile last_rev rev_is_Nil_conv)

lemma TrimLeft_hd: "TrimLeft s cs \<noteq> [] \<Longrightarrow> hd (TrimLeft s cs) \<notin> set cs"
  unfolding TrimLeft_def by (metis (mono_tags) hd_dropWhile)

lemma TrimRight_prefix: "prefix (TrimRight s cs) s"
  unfolding TrimRight_def using suffix_dropWhile [of _ "rev s"] by (simp add: suffix_to_prefix)

lemma Trim_hd: "Trim s cs \<noteq> [] \<Longrightarrow> hd (Trim s cs) \<notin> set cs"
proof -
  assume ne: "Trim s cs \<noteq> []"
  obtain z where "TrimLeft s cs = Trim s cs @ z"
    using TrimRight_prefix [of "TrimLeft s cs" cs] by (auto simp: Trim_def prefix_def)
  with ne show ?thesis
    by (metis TrimLeft_hd append_is_Nil_conv hd_append2)
qed

lemma Trim_last: "Trim s cs \<noteq> [] \<Longrightarrow> last (Trim s cs) \<notin> set cs"
  unfolding Trim_def by (rule TrimRight_last)

lemma length_Trim_le: "length (Trim s cs) \<le> length s"
  unfolding Trim_def TrimRight_def TrimLeft_def
  by (metis length_dropWhile_le le_trans length_rev)

section \<open>UTF-8\<close>

text \<open>\<open>utf8.AppendRune\<close>: a surrogate or a value past \<open>U+10FFFF\<close> is written as \<open>U+FFFD\<close>.\<close>

definition scalar :: "nat \<Rightarrow> bool" where
  "scalar r = (r \<le> 0x10FFFF \<and> \<not> (0xD800 \<le> r \<and> r \<le> 0xDFFF))"

definition utf8_nats :: "nat \<Rightarrow> nat list" where
  "utf8_nats r = (if \<not> scalar r then [0xEF, 0xBF, 0xBD]
     else if r < 0x80 then [r]
     else if r < 0x800 then [0xC0 + r div 64, 0x80 + r mod 64]
     else if r < 0x10000 then [0xE0 + r div 4096, 0x80 + r div 64 mod 64, 0x80 + r mod 64]
     else [0xF0 + r div 262144, 0x80 + r div 4096 mod 64, 0x80 + r div 64 mod 64, 0x80 + r mod 64])"

definition encode_rune :: "nat \<Rightarrow> bytes" where
  "encode_rune r = map char_of (utf8_nats r)"

text \<open>\<open>utf8.DecodeRune\<close>: the rune and its width; a byte sequence that is not the shortest
  encoding of a scalar value is one \<open>U+FFFD\<close> of width 1.\<close>

definition tail_byte :: "nat \<Rightarrow> bool" where
  "tail_byte b = (0x80 \<le> b \<and> b \<le> 0xBF)"

definition second_ok :: "nat \<Rightarrow> nat \<Rightarrow> bool" where
  "second_ok b0 b1 = (
     (if b0 = 0xE0 then 0xA0 else if b0 = 0xF0 then 0x90 else 0x80) \<le> b1 \<and>
     b1 \<le> (if b0 = 0xED then 0x9F else if b0 = 0xF4 then 0x8F else 0xBF))"

definition rune_at :: "nat list \<Rightarrow> nat \<times> nat" where
  "rune_at bs = (case bs of [] \<Rightarrow> (0xFFFD, 0)
     | b0 # r \<Rightarrow>
       if b0 < 0x80 then (b0, 1)
       else if 0xC2 \<le> b0 \<and> b0 \<le> 0xDF then
         (case r of b1 # _ \<Rightarrow> if tail_byte b1 then ((b0 - 0xC0) * 64 + (b1 - 0x80), 2) else (0xFFFD, 1)
          | _ \<Rightarrow> (0xFFFD, 1))
       else if 0xE0 \<le> b0 \<and> b0 \<le> 0xEF then
         (case r of b1 # b2 # _ \<Rightarrow>
            if second_ok b0 b1 \<and> tail_byte b2
            then ((b0 - 0xE0) * 4096 + (b1 - 0x80) * 64 + (b2 - 0x80), 3) else (0xFFFD, 1)
          | _ \<Rightarrow> (0xFFFD, 1))
       else if 0xF0 \<le> b0 \<and> b0 \<le> 0xF4 then
         (case r of b1 # b2 # b3 # _ \<Rightarrow>
            if second_ok b0 b1 \<and> tail_byte b2 \<and> tail_byte b3
            then ((b0 - 0xF0) * 262144 + (b1 - 0x80) * 4096 + (b2 - 0x80) * 64 + (b3 - 0x80), 4)
            else (0xFFFD, 1)
          | _ \<Rightarrow> (0xFFFD, 1))
       else (0xFFFD, 1))"

definition DecodeRune :: "bytes \<Rightarrow> nat \<times> nat" where
  "DecodeRune s = rune_at (map byte_val s)"

text \<open>A \<open>range\<close> loop over a string: each rune with the bytes it was read from.\<close>

function rune_chunks :: "bytes \<Rightarrow> (nat \<times> bytes) list" where
  "rune_chunks s = (case s of [] \<Rightarrow> []
     | _ # _ \<Rightarrow> (fst (DecodeRune s), take (max 1 (snd (DecodeRune s))) s) #
         rune_chunks (drop (max 1 (snd (DecodeRune s))) s))"
  by pat_completeness auto
termination
  by (relation "measure length") (auto simp: less_max_iff_disj)

declare rune_chunks.simps [simp del]

definition runes :: "bytes \<Rightarrow> nat list" where
  "runes s = map fst (rune_chunks s)"

lemma rune_chunks_Nil [simp]: "rune_chunks [] = []"
  by (simp add: rune_chunks.simps)

lemma runes_Nil [simp]: "runes [] = []"
  by (simp add: runes_def)

lemma runes_Cons: "runes (c # s) = fst (DecodeRune (c # s)) #
    runes (drop (max 1 (snd (DecodeRune (c # s)))) (c # s))"
  by (simp add: runes_def rune_chunks.simps [of "c # s"])

lemma rune_chunks_concat: "concat (map snd (rune_chunks s)) = s"
proof (induction s rule: rune_chunks.induct)
  case (1 s)
  show ?case
  proof (cases s)
    case Nil
    then show ?thesis by simp
  next
    case (Cons c r)
    with 1 have "concat (map snd (rune_chunks (drop (max 1 (snd (DecodeRune s))) s)))
        = drop (max 1 (snd (DecodeRune s))) s" by simp
    then show ?thesis by (subst rune_chunks.simps) (simp add: Cons)
  qed
qed

subsection \<open>Decoding what was encoded\<close>

lemma rune_at_2:
  assumes "2 \<le> q" "q < 32" "b < 64"
  shows "rune_at ((0xC0 + q) # (0x80 + b) # t) = (q * 64 + b, 2)"
proof -
  have "tail_byte (0x80 + b)" using assms by (simp add: tail_byte_def)
  then show ?thesis using assms by (simp add: rune_at_def)
qed

lemma rune_at_3:
  assumes "q < 16" "a < 64" "b < 64" "q = 0 \<Longrightarrow> 32 \<le> a" "q = 13 \<Longrightarrow> a < 32"
  shows "rune_at ((0xE0 + q) # (0x80 + a) # (0x80 + b) # t) = (q * 4096 + a * 64 + b, 3)"
proof -
  have "second_ok (0xE0 + q) (0x80 + a)" using assms by (auto simp: second_ok_def)
  moreover have "tail_byte (0x80 + b)" using assms by (simp add: tail_byte_def)
  ultimately show ?thesis using assms(1) by (simp add: rune_at_def)
qed

lemma rune_at_4:
  assumes "q \<le> 4" "a < 64" "b < 64" "c < 64" "q = 0 \<Longrightarrow> 16 \<le> a" "q = 4 \<Longrightarrow> a < 16"
  shows "rune_at ((0xF0 + q) # (0x80 + a) # (0x80 + b) # (0x80 + c) # t)
    = (q * 262144 + a * 4096 + b * 64 + c, 4)"
proof -
  have "second_ok (0xF0 + q) (0x80 + a)" using assms by (auto simp: second_ok_def)
  moreover have "tail_byte (0x80 + b)" "tail_byte (0x80 + c)" using assms by (simp_all add: tail_byte_def)
  ultimately show ?thesis using assms(1) by (simp add: rune_at_def)
qed

lemma rune_at_utf8:
  assumes "scalar r"
  shows "rune_at (utf8_nats r @ t) = (r, length (utf8_nats r))"
proof -
  consider "r < 0x80" | "0x80 \<le> r \<and> r < 0x800" | "0x800 \<le> r \<and> r < 0x10000" | "0x10000 \<le> r"
    by linarith
  then show ?thesis
  proof cases
    case 1
    with assms show ?thesis by (simp add: utf8_nats_def rune_at_def)
  next
    case 2
    then have "2 \<le> r div 64" "r div 64 < 32" by auto
    then have "rune_at (utf8_nats r @ t) = (r div 64 * 64 + r mod 64, 2)"
      using assms 2 rune_at_2 [of "r div 64" "r mod 64" t] by (simp add: utf8_nats_def)
    moreover have "r div 64 * 64 + r mod 64 = r" by presburger
    ultimately show ?thesis using assms 2 by (simp add: utf8_nats_def)
  next
    case 3
    have s: "r div 64 = r div 4096 * 64 + r div 64 mod 64"
      using div_mult2_eq [of r 64 64] by simp
    have "r div 4096 < 16" and lo: "32 \<le> r div 64" using 3 by auto
    moreover have "32 \<le> r div 64 mod 64" if "r div 4096 = 0" using s lo that by simp
    moreover have "r div 64 mod 64 < 32" if q: "r div 4096 = 13"
    proof -
      have "r div 4096 < 14" using q by simp
      then have "r < 0xE000" by (simp add: div_less_iff_less_mult)
      moreover have "\<not> (0xD800 \<le> r \<and> r \<le> 0xDFFF)" using assms by (simp add: scalar_def)
      ultimately have "r < 0xD800" by simp
      then have "r div 64 < 864" by (simp add: div_less_iff_less_mult)
      then show ?thesis using s q by linarith
    qed
    ultimately have "rune_at (utf8_nats r @ t) = (r div 4096 * 4096 + r div 64 mod 64 * 64 + r mod 64, 3)"
      using assms 3 rune_at_3 [of "r div 4096" "r div 64 mod 64" "r mod 64" t]
      by (simp add: utf8_nats_def)
    moreover have "r div 4096 * 4096 + r div 64 mod 64 * 64 + r mod 64 = r"
    proof -
      have "r = r div 64 * 64 + r mod 64" by simp
      then show ?thesis using s by linarith
    qed
    ultimately show ?thesis using assms 3 by (simp add: utf8_nats_def)
  next
    case 4
    have s: "r div 64 = r div 4096 * 64 + r div 64 mod 64"
      and s': "r div 4096 = r div 262144 * 64 + r div 4096 mod 64"
      using div_mult2_eq [of r 64 64] div_mult2_eq [of r 4096 64] by simp_all
    have h: "r < 0x110000" using assms by (simp add: scalar_def)
    then have hi: "r div 4096 < 272" by (simp add: div_less_iff_less_mult)
    have "r div 262144 \<le> 4" and lo: "16 \<le> r div 4096" using 4 h by auto
    moreover have "16 \<le> r div 4096 mod 64" if "r div 262144 = 0" using s' lo that by simp
    moreover have "r div 4096 mod 64 < 16" if "r div 262144 = 4" using s' hi that by linarith
    ultimately have "rune_at (utf8_nats r @ t) =
        (r div 262144 * 262144 + r div 4096 mod 64 * 4096 + r div 64 mod 64 * 64 + r mod 64, 4)"
      using assms 4 rune_at_4 [of "r div 262144" "r div 4096 mod 64" "r div 64 mod 64" "r mod 64" t]
      by (simp add: utf8_nats_def)
    moreover have "r div 262144 * 262144 + r div 4096 mod 64 * 4096 + r div 64 mod 64 * 64 + r mod 64 = r"
    proof -
      have "r = r div 64 * 64 + r mod 64" by simp
      then show ?thesis using s s' by linarith
    qed
    ultimately show ?thesis using assms 4 by (simp add: utf8_nats_def)
  qed
qed

lemma utf8_nats_byte: "b \<in> set (utf8_nats r) \<Longrightarrow> b < 256"
  by (auto simp: utf8_nats_def scalar_def split: if_splits)

lemma utf8_nats_ne [simp]: "utf8_nats r \<noteq> []"
  by (simp add: utf8_nats_def)

lemma encode_rune_vals: "map byte_val (encode_rune r) = utf8_nats r"
  by (auto simp: encode_rune_def utf8_nats_byte intro: map_idI)

lemma encode_rune_ne [simp]: "encode_rune r \<noteq> []"
  by (simp add: encode_rune_def)

lemma DecodeRune_encode:
  "scalar r \<Longrightarrow> DecodeRune (encode_rune r @ t) = (r, length (encode_rune r))"
  by (simp add: DecodeRune_def encode_rune_vals rune_at_utf8) (simp add: encode_rune_def)

lemma runes_encode_append: "scalar r \<Longrightarrow> runes (encode_rune r @ t) = r # runes t"
proof -
  assume sc: "scalar r"
  obtain c u where cu: "encode_rune r @ t = c # u"
    by (cases "encode_rune r @ t") auto
  have "max 1 (length (encode_rune r)) = length (encode_rune r)"
    by (simp add: max_def Suc_le_eq)
  then show ?thesis
    unfolding cu runes_Cons unfolding cu [symmetric] by (simp add: DecodeRune_encode [OF sc])
qed

lemma runes_encode: "list_all scalar rs \<Longrightarrow> runes (concat (map encode_rune rs)) = rs"
  by (induction rs) (auto simp: runes_encode_append)

section \<open>Case and space\<close>

definition ascii :: "bytes \<Rightarrow> bool" where
  "ascii s = list_all (\<lambda>c. byte_val c < 0x80) s"

definition lower_rune :: "(nat \<Rightarrow> nat) \<Rightarrow> nat \<Rightarrow> nat" where
  "lower_rune ul r = (if 65 \<le> r \<and> r \<le> 90 then r + 32 else if r < 0x80 then r else ul r)"

definition ToLower :: "(nat \<Rightarrow> nat) \<Rightarrow> bytes \<Rightarrow> bytes" where
  "ToLower ul s = concat (map (\<lambda>r. encode_rune (lower_rune ul r)) (runes s))"

definition lower_char :: "char \<Rightarrow> char" where
  "lower_char c = (if 65 \<le> byte_val c \<and> byte_val c \<le> 90 then char_of (byte_val c + 32) else c)"

definition space_rune :: "nat \<Rightarrow> bool" where
  "space_rune r = (r \<in> {9, 10, 11, 12, 13, 32, 0x85, 0xA0, 0x1680, 0x2028, 0x2029, 0x202F, 0x205F, 0x3000}
     \<or> (0x2000 \<le> r \<and> r \<le> 0x200A))"

definition TrimSpace :: "bytes \<Rightarrow> bytes" where
  "TrimSpace s = (let sp = (\<lambda>c. space_rune (fst c)) in
     concat (map snd (rev (dropWhile sp (rev (dropWhile sp (rune_chunks s)))))))"

lemma DecodeRune_ascii: "byte_val c < 0x80 \<Longrightarrow> DecodeRune (c # s) = (byte_val c, 1)"
  by (simp add: DecodeRune_def rune_at_def)

lemma rune_chunks_ascii: "ascii s \<Longrightarrow> rune_chunks s = map (\<lambda>c. (byte_val c, [c])) s"
proof (induction s)
  case Nil
  then show ?case by simp
next
  case (Cons c s)
  then show ?case
    by (subst rune_chunks.simps) (simp add: ascii_def DecodeRune_ascii)
qed

lemma runes_ascii: "ascii s \<Longrightarrow> runes s = map byte_val s"
  by (simp add: runes_def rune_chunks_ascii)

lemma rune_at_high: "0x80 \<le> b \<Longrightarrow> 0x80 \<le> fst (rune_at (b # t))"
proof -
  assume b: "0x80 \<le> b"
  have 2: "0x80 \<le> (b - 0xC0) * 64 + x" if "0xC2 \<le> b" for x using that by linarith
  have 3: "0x80 \<le> (b - 0xE0) * 4096 + (y - 0x80) * 64 + x" if "0xE0 \<le> b" "second_ok b y" for x y
    using that by (cases "b = 0xE0") (auto simp: second_ok_def)
  have 4: "0x80 \<le> (b - 0xF0) * 262144 + (y - 0x80) * 4096 + z + x" if "0xF0 \<le> b" "second_ok b y" for x y z
    using that by (cases "b = 0xF0") (auto simp: second_ok_def)
  show ?thesis using b 2 3 4 by (simp add: rune_at_def split: list.split)
qed

text \<open>A string whose runes are all ASCII is ASCII, so a filter on runes is one on bytes.\<close>

lemma runes_low: "list_all (\<lambda>r. r < 0x80) (runes s) \<Longrightarrow> ascii s"
proof (induction s)
  case (Cons c s)
  have "fst (DecodeRune (c # s)) < 0x80" using Cons.prems by (simp add: runes_Cons)
  then have c: "byte_val c < 0x80"
    using rune_at_high [of "byte_val c" "map byte_val s"] by (fastforce simp: DecodeRune_def)
  then have "runes (c # s) = byte_val c # runes s"
    by (simp add: runes_Cons DecodeRune_ascii)
  with Cons c show ?case by (simp add: ascii_def)
qed (simp add: ascii_def)

lemma runes_filter:
  assumes "\<And>r. P r \<Longrightarrow> r < 0x80"
  shows "list_all P (runes s) \<longleftrightarrow> list_all (\<lambda>c. P (byte_val c)) s"
proof
  assume a: "list_all P (runes s)"
  then have "list_all (\<lambda>r. r < 0x80) (runes s)"
    by (rule list.pred_mono_strong) (rule assms)
  from runes_ascii [OF runes_low [OF this]] a show "list_all (\<lambda>c. P (byte_val c)) s"
    by (simp add: list.pred_map comp_def)
next
  assume a: "list_all (\<lambda>c. P (byte_val c)) s"
  then have "ascii s" unfolding ascii_def by (rule list.pred_mono_strong) (rule assms)
  from runes_ascii [OF this] a show "list_all P (runes s)"
    by (simp add: list.pred_map comp_def)
qed

lemma encode_rune_ascii: "r < 0x80 \<Longrightarrow> encode_rune r = [char_of r]"
  by (simp add: encode_rune_def utf8_nats_def scalar_def)

lemma ToLower_ascii: "ascii s \<Longrightarrow> ToLower ul s = map lower_char s"
proof (induction s)
  case Nil
  then show ?case by (simp add: ToLower_def)
next
  case (Cons c s)
  then have c: "byte_val c < 0x80" and s: "ascii s" by (simp_all add: ascii_def)
  have "encode_rune (lower_rune ul (byte_val c)) = [lower_char c]"
    using c by (simp add: lower_rune_def lower_char_def encode_rune_ascii)
  with Cons.IH s show ?case
    by (simp add: ToLower_def runes_ascii Cons.prems)
qed

lemma TrimSpace_ascii: "ascii s \<Longrightarrow>
   TrimSpace s = rev (dropWhile (\<lambda>c. space_rune (byte_val c)) (rev (dropWhile (\<lambda>c. space_rune (byte_val c)) s)))"
  by (simp add: TrimSpace_def rune_chunks_ascii dropWhile_map rev_map comp_def)

lemma ascii_lower [simp]: "ascii s \<Longrightarrow> ascii (map lower_char s)"
  by (auto simp: ascii_def list_all_iff lower_char_def)

lemma lower_char_idem [simp]: "lower_char (lower_char c) = lower_char c"
  by (simp add: lower_char_def)

lemma TrimSpace_Nil [simp]: "TrimSpace [] = []"
  by (simp add: TrimSpace_def)

lemma ToLower_Nil [simp]: "ToLower ul [] = []"
  by (simp add: ToLower_def)

section \<open>Numbers\<close>

fun digits10 :: "nat \<Rightarrow> bytes" where
  "digits10 n = (if n < 10 then [char_of (48 + n)] else digits10 (n div 10) @ [char_of (48 + n mod 10)])"

declare digits10.simps [simp del]

text \<open>\<open>strconv.Itoa\<close>, the \<open>%d\<close> verb and JavaScript's conversion of an integer to a string.\<close>

definition Itoa :: "int \<Rightarrow> bytes" where
  "Itoa i = (if i < 0 then CHR ''-'' # digits10 (nat (- i)) else digits10 (nat i))"

definition is_digit :: "char \<Rightarrow> bool" where
  "is_digit c = (48 \<le> byte_val c \<and> byte_val c \<le> 57)"

definition digits_value :: "bytes \<Rightarrow> nat" where
  "digits_value s = foldl (\<lambda>n c. 10 * n + (byte_val c - 48)) 0 s"

text \<open>\<open>strconv.Atoi\<close> on a 64-bit machine as the callers use it, which drop the error: a malformed
  number reads as 0, one out of range as the nearest bound.\<close>

definition Atoi :: "bytes \<Rightarrow> int" where
  "Atoi s = (let (neg, ds) = (case s of
       c # r \<Rightarrow> if c = CHR ''-'' then (True, r) else if c = CHR ''+'' then (False, r) else (False, s)
     | [] \<Rightarrow> (False, [])) in
     if ds = [] \<or> \<not> list_all is_digit ds then 0
     else let v = int (digits_value ds) in
       if neg then max (- (2 ^ 63)) (- v) else min (2 ^ 63 - 1) v)"

lemma digits10_value: "digits_value (digits10 n) = n"
proof (induction n rule: digits10.induct)
  case (1 n)
  show ?case
  proof (cases "n < 10")
    case True
    then show ?thesis by (subst digits10.simps) (simp add: digits_value_def)
  next
    case False
    with 1 have "digits_value (digits10 (n div 10)) = n div 10" by simp
    with False show ?thesis by (subst digits10.simps) (simp add: digits_value_def)
  qed
qed

lemma digits10_digits: "list_all is_digit (digits10 n)"
proof (induction n rule: digits10.induct)
  case (1 n)
  show ?case
  proof (cases "n < 10")
    case True
    then show ?thesis by (subst digits10.simps) (simp add: is_digit_def)
  next
    case False
    with 1 have "list_all is_digit (digits10 (n div 10))" by simp
    with False show ?thesis by (subst digits10.simps) (simp add: is_digit_def)
  qed
qed

lemma digits10_ne [simp]: "digits10 n \<noteq> []"
  by (subst digits10.simps) simp

lemma digits10_inj: "digits10 m = digits10 n \<longleftrightarrow> m = n"
  by (metis digits10_value)

lemma digits10_hd: "is_digit (hd (digits10 n))"
  using digits10_digits [of n] by (cases "digits10 n") auto

lemma digits10_no_sign: "digits10 n \<noteq> CHR ''-'' # r"
  using digits10_hd [of n] by (auto simp: is_digit_def)

lemma Itoa_inj: "Itoa a = Itoa b \<longleftrightarrow> a = b"
  by (auto simp: Itoa_def digits10_inj digits10_no_sign digits10_no_sign [symmetric])

lemma Itoa_chars: "c \<in> set (Itoa a) \<Longrightarrow> is_digit c \<or> c = CHR ''-''"
  using digits10_digits by (auto simp: Itoa_def list_all_iff split: if_splits)

lemma Itoa_no [simp]: "\<not> is_digit c \<Longrightarrow> c \<noteq> CHR ''-'' \<Longrightarrow> c \<notin> set (Itoa a)"
  using Itoa_chars by blast

lemma Itoa_ne [simp]: "Itoa a \<noteq> []"
  by (simp add: Itoa_def)

text \<open>Two numbers with a separator between them: the text determines both.\<close>

lemma Itoa_pair_inj:
  assumes "\<not> is_digit c" "c \<noteq> CHR ''-''"
  shows "Itoa a @ c # Itoa b = Itoa a' @ c # Itoa b' \<longleftrightarrow> a = a' \<and> b = b'"
proof
  assume "Itoa a @ c # Itoa b = Itoa a' @ c # Itoa b'"
  then have "Cut (Itoa a @ c # Itoa b) c = Cut (Itoa a' @ c # Itoa b') c" by simp
  then show "a = a' \<and> b = b'" using assms by (simp add: Itoa_inj)
qed simp

end
