(* ===== verification/GoPath.thy ===== *)
theory GoPath
  imports GoStrings
begin

text \<open>
  Paths as Go's \<open>path/filepath\<close> handles them on Unix, purely by their text: \<open>Clean\<close>, \<open>Join\<close>,
  \<open>IsAbs\<close>, \<open>Abs\<close> and \<open>Rel\<close>. A path is worked on as the list of its components.
\<close>

definition slash :: char where "slash = CHR ''/''"

definition IsAbs :: "bytes \<Rightarrow> bool" where
  "IsAbs p = HasPrefix p [slash]"

text \<open>The components that count, and their reduction against a stack kept in reverse.\<close>

definition components :: "bytes \<Rightarrow> bytes list" where
  "components p = filter (\<lambda>c. c \<noteq> [] \<and> c \<noteq> ''.'') (Split p slash)"

fun reduce :: "bool \<Rightarrow> bytes list \<Rightarrow> bytes list \<Rightarrow> bytes list" where
  "reduce rooted st [] = rev st"
| "reduce rooted st (c # cs) =
     (if c \<noteq> ''..'' then reduce rooted (c # st) cs
      else case st of
          [] \<Rightarrow> if rooted then reduce rooted [] cs else reduce rooted [''..''] cs
        | d # st' \<Rightarrow> if d = ''..'' then reduce rooted (''..'' # st) cs else reduce rooted st' cs)"

definition path_text :: "bool \<Rightarrow> bytes list \<Rightarrow> bytes" where
  "path_text rooted cs = (if rooted then slash # Join cs [slash] else if cs = [] then ''.'' else Join cs [slash])"

definition Clean :: "bytes \<Rightarrow> bytes" where
  "Clean p = path_text (IsAbs p) (reduce (IsAbs p) [] (components p))"

definition JoinPath :: "bytes \<Rightarrow> bytes \<Rightarrow> bytes" where
  "JoinPath a b = (if a = [] \<and> b = [] then [] else if a = [] then Clean b
     else if b = [] then Clean a else Clean (a @ slash # b))"

definition Abs :: "bytes \<Rightarrow> bytes \<Rightarrow> bytes" where
  "Abs cwd p = (if IsAbs p then Clean p else JoinPath cwd p)"

fun strip_common :: "bytes list \<Rightarrow> bytes list \<Rightarrow> bytes list \<times> bytes list" where
  "strip_common (b # bs) (t # ts) = (if b = t then strip_common bs ts else (b # bs, t # ts))"
| "strip_common bs ts = (bs, ts)"

text \<open>\<open>Rel\<close> of two paths, \<open>None\<close> when one cannot be reached from the other by text alone.\<close>

definition Rel :: "bytes \<Rightarrow> bytes \<Rightarrow> bytes option" where
  "Rel base targ = (let b = Clean base; t = Clean targ in
     if t = b then Some ''.''
     else let b = (if b = ''.'' then [] else b) in
       if IsAbs b \<noteq> IsAbs t then None
       else case strip_common (components b) (components t) of (bs, ts) \<Rightarrow>
         if bs \<noteq> [] \<and> hd bs = ''..'' then None
         else Some (Join (replicate (length bs) ''..'' @ ts) [slash]))"

section \<open>Components of a text\<close>

definition component :: "bytes \<Rightarrow> bool" where
  "component c = (c \<noteq> [] \<and> c \<noteq> ''.'' \<and> slash \<notin> set c)"

lemma Split_no_sep: "x \<in> set (Split s c) \<Longrightarrow> c \<notin> set x"
proof (induction s arbitrary: x)
  case (Cons a s)
  then show ?case by (auto split: list.splits if_splits)
qed simp

lemma components_ok: "list_all component (components p)"
  using Split_no_sep [of _ p slash] by (auto simp: components_def component_def list_all_iff)

lemma Split_two: "Split (a @ c # b) c = Split a c @ Split b c"
proof (induction a)
  case (Cons x a)
  then show ?case using Split_ne [of a c] by (auto split: list.splits)
qed simp

lemma components_append: "components (a @ slash # b) = components a @ components b"
  by (simp add: components_def Split_two)

lemma components_slash [simp]: "components (slash # b) = components b"
  by (simp add: components_def)

lemma components_Nil [simp]: "components [] = []"
  by (simp add: components_def)

lemma components_one: "component c \<Longrightarrow> components c = [c]"
  by (simp add: components_def component_def Split_none)

lemma components_Join: "list_all component cs \<Longrightarrow> components (Join cs [slash]) = cs"
proof (induction cs)
  case (Cons c cs)
  then show ?case by (cases cs) (simp_all add: components_append components_one)
qed simp

lemma Join_no_slash_start: "list_all component cs \<Longrightarrow> \<not> IsAbs (Join cs [slash])"
proof (cases cs)
  case (Cons c rest)
  moreover assume "list_all component cs"
  ultimately obtain x xs where c: "c = x # xs" "x \<noteq> slash" by (cases c) (auto simp: component_def)
  then show ?thesis using Cons by (cases rest) (simp_all add: IsAbs_def)
qed (simp add: IsAbs_def)

lemma components_text: "list_all component cs \<Longrightarrow> components (path_text r cs) = cs"
  by (simp add: path_text_def components_Join) (simp add: components_def)

lemma IsAbs_text: "list_all component cs \<Longrightarrow> IsAbs (path_text r cs) = r"
  by (simp add: path_text_def Join_no_slash_start) (simp add: IsAbs_def slash_def)

section \<open>What \<open>Clean\<close> leaves\<close>

lemma reduce_ok: "list_all component st \<Longrightarrow> list_all component cs \<Longrightarrow> list_all component (reduce r st cs)"
  by (induction r st cs rule: reduce.induct) (auto simp: component_def slash_def split: list.splits)

lemma reduce_rooted: "''..'' \<notin> set st \<Longrightarrow> ''..'' \<notin> set (reduce True st cs)"
  by (induction "True" st cs rule: reduce.induct) (auto split: list.splits)

lemma reduce_plain: "''..'' \<notin> set cs \<Longrightarrow> reduce r st cs = rev st @ cs"
  by (induction cs arbitrary: st) auto

lemma components_Clean: "components (Clean p) = reduce (IsAbs p) [] (components p)"
  unfolding Clean_def by (rule components_text) (simp add: reduce_ok components_ok)

lemma IsAbs_Clean [simp]: "IsAbs (Clean p) = IsAbs p"
  unfolding Clean_def by (rule IsAbs_text) (simp add: reduce_ok components_ok)

lemma Clean_ne: "Clean p \<noteq> []"
proof -
  have "path_text r cs \<noteq> []" if "list_all component cs" for r cs
  proof (cases cs)
    case (Cons c rest)
    then show ?thesis using that by (cases rest) (auto simp: path_text_def component_def)
  qed (simp add: path_text_def)
  then show ?thesis unfolding Clean_def by (simp add: reduce_ok components_ok)
qed

lemma Clean_text: "list_all component cs \<Longrightarrow> (''..'' \<notin> set cs) \<Longrightarrow> Clean (path_text r cs) = path_text r cs"
  by (simp add: Clean_def components_text IsAbs_text reduce_plain)

lemma Clean_abs: "IsAbs p \<Longrightarrow> \<exists>cs. Clean p = path_text True cs \<and> list_all component cs \<and> ''..'' \<notin> set cs"
  unfolding Clean_def using reduce_ok [of "[]" "components p" True] components_ok [of p]
    reduce_rooted [of "[]" "components p"] by auto

lemma Clean_Clean_abs: "IsAbs p \<Longrightarrow> Clean (Clean p) = Clean p"
  using Clean_abs [of p] Clean_text by auto

lemma strip_common_parts: "strip_common bs ts = (b, t) \<Longrightarrow> \<exists>p. bs = p @ b \<and> ts = p @ t"
proof (induction bs ts arbitrary: b t rule: strip_common.induct)
  case (1 b bs t ts)
  then show ?case by (fastforce split: if_splits)
qed auto

end
