(* ===== verification/Base64.thy ===== *)
theory Base64
  imports GoStrings
begin

text \<open>
  Base64 as the program uses it: JavaScript's \<open>btoa\<close>, Go's \<open>base64.StdEncoding\<close> (terminal
  input on every transport) and Go's \<open>base64.RawURLEncoding\<close> (room links, signed cookies).
  Encoding is one function of the alphabet and the padding; decoding is Go's: line breaks
  are skipped, padding must be exact, trailing bits are not checked. \<open>codec\<close> is the
  interface its clients rely on; both encodings interpret it.
\<close>

section \<open>The codec interface\<close>

locale codec =
  fixes enc :: "bytes \<Rightarrow> bytes"
    and dec :: "bytes \<Rightarrow> bytes option"
  assumes dec_enc: "dec (enc x) = Some x"
begin

lemma enc_inj: "enc x = enc y \<longleftrightarrow> x = y"
  by (metis dec_enc option.inject)

lemma enc_in_dom: "enc x \<in> dom dec"
  by (simp add: dom_def dec_enc)

lemma dec_map: "map (\<lambda>x. dec (enc x)) xs = map Some xs"
  by (simp add: dec_enc)

end

section \<open>Alphabets\<close>

text \<open>The 62 common digits, and the two that differ.\<close>

definition digit_char :: "nat \<Rightarrow> nat \<Rightarrow> nat \<Rightarrow> char" where
  "digit_char c62 c63 n = char_of (
     if n < 26 then 65 + n else if n < 52 then 71 + n else if n < 62 then n - 4
     else if n = 62 then c62 else c63)"

definition digit_val :: "nat \<Rightarrow> nat \<Rightarrow> char \<Rightarrow> nat option" where
  "digit_val c62 c63 c = (let v = byte_val c in
     if 65 \<le> v \<and> v \<le> 90 then Some (v - 65)
     else if 97 \<le> v \<and> v \<le> 122 then Some (v - 71)
     else if 48 \<le> v \<and> v \<le> 57 then Some (v + 4)
     else if v = c62 then Some 62 else if v = c63 then Some 63 else None)"

definition std_char :: "nat \<Rightarrow> char" where "std_char = digit_char 43 47"
definition std_val :: "char \<Rightarrow> nat option" where "std_val = digit_val 43 47"
definition url_char :: "nat \<Rightarrow> char" where "url_char = digit_char 45 95"
definition url_val :: "char \<Rightarrow> nat option" where "url_val = digit_val 45 95"

lemma digit_val_char:
  assumes n: "n < 64" and c: "c62 = 43 \<and> c63 = 47 \<or> c62 = 45 \<and> c63 = 95"
  shows "digit_val c62 c63 (digit_char c62 c63 n) = Some n"
proof -
  have cs: "c62 < 48" "c62 < 256" "c63 < 256" "c63 \<noteq> c62"
    "\<not> (65 \<le> c63 \<and> c63 \<le> 90)" "\<not> (97 \<le> c63 \<and> c63 \<le> 122)" "\<not> (48 \<le> c63 \<and> c63 \<le> 57)"
    using c by auto
  consider "n < 26" | "26 \<le> n \<and> n < 52" | "52 \<le> n \<and> n < 62" | "n = 62" | "n = 63"
    using n by linarith
  then show ?thesis
  proof cases
    case 1
    then have "byte_val (digit_char c62 c63 n) = 65 + n" by (simp add: digit_char_def)
    with 1 show ?thesis by (simp add: digit_val_def)
  next
    case 2
    then have "byte_val (digit_char c62 c63 n) = 71 + n" by (simp add: digit_char_def)
    with 2 show ?thesis by (simp add: digit_val_def)
  next
    case 3
    then have "n - 4 < 256" by linarith
    then have "(n - 4) mod 256 = n - 4" by (rule mod_less)
    with 3 have "byte_val (digit_char c62 c63 n) = n - 4" by (simp add: digit_char_def)
    with 3 show ?thesis by (auto simp: digit_val_def Let_def)
  next
    case 4
    then have "byte_val (digit_char c62 c63 n) = c62" using cs by (simp add: digit_char_def)
    with 4 cs show ?thesis by (simp add: digit_val_def)
  next
    case 5
    then have "byte_val (digit_char c62 c63 n) = c63" using cs by (simp add: digit_char_def)
    with 5 cs show ?thesis by (auto simp: digit_val_def)
  qed
qed

lemma std_val_char [simp]: "n < 64 \<Longrightarrow> std_val (std_char n) = Some n"
  and url_val_char [simp]: "n < 64 \<Longrightarrow> url_val (url_char n) = Some n"
  by (simp_all add: std_val_def std_char_def url_val_def url_char_def digit_val_char)

section \<open>Encoding\<close>

text \<open>\<open>pad\<close> is the padding appended to a final group, empty for the raw encoding.\<close>

fun encode_with :: "(nat \<Rightarrow> char) \<Rightarrow> bool \<Rightarrow> bytes \<Rightarrow> bytes" where
  "encode_with al pad [] = []"
| "encode_with al pad [a] = (let x = byte_val a in
     [al (x div 4), al (x mod 4 * 16)] @ (if pad then ''=='' else []))"
| "encode_with al pad [a, b] = (let x = byte_val a; y = byte_val b in
     [al (x div 4), al (x mod 4 * 16 + y div 16), al (y mod 16 * 4)] @ (if pad then ''='' else []))"
| "encode_with al pad (a # b # c # r) = (let x = byte_val a; y = byte_val b; z = byte_val c in
     [al (x div 4), al (x mod 4 * 16 + y div 16), al (y mod 16 * 4 + z div 64), al (z mod 64)]
     @ encode_with al pad r)"

definition std_encode :: "bytes \<Rightarrow> bytes" where
  "std_encode = encode_with std_char True"

definition rawurl_encode :: "bytes \<Rightarrow> bytes" where
  "rawurl_encode = encode_with url_char False"

section \<open>Decoding\<close>

definition byte3 :: "nat \<Rightarrow> nat \<Rightarrow> nat \<Rightarrow> nat \<Rightarrow> bytes" where
  "byte3 p q r s = [char_of (p * 4 + q div 16), char_of (q mod 16 * 16 + r div 4), char_of (r mod 4 * 64 + s)]"

fun decode_quanta :: "(char \<Rightarrow> nat option) \<Rightarrow> bool \<Rightarrow> bytes \<Rightarrow> bytes option" where
  "decode_quanta dv pad [] = Some []"
| "decode_quanta dv pad [a] = None"
| "decode_quanta dv pad [a, b] = (if pad then None else
     (case (dv a, dv b) of (Some p, Some q) \<Rightarrow> Some (take 1 (byte3 p q 0 0)) | _ \<Rightarrow> None))"
| "decode_quanta dv pad [a, b, c] = (if pad then None else
     (case (dv a, dv b, dv c) of (Some p, Some q, Some r) \<Rightarrow> Some (take 2 (byte3 p q r 0)) | _ \<Rightarrow> None))"
| "decode_quanta dv pad (a # b # c # d # rest) =
     (case (dv a, dv b) of
        (Some p, Some q) \<Rightarrow>
          if pad \<and> c = CHR ''='' then
            (if d = CHR ''='' \<and> rest = [] then Some (take 1 (byte3 p q 0 0)) else None)
          else (case dv c of None \<Rightarrow> None
            | Some r \<Rightarrow>
              if pad \<and> d = CHR ''='' then (if rest = [] then Some (take 2 (byte3 p q r 0)) else None)
              else (case dv d of None \<Rightarrow> None
                | Some s \<Rightarrow> map_option (\<lambda>t. byte3 p q r s @ t) (decode_quanta dv pad rest)))
      | _ \<Rightarrow> None)"

definition line_break :: "char \<Rightarrow> bool" where
  "line_break c = (byte_val c = 10 \<or> byte_val c = 13)"

definition std_decode :: "bytes \<Rightarrow> bytes option" where
  "std_decode s = decode_quanta std_val True (filter (\<lambda>c. \<not> line_break c) s)"

definition rawurl_decode :: "bytes \<Rightarrow> bytes option" where
  "rawurl_decode s = decode_quanta url_val False (filter (\<lambda>c. \<not> line_break c) s)"

section \<open>Round trips\<close>

lemma sextets:
  fixes x y z :: nat
  assumes "x < 256" "y < 256" "z < 256"
  shows "x div 4 < 64" "x mod 4 * 16 < 64" "x mod 4 * 16 + y div 16 < 64"
    "y mod 16 * 4 < 64" "y mod 16 * 4 + z div 64 < 64" "z mod 64 < 64"
proof -
  have a: "x div 4 < 64" "y div 16 < 16" "z div 64 < 4" "x mod 4 < 4" "y mod 16 < 16" "z mod 64 < 64"
    using assms by auto
  then show "x div 4 < 64" "x mod 4 * 16 < 64" "y mod 16 * 4 < 64" "z mod 64 < 64" by simp_all
  show "x mod 4 * 16 + y div 16 < 64" "y mod 16 * 4 + z div 64 < 64" using a by linarith+
qed

lemma byte3_join:
  assumes "x < 256" "y < 256" "z < 256"
  shows "byte3 (x div 4) (x mod 4 * 16 + y div 16) (y mod 16 * 4 + z div 64) (z mod 64)
     = [char_of x, char_of y, char_of z]"
proof -
  have q: "(x mod 4 * 16 + y div 16) div 16 = x mod 4" "(x mod 4 * 16 + y div 16) mod 16 = y div 16"
    using assms by auto
  have r: "(y mod 16 * 4 + z div 64) div 4 = y mod 16" "(y mod 16 * 4 + z div 64) mod 4 = z div 64"
    using assms by auto
  have m: "y div 16 mod 16 = y div 16" "z div 64 mod 4 = z div 64" "x mod 256 = x"
    "y mod 256 = y" "z mod 256 = z"
    using assms by (auto simp: less_mult_imp_div_less)
  show ?thesis by (simp add: byte3_def q r m)
qed

lemma byte3_join2:
  assumes "x < 256" "y < 256"
  shows "take 2 (byte3 (x div 4) (x mod 4 * 16 + y div 16) (y mod 16 * 4) 0) = [char_of x, char_of y]"
  using byte3_join [of x y 0] assms by simp

lemma byte3_join1:
  assumes "x < 256"
  shows "take 1 (byte3 (x div 4) (x mod 4 * 16) 0 0) = [char_of x]"
  using byte3_join [of x 0 0] assms by simp

lemma group3_induct [case_names empty one two three]:
  assumes "P []" "\<And>a. P [a]" "\<And>a b. P [a, b]" "\<And>a b c r. P r \<Longrightarrow> P (a # b # c # r)"
  shows "P (s :: bytes)"
proof (induction s rule: length_induct)
  case (1 s)
  show ?case
  proof (cases s)
    case Nil
    then show ?thesis using assms(1) by simp
  next
    case (Cons a t)
    then show ?thesis
    proof (cases t)
      case (Cons b u)
      then show ?thesis using 1 \<open>s = a # t\<close> assms(3,4) by (cases u) auto
    qed (use assms(2) in simp)
  qed
qed

text \<open>The round trip of one alphabet: every digit decodes to itself and is not the pad.\<close>

lemma decode_encode:
  assumes dv: "\<And>n. n < 64 \<Longrightarrow> dv (al n) = Some n" and np: "dv CHR ''='' = None"
  shows "decode_quanta dv pad (encode_with al pad s) = Some s"
proof -
  have ne: "al n \<noteq> CHR ''=''" if "n < 64" for n
    using dv [OF that] np by auto
  have b: "\<And>c. byte_val c < 256" by simp
  note facts = dv ne b byte3_join byte3_join1 byte3_join2
  show ?thesis
  proof (induction s rule: group3_induct)
    case empty
    then show ?case by simp
  next
    case (one a)
    then show ?case using facts sextets [of "byte_val a" 0 0] by (simp add: Let_def)
  next
    case (two a c)
    then show ?case using facts sextets [of "byte_val a" "byte_val c" 0] by (simp add: Let_def)
  next
    case (three a c d r)
    then show ?case using facts sextets [of "byte_val a" "byte_val c" "byte_val d"] by (simp add: Let_def)
  qed
qed

text \<open>Every digit is a printable character, so the decoder's line-break filter drops none.\<close>

lemma digit_printable:
  assumes "32 < c62" "c62 < 48" "32 < c63" "c63 < 128" "n < 64"
  shows "32 < byte_val (digit_char c62 c63 n)"
proof -
  have "(if n < 26 then 65 + n else if n < 52 then 71 + n else if n < 62 then n - 4
     else if n = 62 then c62 else c63) < 256" using assms by auto
  then show ?thesis using assms by (auto simp: digit_char_def)
qed

lemma encode_with_chars:
  assumes "\<And>n. n < 64 \<Longrightarrow> P (al n)" and "pad \<Longrightarrow> P CHR ''=''"
  shows "list_all P (encode_with al pad s)"
proof (induction s rule: group3_induct)
  case (three a b c r)
  then show ?case
    using assms sextets [of "byte_val a" "byte_val b" "byte_val c"] by (simp add: Let_def)
next
  case (two a b)
  then show ?case using assms sextets [of "byte_val a" "byte_val b" 0] by (simp add: Let_def)
next
  case (one a)
  then show ?case using assms sextets [of "byte_val a" 0 0] by (simp add: Let_def)
qed simp

lemma filter_not_break:
  "list_all (\<lambda>c. 32 < byte_val c) s \<Longrightarrow> filter (\<lambda>c. \<not> line_break c) s = s"
  by (rule filter_True) (auto simp: list_all_iff line_break_def)

lemma std_encode_printable: "list_all (\<lambda>c. 32 < byte_val c) (std_encode s)"
  unfolding std_encode_def
  by (rule encode_with_chars) (use digit_printable [of 43 47] in \<open>simp_all add: std_char_def\<close>)

lemma rawurl_encode_printable: "list_all (\<lambda>c. 32 < byte_val c) (rawurl_encode s)"
  unfolding rawurl_encode_def
  by (rule encode_with_chars) (use digit_printable [of 45 95] in \<open>simp_all add: url_char_def\<close>)

lemma std_decode_encode: "std_decode (std_encode s) = Some s"
proof -
  have "std_val CHR ''='' = None" by (simp add: std_val_def digit_val_def)
  then show ?thesis
    unfolding std_decode_def filter_not_break [OF std_encode_printable]
    by (simp add: std_encode_def decode_encode)
qed

lemma rawurl_decode_encode: "rawurl_decode (rawurl_encode s) = Some s"
proof -
  have "url_val CHR ''='' = None" by (simp add: url_val_def digit_val_def)
  then show ?thesis
    unfolding rawurl_decode_def filter_not_break [OF rawurl_encode_printable]
    by (simp add: rawurl_encode_def decode_encode)
qed

interpretation std: codec std_encode std_decode
  by unfold_locales (rule std_decode_encode)

interpretation rawurl: codec rawurl_encode rawurl_decode
  by unfold_locales (rule rawurl_decode_encode)

section \<open>Shape of the raw encoding\<close>

text \<open>\<open>k\<close> bytes become \<open>4 k / 3\<close> digits, rounded up, each of the URL-safe alphabet.\<close>

definition url_safe :: "char \<Rightarrow> bool" where
  "url_safe c = (url_val c \<noteq> None)"

lemma length_rawurl_encode: "length (rawurl_encode s) = (4 * length s + 2) div 3"
  unfolding rawurl_encode_def by (induction s rule: group3_induct) (simp_all add: Let_def)

lemma rawurl_encode_safe: "list_all url_safe (rawurl_encode s)"
  unfolding rawurl_encode_def by (rule encode_with_chars) (simp_all add: url_safe_def)

lemma url_safe_no_dot: "\<not> url_safe CHR ''.''"
  by (simp add: url_safe_def url_val_def digit_val_def)

lemma rawurl_no_dot: "CHR ''.'' \<notin> set (rawurl_encode s)"
  using rawurl_encode_safe [of s] url_safe_no_dot by (auto simp: list_all_iff)

end
