(* ===== verification/JsText.thy ===== *)
theory JsText
  imports Base64 "HOL-Library.Word"
begin

text \<open>
  JavaScript text as \<open>assets/terminal.js\<close> handles it: a string is a list of 16-bit code
  units. \<open>TextEncoder\<close>, \<open>btoa\<close> and \<open>encodeURIComponent\<close> are the browser's; \<open>b64\<close> is the
  file's own chunked conversion of typed text to the payload of an \<open>input\<close> frame. The Go
  side of both encodings (\<open>base64.StdEncoding\<close>, \<open>url.PathUnescape\<close>) closes the round trips.
\<close>

type_synonym jstring = "16 word list"

definition js :: "bytes \<Rightarrow> jstring" where
  "js s = map of_char s"

section \<open>TextEncoder\<close>

definition high_surrogate :: "16 word \<Rightarrow> bool" where
  "high_surrogate u = (0xD800 \<le> unat u \<and> unat u \<le> 0xDBFF)"

definition low_surrogate :: "16 word \<Rightarrow> bool" where
  "low_surrogate u = (0xDC00 \<le> unat u \<and> unat u \<le> 0xDFFF)"

text \<open>The scalar values of a string, a surrogate without its partner reading as \<open>U+FFFD\<close>.\<close>

fun scalars :: "jstring \<Rightarrow> nat list" where
  "scalars [] = []"
| "scalars [u] = [if high_surrogate u \<or> low_surrogate u then 0xFFFD else unat u]"
| "scalars (u # v # r) =
     (if high_surrogate u \<and> low_surrogate v
      then (0x10000 + (unat u - 0xD800) * 0x400 + (unat v - 0xDC00)) # scalars r
      else (if high_surrogate u \<or> low_surrogate u then 0xFFFD else unat u) # scalars (v # r))"

definition text_encode :: "jstring \<Rightarrow> bytes" where
  "text_encode s = concat (map encode_rune (scalars s))"

lemma scalars_scalar: "list_all scalar (scalars s)"
proof (induction s rule: scalars.induct)
  case (2 u)
  have "unat u < 2 ^ 16" using unsigned_less [of u, where ?'a = nat] by simp
  then show ?case by (auto simp: scalar_def high_surrogate_def low_surrogate_def)
next
  case (3 u v r)
  have "unat u < 2 ^ 16" using unsigned_less [of u, where ?'a = nat] by simp
  moreover have "unat u - 0xD800 < 0x400 \<and> unat v - 0xDC00 < 0x400"
    if "high_surrogate u" "low_surrogate v"
    using that by (auto simp: high_surrogate_def low_surrogate_def)
  ultimately show ?case using 3
    by (auto simp: scalar_def high_surrogate_def low_surrogate_def)
qed simp

lemma runes_text_encode: "runes (text_encode s) = scalars s"
  unfolding text_encode_def by (rule runes_encode) (rule scalars_scalar)

section \<open>btoa and the chunked conversion\<close>

text \<open>\<open>btoa\<close> throws on a code unit above 255; \<open>None\<close> is the exception.\<close>

definition btoa :: "jstring \<Rightarrow> bytes option" where
  "btoa s = (if list_all (\<lambda>u. unat u < 256) s
     then Some (std_encode (map (\<lambda>u. char_of (unat u)) s)) else None)"

text \<open>\<open>String.fromCharCode.apply(null, bytes)\<close>: every byte is an argument of the call, and an
  engine that takes at most \<open>limit\<close> arguments throws a \<open>RangeError\<close> beyond it.\<close>

definition fromCharCode_apply :: "nat \<Rightarrow> bytes \<Rightarrow> jstring option" where
  "fromCharCode_apply limit bs = (if length bs \<le> limit then Some (map of_char bs) else None)"

definition CHUNK :: nat where "CHUNK = 0x8000"

function b64_loop :: "nat \<Rightarrow> bytes \<Rightarrow> nat \<Rightarrow> jstring \<Rightarrow> jstring option" where
  "b64_loop limit bs i bin = (if i < length bs
     then (case fromCharCode_apply limit (take CHUNK (drop i bs)) of
             None \<Rightarrow> None
           | Some piece \<Rightarrow> b64_loop limit bs (i + CHUNK) (bin @ piece))
     else Some bin)"
  by pat_completeness auto
termination
  by (relation "measure (\<lambda>(limit, bs, i, bin). length bs - i)") (auto simp: CHUNK_def)

declare b64_loop.simps [simp del]

definition b64 :: "nat \<Rightarrow> jstring \<Rightarrow> bytes option" where
  "b64 limit text = (case b64_loop limit (text_encode text) 0 [] of
     None \<Rightarrow> None | Some bin \<Rightarrow> btoa bin)"

lemma btoa_bytes: "btoa (map of_char bs) = Some (std_encode bs)"
proof -
  have u: "unat (of_char c :: 16 word) = byte_val c" for c
  proof -
    have "(of_char c :: 16 word) = of_nat (byte_val c)" by (rule of_nat_of_char [symmetric])
    moreover have "byte_val c < 2 ^ 16" by (rule less_le_trans [OF byte_val_less]) simp
    ultimately show ?thesis by (simp add: unat_of_nat)
  qed
  show ?thesis by (auto simp: btoa_def list_all_iff u comp_def)
qed

lemma b64_loop_eq:
  "CHUNK \<le> limit \<Longrightarrow> b64_loop limit bs i bin = Some (bin @ map of_char (drop i bs))"
proof (induction limit bs i bin rule: b64_loop.induct)
  case (1 limit bs i bin)
  show ?case
  proof (cases "i < length bs")
    case True
    have fc: "fromCharCode_apply limit (take CHUNK (drop i bs)) = Some (map of_char (take CHUNK (drop i bs)))"
      using "1.prems" by (simp add: fromCharCode_apply_def min_def)
    have "take CHUNK (drop i bs) @ drop (i + CHUNK) bs = drop i bs"
      by (metis add.commute append_take_drop_id drop_drop)
    then have "map of_char (drop i bs) =
       (map of_char (take CHUNK (drop i bs)) @ map of_char (drop (i + CHUNK) bs) :: jstring)"
      by (metis map_append)
    with 1 True fc show ?thesis by (subst b64_loop.simps) simp
  next
    case False
    then show ?thesis by (subst b64_loop.simps) simp
  qed
qed

lemma b64_eq: "CHUNK \<le> limit \<Longrightarrow> b64 limit text = Some (std_encode (text_encode text))"
  by (simp add: b64_def b64_loop_eq btoa_bytes)

section \<open>Percent encoding\<close>

definition hex_digit :: "nat \<Rightarrow> char" where
  "hex_digit n = char_of (if n < 10 then 48 + n else 55 + n)"

definition unhex :: "char \<Rightarrow> nat option" where
  "unhex c = (let v = byte_val c in
     if 48 \<le> v \<and> v \<le> 57 then Some (v - 48)
     else if 97 \<le> v \<and> v \<le> 102 then Some (v - 87)
     else if 65 \<le> v \<and> v \<le> 70 then Some (v - 55) else None)"

definition percent :: "char \<Rightarrow> bytes" where
  "percent c = [CHR ''%'', hex_digit (byte_val c div 16), hex_digit (byte_val c mod 16)]"

definition alnum :: "char \<Rightarrow> bool" where
  "alnum c = (let v = byte_val c in
     (48 \<le> v \<and> v \<le> 57) \<or> (65 \<le> v \<and> v \<le> 90) \<or> (97 \<le> v \<and> v \<le> 122))"

text \<open>The characters \<open>encodeURIComponent\<close> leaves alone; 39 is the apostrophe.\<close>

definition uri_unreserved :: "char \<Rightarrow> bool" where
  "uri_unreserved c = (alnum c \<or> c \<in> set ''-_.!~*()'' \<or> byte_val c = 39)"

definition encode_component :: "bytes \<Rightarrow> bytes" where
  "encode_component bs = concat (map (\<lambda>c. if uri_unreserved c then [c] else percent c) bs)"

text \<open>\<open>encodeURIComponent\<close> throws a \<open>URIError\<close> on a surrogate without its partner.\<close>

fun well_paired :: "jstring \<Rightarrow> bool" where
  "well_paired [] = True"
| "well_paired [u] = (\<not> high_surrogate u \<and> \<not> low_surrogate u)"
| "well_paired (u # v # r) =
     (if high_surrogate u \<and> low_surrogate v then well_paired r
      else \<not> high_surrogate u \<and> \<not> low_surrogate u \<and> well_paired (v # r))"

definition encodeURIComponent :: "jstring \<Rightarrow> bytes option" where
  "encodeURIComponent s = (if well_paired s then Some (encode_component (text_encode s)) else None)"

text \<open>Go's \<open>url.PathUnescape\<close>, which gives the router its path values.\<close>

fun PathUnescape :: "bytes \<Rightarrow> bytes option" where
  "PathUnescape [] = Some []"
| "PathUnescape (c # r) = (if c = CHR ''%'' then
       (case r of h # l # t \<Rightarrow>
          (case (unhex h, unhex l) of
             (Some a, Some b) \<Rightarrow> map_option (Cons (char_of (a * 16 + b))) (PathUnescape t)
           | _ \<Rightarrow> None)
        | _ \<Rightarrow> None)
     else map_option (Cons c) (PathUnescape r))"

lemma unhex_hex_digit: "n < 16 \<Longrightarrow> unhex (hex_digit n) = Some n"
proof (cases "n < 10")
  case True
  then show ?thesis by (simp add: unhex_def hex_digit_def)
next
  case False
  moreover assume "n < 16"
  ultimately have "byte_val (hex_digit n) = 55 + n" by (simp add: hex_digit_def)
  with False \<open>n < 16\<close> show ?thesis by (auto simp: unhex_def Let_def)
qed

lemma PathUnescape_percent: "PathUnescape (percent c @ t) = map_option (Cons c) (PathUnescape t)"
proof -
  have "byte_val c div 16 < 16" using byte_val_less [of c] by linarith
  moreover have "byte_val c div 16 * 16 + byte_val c mod 16 = byte_val c" by simp
  ultimately show ?thesis by (simp add: percent_def unhex_hex_digit)
qed

lemma PathUnescape_component: "PathUnescape (encode_component bs) = Some bs"
proof (induction bs)
  case (Cons c bs)
  have "\<not> uri_unreserved CHR ''%''" by (simp add: uri_unreserved_def alnum_def)
  with Cons show ?case
    by (auto simp: encode_component_def PathUnescape_percent)
qed (simp add: encode_component_def)

interpretation component: codec encode_component PathUnescape
  by unfold_locales (rule PathUnescape_component)

lemma hex_digit_alnum: "n < 16 \<Longrightarrow> alnum (hex_digit n)"
proof (cases "n < 10")
  case False
  moreover assume "n < 16"
  ultimately have "byte_val (hex_digit n) = 55 + n" by (simp add: hex_digit_def)
  with False \<open>n < 16\<close> show ?thesis by (auto simp: alnum_def Let_def)
qed (simp add: hex_digit_def alnum_def)

text \<open>An encoded component holds no byte that ends a path segment, a path or a query.\<close>

lemma encode_component_chars:
  "list_all (\<lambda>c. uri_unreserved c \<or> c = CHR ''%'') (encode_component bs)"
proof (induction bs)
  case (Cons c bs)
  have "byte_val c div 16 < 16" using byte_val_less [of c] by linarith
  then have "alnum (hex_digit (byte_val c div 16))" "alnum (hex_digit (byte_val c mod 16))"
    by (simp_all add: hex_digit_alnum)
  with Cons show ?case
    by (auto simp: encode_component_def percent_def uri_unreserved_def)
qed (simp add: encode_component_def)

lemma encode_component_no_delim:
  "c \<in> set ''/?#&'' \<Longrightarrow> c \<notin> set (encode_component bs)"
  using encode_component_chars [of bs]
  by (auto simp: list_all_iff uri_unreserved_def alnum_def)

end
