(* ===== verification/Mux.thy ===== *)
theory Mux
  imports GoPath JsText
begin

text \<open>
  Request routing as \<open>http.ServeMux\<close> documents it, for the patterns the dashboard uses: an optional
  method, literal segments and one-segment wildcards, and a trailing slash that matches everything below.
  Among the patterns that match a request the most specific one wins; registering two patterns that
  overlap without one being more specific panics (\<open>conflict\<close>).
\<close>

section \<open>Patterns\<close>

datatype seg = Lit bytes | Wild

record pattern =
  p_method :: bytes      \<comment> \<open>empty for every method\<close>
  p_segs :: "seg list"
  p_multi :: bool        \<comment> \<open>ends with a slash\<close>

definition pat :: "bytes \<Rightarrow> seg list \<Rightarrow> pattern" where
  "pat m ps = \<lparr>p_method = m, p_segs = ps, p_multi = False\<rparr>"

definition below :: "seg list \<Rightarrow> pattern" where
  "below ps = \<lparr>p_method = [], p_segs = ps, p_multi = True\<rparr>"

text \<open>A cleaned path is its segments and whether it ends with a slash.\<close>

definition cleanPath :: "bytes \<Rightarrow> bytes" where
  "cleanPath p = (if p = [] then [slash]
     else let p = (if hd p \<noteq> slash then slash # p else p); np = Clean p
       in if last p = slash \<and> np \<noteq> [slash] then np @ [slash] else np)"

definition path_segs :: "bytes \<Rightarrow> bytes list \<times> bool" where
  "path_segs p = (let ss = Split (drop 1 p) slash in if last ss = [] then (butlast ss, True) else (ss, False))"

definition path_unescape :: "bytes \<Rightarrow> bytes" where
  "path_unescape s = (case PathUnescape s of Some t \<Rightarrow> t | None \<Rightarrow> s)"

text \<open>The values of the wildcards, when the pattern matches.\<close>

fun match_segs :: "seg list \<Rightarrow> bool \<Rightarrow> bytes list \<Rightarrow> bool \<Rightarrow> bytes list option" where
  "match_segs [] multi ss slashed = (if multi = (ss \<noteq> [] \<or> slashed) then Some [] else None)"
| "match_segs (p # ps) multi [] slashed = None"
| "match_segs (Lit l # ps) multi (s # ss) slashed = (if path_unescape s = l then match_segs ps multi ss slashed else None)"
| "match_segs (Wild # ps) multi (s # ss) slashed = map_option ((#) (path_unescape s)) (match_segs ps multi ss slashed)"

definition match_method :: "bytes \<Rightarrow> bytes \<Rightarrow> bool" where
  "match_method p m = (p = [] \<or> p = m \<or> p = ''GET'' \<and> m = ''HEAD'')"

definition matching :: "bytes \<Rightarrow> bytes list \<Rightarrow> bool \<Rightarrow> pattern \<Rightarrow> bool" where
  "matching m ss slashed p = (match_method (p_method p) m \<and> match_segs (p_segs p) (p_multi p) ss slashed \<noteq> None)"

section \<open>Precedence\<close>

text \<open>Segments are ordered by what they match: a wildcard is above every literal.\<close>

instantiation seg :: order
begin

fun less_eq_seg :: "seg \<Rightarrow> seg \<Rightarrow> bool" where
  "less_eq_seg _ Wild = True" | "less_eq_seg (Lit a) (Lit b) = (a = b)" | "less_eq_seg Wild (Lit b) = False"

definition less_seg :: "seg \<Rightarrow> seg \<Rightarrow> bool" where
  "less_seg x y = (x \<le> y \<and> \<not> y \<le> x)"

instance
proof
  fix x y z :: seg
  show "x < y \<longleftrightarrow> x \<le> y \<and> \<not> y \<le> x" by (rule less_seg_def)
  show "x \<le> x" by (cases x) simp_all
  show "x \<le> y \<Longrightarrow> y \<le> z \<Longrightarrow> x \<le> z" by (cases x; cases y; cases z) auto
  show "x \<le> y \<Longrightarrow> y \<le> x \<Longrightarrow> x = y" by (cases x; cases y) auto
qed

end

fun segs_le :: "seg list \<Rightarrow> bool \<Rightarrow> seg list \<Rightarrow> bool \<Rightarrow> bool" where
  "segs_le [] pm [] qm = (pm = qm)"
| "segs_le (x # ps) pm [] qm = qm"
| "segs_le [] pm (y # qs) qm = False"
| "segs_le (x # ps) pm (y # qs) qm = (x \<le> y \<and> segs_le ps pm qs qm)"

definition method_le :: "bytes \<Rightarrow> bytes \<Rightarrow> bool" where
  "method_le a b = (b = [] \<or> a = b \<or> a = ''HEAD'' \<and> b = ''GET'')"

definition pat_le :: "pattern \<Rightarrow> pattern \<Rightarrow> bool" where
  "pat_le p q = (method_le (p_method p) (p_method q) \<and> segs_le (p_segs p) (p_multi p) (p_segs q) (p_multi q))"

fun seg_meet :: "seg \<Rightarrow> seg \<Rightarrow> bool" where
  "seg_meet (Lit a) (Lit b) = (a = b)" | "seg_meet _ _ = True"

fun segs_meet :: "seg list \<Rightarrow> bool \<Rightarrow> seg list \<Rightarrow> bool \<Rightarrow> bool" where
  "segs_meet [] pm [] qm = (pm = qm)"
| "segs_meet (x # ps) pm [] qm = qm"
| "segs_meet [] pm (y # qs) qm = pm"
| "segs_meet (x # ps) pm (y # qs) qm = (seg_meet x y \<and> segs_meet ps pm qs qm)"

definition methods_meet :: "bytes \<Rightarrow> bytes \<Rightarrow> bool" where
  "methods_meet a b = (method_le a b \<or> method_le b a)"

definition conflict :: "pattern \<Rightarrow> pattern \<Rightarrow> bool" where
  "conflict p q = (methods_meet (p_method p) (p_method q) \<and>
     segs_meet (p_segs p) (p_multi p) (p_segs q) (p_multi q) \<and> (pat_le p q \<longleftrightarrow> pat_le q p))"

fun registers :: "(pattern \<times> 'e) list \<Rightarrow> bool" where
  "registers [] = True"
| "registers ((p, e) # t) = (list_all (\<lambda>(q, f). \<not> conflict p q) t \<and> registers t)"

definition best :: "(pattern \<times> 'e) list \<Rightarrow> bytes \<Rightarrow> bytes list \<Rightarrow> bool \<Rightarrow> (pattern \<times> 'e) option" where
  "best t m ss slashed = (let found = filter (\<lambda>x. matching m ss slashed (fst x)) t in
     find (\<lambda>x. list_all (\<lambda>y. pat_le (fst x) (fst y)) found) found)"

section \<open>Serving a path\<close>

text \<open>A match is exact unless a trailing-slash pattern matched something below it; a path without an
  exact match is redirected to the same path with a slash if that has one, and an unclean path to its
  clean form.\<close>

definition exact :: "pattern \<Rightarrow> bytes list \<Rightarrow> bool \<Rightarrow> bool" where
  "exact p ss slashed = (\<not> p_multi p \<or> slashed \<and> length (p_segs p) = length ss)"

datatype 'e routed = To 'e "bytes list" | MovedTo bytes | NoRoute

definition serve_mux :: "(pattern \<times> 'e) list \<Rightarrow> bytes \<Rightarrow> bytes \<Rightarrow> 'e routed" where
  "serve_mux t m escaped = (let path = cleanPath escaped; (ss, slashed) = path_segs path;
       b = best t m ss slashed;
       here = (case b of None \<Rightarrow> False | Some x \<Rightarrow> exact (fst x) ss slashed);
       there = (\<not> slashed \<and> (case best t m ss True of None \<Rightarrow> False | Some x \<Rightarrow> exact (fst x) ss True))
     in if \<not> here \<and> there then MovedTo (path @ [slash])
        else if path \<noteq> escaped then MovedTo path
        else case b of None \<Rightarrow> NoRoute
          | Some (p, e) \<Rightarrow> (case match_segs (p_segs p) (p_multi p) ss slashed of
              None \<Rightarrow> NoRoute | Some vs \<Rightarrow> To e vs))"

section \<open>Facts\<close>

lemma segs_le_trans: "segs_le ps pm qs qm \<Longrightarrow> segs_le qs qm rs rm \<Longrightarrow> segs_le ps pm rs rm"
proof (induction ps pm qs qm arbitrary: rs rule: segs_le.induct)
  case (4 x ps pm y qs qm)
  then show ?case by (cases rs) (auto intro: order_trans)
next
  case (2 x ps pm qm)
  then show ?case by (cases rs) auto
next
  case (1 pm qm)
  then show ?case by (cases rs) auto
qed auto

lemma method_le_trans: "method_le a b \<Longrightarrow> method_le b c \<Longrightarrow> method_le a c"
  by (auto simp: method_le_def)

lemma pat_le_trans: "pat_le p q \<Longrightarrow> pat_le q r \<Longrightarrow> pat_le p r"
  unfolding pat_le_def using method_le_trans segs_le_trans by blast

lemma pat_le_refl: "pat_le p p"
proof -
  have "segs_le ps m ps m" for ps m by (induction ps) simp_all
  then show ?thesis by (simp add: pat_le_def method_le_def)
qed

text \<open>Two patterns that match one request overlap.\<close>

lemma match_segs_meet:
  "match_segs ps pm ss slashed \<noteq> None \<Longrightarrow> match_segs qs qm ss slashed \<noteq> None \<Longrightarrow> segs_meet ps pm qs qm"
proof (induction ps pm ss slashed arbitrary: qs rule: match_segs.induct)
  case (1 pm ss slashed)
  then show ?case by (cases qs; cases ss; cases "hd qs") (auto split: if_splits)
next
  case (3 l ps pm s ss slashed)
  then show ?case by (cases qs; cases "hd qs") (auto split: if_splits)
next
  case (4 ps pm s ss slashed)
  then show ?case by (cases qs; cases "hd qs") (auto split: if_splits)
qed simp

lemma matching_meet:
  assumes "matching m ss slashed p" and "matching m ss slashed q"
  shows "methods_meet (p_method p) (p_method q)" "segs_meet (p_segs p) (p_multi p) (p_segs q) (p_multi q)"
proof -
  show "segs_meet (p_segs p) (p_multi p) (p_segs q) (p_multi q)"
    using assms unfolding matching_def by (intro match_segs_meet [of _ _ ss slashed]) auto
  show "methods_meet (p_method p) (p_method q)"
    using assms unfolding matching_def match_method_def methods_meet_def method_le_def by auto
qed

lemma matching_comparable:
  assumes "registers t" and "(p, e) \<in> set t" and "(q, f) \<in> set t" and "matching m ss slashed p" and "matching m ss slashed q"
  shows "pat_le p q \<or> pat_le q p"
proof -
  note meet = matching_meet [OF assms(4,5)] matching_meet [OF assms(5,4)]
  have "(p, e) = (q, f) \<or> \<not> conflict p q \<or> \<not> conflict q p"
    using assms(1-3) by (induction t rule: registers.induct) (auto simp: list_all_iff)
  then show ?thesis using meet pat_le_refl by (auto simp: conflict_def)
qed

lemma chain_least:
  assumes "xs \<noteq> []" and "\<And>x y. x \<in> set xs \<Longrightarrow> y \<in> set xs \<Longrightarrow> le x y \<or> le y x" and "\<And>x y z. le x y \<Longrightarrow> le y z \<Longrightarrow> le x z"
  shows "\<exists>x\<in>set xs. list_all (le x) xs"
  using assms(1,2)
proof (induction xs)
  case (Cons a xs)
  show ?case
  proof (cases "xs = []")
    case True
    then show ?thesis using Cons.prems(2) [of a a] by simp
  next
    case False
    then obtain x where x: "x \<in> set xs" "list_all (le x) xs" using Cons by fastforce
    consider "le x a" | "le a x" using Cons.prems(2) [of x a] x(1) by auto
    then show ?thesis
    proof cases
      case 2
      then have "list_all (le a) xs" using x(2) assms(3) by (auto simp: list_all_iff)
      then show ?thesis using Cons.prems(2) [of a a] by auto
    qed (use x in auto)
  qed
qed simp

lemma best_Some:
  assumes "registers t" and "matching m ss slashed p" and "(p, e) \<in> set t"
  obtains q f where "best t m ss slashed = Some (q, f)" and "(q, f) \<in> set t" and "matching m ss slashed q"
    and "\<And>r g. (r, g) \<in> set t \<Longrightarrow> matching m ss slashed r \<Longrightarrow> pat_le q r"
proof -
  let ?found = "filter (\<lambda>x. matching m ss slashed (fst x)) t"
  have "?found \<noteq> []" using assms(2,3) by (force simp: filter_empty_conv)
  moreover have "pat_le (fst x) (fst y) \<or> pat_le (fst y) (fst x)" if "x \<in> set ?found" "y \<in> set ?found" for x y
  proof -
    have "(fst x, snd x) \<in> set t" "(fst y, snd y) \<in> set t" "matching m ss slashed (fst x)" "matching m ss slashed (fst y)"
      using that by simp_all
    then show ?thesis by (rule matching_comparable [OF assms(1)])
  qed
  ultimately have "\<exists>x\<in>set ?found. list_all (\<lambda>y. pat_le (fst x) (fst y)) ?found"
    using chain_least [of ?found "\<lambda>x y. pat_le (fst x) (fst y)"] pat_le_trans by blast
  then have "best t m ss slashed \<noteq> None"
    by (auto simp: best_def Let_def find_None_iff)
  then obtain x where x: "best t m ss slashed = Some x" by blast
  then obtain i where i: "i < length ?found" "list_all (\<lambda>y. pat_le (fst (?found ! i)) (fst y)) ?found" "x = ?found ! i"
    by (auto simp: best_def Let_def find_Some_iff)
  then have "x \<in> set ?found" by (metis nth_mem)
  with i have "x \<in> set ?found \<and> list_all (\<lambda>y. pat_le (fst x) (fst y)) ?found" by simp
  then show thesis using that [of "fst x" "snd x"] x by (auto simp: list_all_iff)
qed

text \<open>Patterns of one table that are each more specific than the other are the same entry.\<close>

lemma registers_antisym:
  assumes "registers t" and "(p, e) \<in> set t" and "(q, f) \<in> set t" and "matching m ss slashed p" and "matching m ss slashed q"
    and "pat_le p q" and "pat_le q p"
  shows "(p, e) = (q, f)"
proof -
  note meet = matching_meet [OF assms(4,5)] matching_meet [OF assms(5,4)]
  then have "conflict p q" "conflict q p" using assms(6,7) by (simp_all add: conflict_def)
  then show ?thesis using assms(1-3) by (induction t rule: registers.induct) (auto simp: list_all_iff)
qed

end
