(* ===== verification/Access.thy ===== *)
theory Access
  imports GoStrings "HOL-Library.Product_Lexorder"
begin

text \<open>
  The user directory and the per-session member lists (\<open>internal/access/access.go\<close>). A store is
  the record of its path, its two maps and what the file at the path holds; every method takes
  the outcome of writing the file (\<open>wr\<close>: \<open>None\<close> when it succeeds) and the time where it reads
  the clock. \<open>ul\<close> is the part of Go's \<open>unicode.ToLower\<close> above ASCII. The file holds the state
  itself: \<open>encoding/json\<close> reads back what it wrote.
\<close>

section \<open>Data\<close>

record user =
  uKey :: bytes
  uSub :: bytes
  uEmail :: bytes
  uName :: bytes
  uUsername :: bytes
  uInvited :: bool
  uFirstSeen :: nanos
  uLastSeen :: nanos

definition zero_user :: user where
  "zero_user = \<lparr>uKey = [], uSub = [], uEmail = [], uName = [], uUsername = [], uInvited = False,
     uFirstSeen = 0, uLastSeen = 0\<rparr>"

definition Label :: "user \<Rightarrow> bytes" where
  "Label u = (if uName u \<noteq> [] then uName u else if uEmail u \<noteq> [] then uEmail u else uKey u)"

record acl =
  owner :: bytes
  members :: "bytes list"
  addedAt :: nanos

definition no_acl :: acl where
  "no_acl = \<lparr>owner = [], members = [], addedAt = 0\<rparr>"

definition Allows :: "acl \<Rightarrow> bytes list \<Rightarrow> bool" where
  "Allows a principals = list_ex (\<lambda>p. p \<noteq> [] \<and> (owner a = p \<or> list_ex (\<lambda>m. m = p) (members a))) principals"

definition Key :: "(nat \<Rightarrow> nat) \<Rightarrow> bytes \<Rightarrow> bytes" where
  "Key ul s = ToLower ul (TrimSpace s)"

definition contains :: "bytes list \<Rightarrow> bytes \<Rightarrow> bool" where
  "contains xs v = list_ex (\<lambda>s. s = v) xs"

fun add_principals :: "bytes list \<Rightarrow> bytes list \<Rightarrow> bytes list" where
  "add_principals out [] = out"
| "add_principals out (p # ps) =
     add_principals (if p = [] \<or> contains out p then out else out @ [p]) ps"

definition Principals :: "(nat \<Rightarrow> nat) \<Rightarrow> bytes \<Rightarrow> bytes \<Rightarrow> bytes \<Rightarrow> bytes list" where
  "Principals ul sub email username = add_principals [] [Key ul email, TrimSpace sub, Key ul username]"

type_synonym access_state = "(bytes \<rightharpoonup> user) \<times> (bytes \<rightharpoonup> acl)"

record store =
  path :: bytes
  users :: "bytes \<rightharpoonup> user"
  sessions :: "bytes \<rightharpoonup> acl"
  disk :: "access_state option"      \<comment> \<open>what the file holds, once it has been written\<close>

section \<open>Opening and saving\<close>

datatype access_error = WriteFailed | ReadFailed | ParseFailed | NoSessionID | Required | NoSuchSession

definition save :: "access_error option \<Rightarrow> store \<Rightarrow> access_error option \<times> store" where
  "save wr s = (if path s = [] then (None, s)
     else case wr of Some e \<Rightarrow> (Some e, s)
                   | None \<Rightarrow> (None, s\<lparr>disk := Some (users s, sessions s)\<rparr>))"

text \<open>What reading the file gives: nothing there, an error, text that does not parse, or the two
  maps, of which a file may lack either.\<close>

datatype file_read = NotExist | ReadErr | Garbage | Decoded "(bytes \<rightharpoonup> user) option" "(bytes \<rightharpoonup> acl) option"

definition Open :: "bytes \<Rightarrow> file_read \<Rightarrow> access_error option \<Rightarrow> access_error + store" where
  "Open p f wr = (let s = \<lparr>path = p, users = (\<lambda>_. None), sessions = (\<lambda>_. None), disk = None\<rparr> in
     if p = [] then Inr s
     else case f of
       NotExist \<Rightarrow> (case save wr s of (Some e, _) \<Rightarrow> Inl e | (None, s1) \<Rightarrow> Inr s1)
     | ReadErr \<Rightarrow> Inl ReadFailed
     | Garbage \<Rightarrow> Inl ParseFailed
     | Decoded us ss \<Rightarrow> let um = (case us of None \<Rightarrow> (\<lambda>_. None) | Some m \<Rightarrow> m);
                            sm = (case ss of None \<Rightarrow> (\<lambda>_. None) | Some m \<Rightarrow> m)
                        in Inr (s\<lparr>users := um, sessions := sm, disk := Some (um, sm)\<rparr>))"

section \<open>The directory\<close>

fun first_known :: "(bytes \<rightharpoonup> user) \<Rightarrow> bytes list \<Rightarrow> user option" where
  "first_known us [] = None"
| "first_known us (p # ps) = (case us p of Some old \<Rightarrow> Some old | None \<Rightarrow> first_known us ps)"

definition Seen :: "(nat \<Rightarrow> nat) \<Rightarrow> access_error option \<Rightarrow> nanos \<Rightarrow> bytes \<Rightarrow> bytes \<Rightarrow> bytes \<Rightarrow> bytes \<Rightarrow> store \<Rightarrow> user \<times> store" where
  "Seen ul wr now sub email name username s = (let
     u = \<lparr>uKey = (if Key ul email = [] then TrimSpace sub else Key ul email), uSub = sub, uEmail = email,
           uName = name, uUsername = username, uInvited = False, uFirstSeen = now, uLastSeen = now\<rparr>;
     u1 = (case first_known (users s) (Principals ul sub email username) of
             None \<Rightarrow> u
           | Some old \<Rightarrow> u\<lparr>uKey := uKey old,
                           uFirstSeen := (if uFirstSeen old = 0 then now else uFirstSeen old)\<rparr>)
     in if uKey u1 = [] then (zero_user, s)
        else (u1, snd (save wr (s\<lparr>users := (users s)(uKey u1 \<mapsto> u1)\<rparr>))))"

text \<open>\<open>Users\<close> collects the map in the order \<open>ks\<close> in which Go happens to iterate it, and sorts.\<close>

definition rank :: "(nat \<Rightarrow> nat) \<Rightarrow> user \<Rightarrow> bytes \<times> bytes" where
  "rank ul u = (ToLower ul (Label u), uKey u)"

definition Users :: "(nat \<Rightarrow> nat) \<Rightarrow> bytes list \<Rightarrow> store \<Rightarrow> user list" where
  "Users ul ks s = sort_key (rank ul) (map (\<lambda>k. the (users s k)) ks)"

definition Lookup_user :: "(nat \<Rightarrow> nat) \<Rightarrow> bytes \<Rightarrow> store \<Rightarrow> user option" where
  "Lookup_user ul h s = users s (Key ul h)"

section \<open>Access lists\<close>

definition ACL :: "store \<Rightarrow> bytes \<Rightarrow> acl" where
  "ACL s sid = (case sessions s sid of None \<Rightarrow> no_acl | Some a \<Rightarrow> a)"

definition touch :: "nanos \<Rightarrow> acl \<Rightarrow> acl" where
  "touch now a = (if addedAt a = 0 then a\<lparr>addedAt := now\<rparr> else a)"

definition SetOwner :: "(nat \<Rightarrow> nat) \<Rightarrow> access_error option \<Rightarrow> nanos \<Rightarrow> bytes \<Rightarrow> bytes \<Rightarrow> store \<Rightarrow> access_error option \<times> store" where
  "SetOwner ul wr now sid ow s = (if sid = [] then (Some NoSessionID, s)
     else save wr (s\<lparr>sessions := (sessions s)(sid \<mapsto> touch now ((ACL s sid)\<lparr>owner := Key ul ow\<rparr>))\<rparr>))"

definition invited :: "bytes \<Rightarrow> user" where
  "invited key = (if Contains key ''@'' then zero_user\<lparr>uKey := key, uInvited := True, uEmail := key\<rparr>
     else zero_user\<lparr>uKey := key, uInvited := True, uUsername := key\<rparr>)"

definition AddMember :: "(nat \<Rightarrow> nat) \<Rightarrow> access_error option \<Rightarrow> nanos \<Rightarrow> bytes \<Rightarrow> bytes \<Rightarrow> store \<Rightarrow> user \<times> access_error option \<times> store" where
  "AddMember ul wr now sid handle s = (let key = Key ul handle in
     if sid = [] \<or> key = [] then (zero_user, Some Required, s)
     else let (u, s1) = (case users s key of
                  Some u \<Rightarrow> (u, s)
                | None \<Rightarrow> (invited key, s\<lparr>users := (users s)(key \<mapsto> invited key)\<rparr>));
              a = touch now (ACL s1 sid);
              a1 = (if \<not> contains (members a) key \<and> owner a \<noteq> key then a\<lparr>members := members a @ [key]\<rparr> else a)
          in (u, save wr (s1\<lparr>sessions := (sessions s1)(sid \<mapsto> a1)\<rparr>)))"

definition RemoveMember :: "(nat \<Rightarrow> nat) \<Rightarrow> access_error option \<Rightarrow> bytes \<Rightarrow> bytes \<Rightarrow> store \<Rightarrow> access_error option \<times> store" where
  "RemoveMember ul wr sid handle s = (let key = Key ul handle in
     case sessions s sid of
       None \<Rightarrow> (Some NoSuchSession, s)
     | Some a \<Rightarrow> save wr (s\<lparr>sessions := (sessions s)(sid \<mapsto> a\<lparr>members := filter (\<lambda>m. m \<noteq> key) (members a)\<rparr>)\<rparr>))"

definition Members_of :: "store \<Rightarrow> bytes \<Rightarrow> user list" where
  "Members_of s sid = map (\<lambda>m. case users s m of Some u \<Rightarrow> u | None \<Rightarrow> zero_user\<lparr>uKey := m\<rparr>) (members (ACL s sid))"

definition stale :: "(bytes \<Rightarrow> bool) \<Rightarrow> nanos \<Rightarrow> nanos \<Rightarrow> bytes \<Rightarrow> acl \<Rightarrow> bool" where
  "stale live now grace sid a = (\<not> (live sid \<or> now - addedAt a < grace))"

text \<open>\<open>Prune\<close> deletes while it ranges over the map, in whatever order \<open>ids\<close> Go visits it.\<close>

definition Prune :: "access_error option \<Rightarrow> (bytes \<Rightarrow> bool) \<Rightarrow> nanos \<Rightarrow> nanos \<Rightarrow> bytes list \<Rightarrow> store \<Rightarrow> store" where
  "Prune wr live now grace ids s = (let
     (s1, changed) = foldl (\<lambda>(s, changed) sid. case sessions s sid of
          None \<Rightarrow> (s, changed)
        | Some a \<Rightarrow> if stale live now grace sid a then (s\<lparr>sessions := (sessions s)(sid := None)\<rparr>, True)
                     else (s, changed)) (s, False) ids
     in if changed then snd (save wr s1) else s1)"

definition Drop :: "access_error option \<Rightarrow> bytes \<Rightarrow> store \<Rightarrow> access_error option \<times> store" where
  "Drop wr sid s = (case sessions s sid of
     None \<Rightarrow> (None, s)
   | Some _ \<Rightarrow> save wr (s\<lparr>sessions := (sessions s)(sid := None)\<rparr>))"


section \<open>The store as a machine\<close>

datatype store_op =
    OSeen bytes bytes bytes bytes
  | OSetOwner bytes bytes
  | OAdd bytes bytes
  | ORemove bytes bytes
  | OPrune "bytes \<Rightarrow> bool" nanos "bytes list"
  | ODrop bytes

type_synonym store_call = "access_error option \<times> nanos \<times> store_op"

fun store_step :: "(nat \<Rightarrow> nat) \<Rightarrow> store \<Rightarrow> store_call \<Rightarrow> store" where
  "store_step ul s (wr, now, OSeen sub email name username) = snd (Seen ul wr now sub email name username s)"
| "store_step ul s (wr, now, OSetOwner sid ow) = snd (SetOwner ul wr now sid ow s)"
| "store_step ul s (wr, now, OAdd sid h) = snd (snd (AddMember ul wr now sid h s))"
| "store_step ul s (wr, now, ORemove sid h) = snd (RemoveMember ul wr sid h s)"
| "store_step ul s (wr, now, OPrune live grace ids) = Prune wr live now grace ids s"
| "store_step ul s (wr, now, ODrop sid) = snd (Drop wr sid s)"

section \<open>What each operation leaves alone\<close>

lemma save_frame [frame]:
  "path (snd (save wr s)) = path s" "users (snd (save wr s)) = users s"
  "sessions (snd (save wr s)) = sessions s"
  by (simp_all add: save_def split: option.split)

lemma save_disk: "disk (snd (save wr s)) = disk s \<or> disk (snd (save wr s)) = Some (users s, sessions s)"
  by (simp add: save_def split: option.split)

lemma save_ok_disk: "path s \<noteq> [] \<Longrightarrow> disk (snd (save None s)) = Some (users s, sessions s)"
  by (simp add: save_def)

lemma Seen_sessions [frame]: "sessions (snd (Seen ul wr now sub email name username s)) = sessions s"
  by (simp add: Seen_def Let_def frame)

text \<open>A pruning pass deletes exactly the stale entries it visits, and nothing else.\<close>

lemma prune_fold:
  "foldl (\<lambda>(s, changed) sid. case sessions s sid of
          None \<Rightarrow> (s, changed)
        | Some a \<Rightarrow> if stale live now grace sid a then (s\<lparr>sessions := (sessions s)(sid := None)\<rparr>, True)
                     else (s, changed)) (s, b) ids
   = (s\<lparr>sessions := (\<lambda>sid. case sessions s sid of None \<Rightarrow> None
          | Some a \<Rightarrow> if sid \<in> set ids \<and> stale live now grace sid a then None else Some a)\<rparr>,
      b \<or> (\<exists>sid\<in>set ids. \<exists>a. sessions s sid = Some a \<and> stale live now grace sid a))"
proof (induction ids arbitrary: s b)
  case Nil
  have e: "(\<lambda>sid. case sessions s sid of None \<Rightarrow> None
          | Some a \<Rightarrow> if sid \<in> set [] \<and> stale live now grace sid a then None else Some a) = sessions s"
    by (auto split: option.split)
  show ?case unfolding e by simp
next
  case (Cons i ids)
  show ?case
  proof (cases "\<exists>a. sessions s i = Some a \<and> stale live now grace i a")
    case True
    then obtain a where a: "sessions s i = Some a" "stale live now grace i a" by blast
    have "(\<lambda>sid. case ((sessions s)(i := None)) sid of None \<Rightarrow> None
          | Some a \<Rightarrow> if sid \<in> set ids \<and> stale live now grace sid a then None else Some a)
      = (\<lambda>sid. case sessions s sid of None \<Rightarrow> None
          | Some a \<Rightarrow> if sid \<in> set (i # ids) \<and> stale live now grace sid a then None else Some a)"
      using a by (auto split: option.split)
    then show ?thesis using a by (simp add: Cons.IH)
  next
    case False
    have "(\<lambda>sid. case sessions s sid of None \<Rightarrow> None
          | Some a \<Rightarrow> if sid \<in> set ids \<and> stale live now grace sid a then None else Some a)
      = (\<lambda>sid. case sessions s sid of None \<Rightarrow> None
          | Some a \<Rightarrow> if sid \<in> set (i # ids) \<and> stale live now grace sid a then None else Some a)"
      by (rule ext) (use False in \<open>auto split: option.split\<close>)
    then show ?thesis using False by (auto simp: Cons.IH split: option.split)
  qed
qed

lemma Prune_sessions:
  "sessions (Prune wr live now grace ids s) sid = (case sessions s sid of None \<Rightarrow> None
     | Some a \<Rightarrow> if sid \<in> set ids \<and> stale live now grace sid a then None else Some a)"
  by (simp add: Prune_def prune_fold frame Let_def)

lemma Prune_users [frame]:
  "users (Prune wr live now grace ids s) = users s" "path (Prune wr live now grace ids s) = path s"
  by (simp_all add: Prune_def prune_fold frame Let_def)

lemma SetOwner_ACL: "ACL (snd (SetOwner ul wr now sid ow s)) i =
   (if i = sid \<and> sid \<noteq> [] then touch now ((ACL s sid)\<lparr>owner := Key ul ow\<rparr>) else ACL s i)"
  by (simp add: SetOwner_def ACL_def frame)

lemma touch_fields [simp]: "owner (touch now a) = owner a" "members (touch now a) = members a"
  by (simp_all add: touch_def)

lemma contains_iff [simp]: "contains xs v \<longleftrightarrow> v \<in> set xs"
  by (auto simp: contains_def list_ex_iff)

lemma AddMember_ACL: "owner (ACL (snd (snd (AddMember ul wr now sid h s))) i) = owner (ACL s i)"
  "set (members (ACL (snd (snd (AddMember ul wr now sid h s))) i)) =
     set (members (ACL s i)) \<union> (if i = sid \<and> sid \<noteq> [] \<and> Key ul h \<noteq> [] \<and> owner (ACL s i) \<noteq> Key ul h then {Key ul h} else {})"
  by (auto simp: AddMember_def ACL_def Let_def frame split: option.split prod.split)

lemma RemoveMember_ACL: "owner (ACL (snd (RemoveMember ul wr sid h s)) i) = owner (ACL s i)"
  "set (members (ACL (snd (RemoveMember ul wr sid h s)) i)) =
     set (members (ACL s i)) - (if i = sid then {Key ul h} else {})"
  by (auto simp: RemoveMember_def ACL_def Let_def frame no_acl_def split: option.split)

lemma Drop_sessions: "sessions (snd (Drop wr sid s)) = (sessions s)(sid := None)"
  by (auto simp: Drop_def frame split: option.split)

lemma Prune_ACL: "ACL (Prune wr live now grace ids s) i = ACL s i \<or>
   (ACL (Prune wr live now grace ids s) i = no_acl \<and> \<not> live i)"
  by (auto simp: ACL_def Prune_sessions stale_def split: option.split)

lemma Allows_one: "Allows a [p] \<longleftrightarrow> p \<noteq> [] \<and> (owner a = p \<or> p \<in> set (members a))"
  by (auto simp: Allows_def list_ex_iff)

lemma Allows_iff: "Allows a ps \<longleftrightarrow> (\<exists>p\<in>set ps. Allows a [p])"
  by (auto simp: Allows_def list_ex_iff)

lemma not_Allows_no_acl [simp]: "\<not> Allows no_acl ps"
  by (simp add: Allows_def no_acl_def list_ex_iff)

lemma add_principals_set: "set (add_principals out ps) = set out \<union> (set ps - {[]})"
  by (induction ps arbitrary: out) auto

lemma Principals_set: "set (Principals ul sub email username) = {Key ul email, TrimSpace sub, Key ul username} - {[]}"
  unfolding Principals_def add_principals_set by auto


section \<open>Who has access after a history of operations\<close>

text \<open>
  The interface the dashboard uses the lists through: \<open>grants s sid p\<close> says that the handle
  \<open>p\<close> alone opens session \<open>sid\<close>. One operation can only give access it names, and only take
  access it names; the lemmas lift that to any history, which is what sharing a session means.
\<close>

locale access_history =
  fixes step :: "'s \<Rightarrow> 'e \<Rightarrow> 's"
    and grants :: "'s \<Rightarrow> 'i \<Rightarrow> 'p \<Rightarrow> bool"
    and gives :: "'e \<Rightarrow> 'i \<Rightarrow> 'p \<Rightarrow> bool"
    and takes :: "'e \<Rightarrow> 'i \<Rightarrow> 'p \<Rightarrow> bool"
  assumes step_keeps: "grants s i p \<Longrightarrow> \<not> takes e i p \<Longrightarrow> grants (step s e) i p"
    and step_gains: "grants (step s e) i p \<Longrightarrow> grants s i p \<or> gives e i p"
begin

lemma history_keeps:
  "grants s i p \<Longrightarrow> list_all (\<lambda>e. \<not> takes e i p) es \<Longrightarrow> grants (run step s es) i p"
  by (induction es arbitrary: s) (auto intro: step_keeps)

lemma history_gains:
  "grants (run step s es) i p \<Longrightarrow> grants s i p \<or> list_ex (\<lambda>e. gives e i p) es"
  by (induction es arbitrary: s) (auto dest: step_gains)

end

definition grants :: "store \<Rightarrow> bytes \<Rightarrow> bytes \<Rightarrow> bool" where
  "grants s sid p = Allows (ACL s sid) [p]"

fun gives :: "(nat \<Rightarrow> nat) \<Rightarrow> store_call \<Rightarrow> bytes \<Rightarrow> bytes \<Rightarrow> bool" where
  "gives ul (wr, now, OAdd sid h) i p = (i = sid \<and> p = Key ul h)"
| "gives ul (wr, now, OSetOwner sid ow) i p = (i = sid \<and> p = Key ul ow)"
| "gives ul _ i p = False"

fun takes :: "(nat \<Rightarrow> nat) \<Rightarrow> store_call \<Rightarrow> bytes \<Rightarrow> bytes \<Rightarrow> bool" where
  "takes ul (wr, now, ORemove sid h) i p = (i = sid \<and> p = Key ul h)"
| "takes ul (wr, now, OSetOwner sid ow) i p = (i = sid \<and> p \<noteq> Key ul ow)"
| "takes ul (wr, now, OPrune live grace ids) i p = (\<not> live i)"
| "takes ul (wr, now, ODrop sid) i p = (i = sid)"
| "takes ul _ i p = False"

lemma grants_step:
  "(grants s i p \<longrightarrow> \<not> takes ul c i p \<longrightarrow> grants (store_step ul s c) i p) \<and>
   (grants (store_step ul s c) i p \<longrightarrow> grants s i p \<or> gives ul c i p)"
proof (cases c)
  case (fields wr now op)
  show ?thesis
  proof (cases op)
    case (OSeen sub email name username)
    then show ?thesis using fields by (simp add: grants_def ACL_def frame)
  next
    case (OSetOwner sid ow)
    then show ?thesis using fields by (auto simp: grants_def SetOwner_ACL Allows_one)
  next
    case (OAdd sid h)
    then show ?thesis using fields by (auto simp: grants_def AddMember_ACL Allows_one split: if_splits)
  next
    case (ORemove sid h)
    then show ?thesis using fields by (auto simp: grants_def RemoveMember_ACL Allows_one split: if_splits)
  next
    case (OPrune live grace ids)
    then show ?thesis
      using fields Prune_ACL [of wr live now grace ids s i] by (auto simp: grants_def)
  next
    case (ODrop sid)
    then show ?thesis using fields by (auto simp: grants_def ACL_def Drop_sessions)
  qed
qed

interpretation sharing: access_history "store_step ul" grants "gives ul" "takes ul"
  by unfold_locales (use grants_step in blast)+

lemma AddMember_grants:
  "sid \<noteq> [] \<Longrightarrow> Key ul h \<noteq> [] \<Longrightarrow> grants (store_step ul s (wr, now, OAdd sid h)) sid (Key ul h)"
  by (cases "owner (ACL s sid) = Key ul h") (auto simp: grants_def Allows_one AddMember_ACL)

lemma RemoveMember_revokes:
  "owner (ACL s sid) \<noteq> Key ul h \<Longrightarrow> \<not> grants (store_step ul s (wr, now, ORemove sid h)) sid (Key ul h)"
  by (simp add: grants_def Allows_one RemoveMember_ACL)

section \<open>The invariant of the store\<close>

text \<open>Every directory entry is filed under its own, nonempty key, and every member of a list is a
  directory entry, listed once. The same holds of what the file has.\<close>

fun access_ok :: "access_state \<Rightarrow> bool" where
  "access_ok (us, ss) = ((\<forall>k u. us k = Some u \<longrightarrow> uKey u = k \<and> k \<noteq> []) \<and>
     (\<forall>i a. ss i = Some a \<longrightarrow> distinct (members a) \<and> set (members a) \<subseteq> dom us))"

definition store_inv :: "store \<Rightarrow> bool" where
  "store_inv s = (access_ok (users s, sessions s) \<and> (\<forall>d. disk s = Some d \<longrightarrow> access_ok d))"

declare access_ok.simps [simp del]

lemma save_inv [machine_inv]: "store_inv s \<Longrightarrow> store_inv (snd (save wr s))"
  using save_disk [of wr s] by (auto simp: store_inv_def frame)

lemma first_known_mem: "first_known us ps = Some u \<Longrightarrow> \<exists>p. us p = Some u"
  by (induction ps) (auto split: option.splits)

lemma access_ok_user: "access_ok (us, ss) \<Longrightarrow> uKey u \<noteq> [] \<Longrightarrow> access_ok (us(uKey u \<mapsto> u), ss)"
  unfolding access_ok.simps by (auto split: if_splits) blast

lemma access_ok_session: "access_ok (us, ss) \<Longrightarrow> distinct (members a) \<Longrightarrow> set (members a) \<subseteq> dom us
   \<Longrightarrow> access_ok (us, ss(i \<mapsto> a))"
  unfolding access_ok.simps by simp

lemma access_ok_fewer: "access_ok (us, ss) \<Longrightarrow> ss' \<subseteq>\<^sub>m ss \<Longrightarrow> access_ok (us, ss')"
  unfolding access_ok.simps by (metis domI map_le_def)

lemma access_ok_ACL: "access_ok (users s, sessions s) \<Longrightarrow>
   distinct (members (ACL s i)) \<and> set (members (ACL s i)) \<subseteq> dom (users s)"
  unfolding access_ok.simps by (auto simp: ACL_def no_acl_def split: option.split)

lemma Seen_inv [machine_inv]:
  assumes "store_inv s"
  shows "store_inv (snd (Seen ul wr now sub email name username s))"
proof -
  have "access_ok ((users s)(uKey u \<mapsto> u), sessions s)" if "uKey u \<noteq> []" for u
    using assms that by (simp add: store_inv_def access_ok_user)
  then have "store_inv (s\<lparr>users := (users s)(uKey u \<mapsto> u)\<rparr>)" if "uKey u \<noteq> []" for u
    using assms that by (simp add: store_inv_def)
  then show ?thesis
    using assms by (simp add: Seen_def Let_def save_inv del: fun_upd_apply)
qed

lemma session_inv: "store_inv s \<Longrightarrow> distinct (members a) \<Longrightarrow> set (members a) \<subseteq> dom (users s)
   \<Longrightarrow> store_inv (s\<lparr>sessions := (sessions s)(i \<mapsto> a)\<rparr>)"
  by (simp add: store_inv_def access_ok_session)

lemma SetOwner_inv [machine_inv]: "store_inv s \<Longrightarrow> store_inv (snd (SetOwner ul wr now sid ow s))"
  using access_ok_ACL [of s sid]
  by (auto simp: SetOwner_def store_inv_def [of s] intro!: save_inv session_inv)

lemma AddMember_inv [machine_inv]:
  assumes "store_inv s"
  shows "store_inv (snd (snd (AddMember ul wr now sid h s)))"
proof -
  let ?k = "Key ul h"
  have new: "store_inv (s\<lparr>users := (users s)(?k \<mapsto> invited ?k)\<rparr>)" if "?k \<noteq> []"
  proof -
    have "uKey (invited ?k) = ?k" by (simp add: invited_def)
    then show ?thesis
      using assms that access_ok_user [of "users s" "sessions s" "invited ?k"] by (simp add: store_inv_def)
  qed
  have grow: "store_inv (s1\<lparr>sessions := (sessions s1)(sid \<mapsto> (if \<not> contains (members a) ?k \<and> owner a \<noteq> ?k
        then a\<lparr>members := members a @ [?k]\<rparr> else a))\<rparr>)"
    if "store_inv s1" "a = touch now (ACL s1 sid)" "?k \<in> dom (users s1)" for s1 a
    using that access_ok_ACL [of s1 sid] by (intro session_inv) (auto simp: store_inv_def)
  show ?thesis
  proof (cases "sid = [] \<or> ?k = []")
    case True
    then show ?thesis using assms by (auto simp: AddMember_def)
  next
    case False
    then show ?thesis
    proof (cases "users s ?k")
      case None
      then show ?thesis
        using False grow [OF new refl] by (simp add: AddMember_def Let_def save_inv del: fun_upd_apply)
    next
      case (Some u)
      then show ?thesis
        using False grow [OF assms refl] by (simp add: AddMember_def Let_def domI save_inv del: fun_upd_apply)
    qed
  qed
qed

lemma RemoveMember_inv [machine_inv]: "store_inv s \<Longrightarrow> store_inv (snd (RemoveMember ul wr sid h s))"
proof -
  assume s: "store_inv s"
  have "store_inv (s\<lparr>sessions := (sessions s)(sid \<mapsto> a\<lparr>members := filter (\<lambda>m. m \<noteq> k) (members a)\<rparr>)\<rparr>)"
    if "sessions s sid = Some a" for a k
    using that s access_ok_ACL [of s sid]
    by (intro session_inv) (auto simp: ACL_def store_inv_def)
  then show ?thesis using s by (simp add: RemoveMember_def Let_def save_inv split: option.split)
qed

lemma fewer_inv: "store_inv s \<Longrightarrow> m \<subseteq>\<^sub>m sessions s \<Longrightarrow> store_inv (s\<lparr>sessions := m\<rparr>)"
  using access_ok_fewer [of "users s" "sessions s" m] by (simp add: store_inv_def)

lemma Prune_inv [machine_inv]: "store_inv s \<Longrightarrow> store_inv (Prune wr live now grace ids s)"
  by (auto simp: Prune_def prune_fold map_le_def split: option.splits intro!: save_inv fewer_inv)

lemma Drop_inv [machine_inv]: "store_inv s \<Longrightarrow> store_inv (snd (Drop wr sid s))"
  by (auto simp: Drop_def map_le_def split: option.split intro!: save_inv fewer_inv)

lemma store_step_inv: "store_inv s \<Longrightarrow> store_inv (store_step ul s c)"
proof (cases c)
  case (fields wr now op)
  assume "store_inv s"
  then show ?thesis using fields by (cases op) (simp_all add: machine_inv)
qed

interpretation directory: machine "store_step ul" "\<lambda>_. True" store_inv
  by unfold_locales (rule store_step_inv)


section \<open>The file\<close>

text \<open>As long as every write succeeds the file holds the maps.\<close>

definition in_sync :: "store \<Rightarrow> bool" where
  "in_sync s = (path s \<noteq> [] \<and> disk s = Some (users s, sessions s))"

lemma save_in_sync: "path s \<noteq> [] \<Longrightarrow> in_sync (snd (save None s))"
  by (simp add: in_sync_def save_ok_disk frame)

lemma in_sync_step:
  assumes "in_sync s" and "fst c = None"
  shows "in_sync (store_step ul s c)"
proof (cases c)
  case (fields wr now op)
  have p: "path s \<noteq> []" and wr: "wr = None" using assms fields by (simp_all add: in_sync_def)
  show ?thesis
  proof (cases op)
    case (OPrune live grace ids)
    have k: "sessions s = (\<lambda>sid. case sessions s sid of None \<Rightarrow> None
          | Some a \<Rightarrow> if sid \<in> set ids \<and> stale live now grace sid a then None else Some a)"
      if "\<not> (\<exists>sid\<in>set ids. \<exists>a. sessions s sid = Some a \<and> stale live now grace sid a)"
      by (rule ext) (use that in \<open>auto split: option.split\<close>)
    show ?thesis
      using OPrune fields wr p assms(1) k
      by (auto simp: Prune_def prune_fold save_in_sync in_sync_def save_ok_disk frame)
  qed (use fields wr p assms(1) in \<open>auto simp: Seen_def SetOwner_def AddMember_def RemoveMember_def Drop_def
      Let_def save_in_sync split: option.split prod.split\<close>)
qed

interpretation durable: machine "store_step ul" "\<lambda>c. fst c = None" in_sync
  by unfold_locales (rule in_sync_step)

lemma distinct_map_sort_key: "distinct (map f xs) \<Longrightarrow> distinct (map f (sort_key f xs))"
  by (simp add: distinct_map)

section \<open>Properties\<close>


definition ascii_ul :: "nat \<Rightarrow> nat" where "ascii_ul r = r"

lemma key_samples:
  "Key ul '' Bob@X.io '' = ''bob@x.io''" "Key ul ''bob@x.io'' = ''bob@x.io''" "Key ul ''amy'' = ''amy''"
  "TrimSpace ''u1'' = ''u1''"
  unfolding Key_def by (simp_all add: ascii_def TrimSpace_ascii ToLower_ascii lower_char_def space_rune_def char_of_eq_iff)

definition fresh_store :: store where
  "fresh_store = \<lparr>path = ''/a'', users = (\<lambda>_. None), sessions = (\<lambda>_. None), disk = None\<rparr>"

lemma fresh_ACL [simp]: "owner (ACL fresh_store i) = []" "members (ACL fresh_store i) = []"
  by (simp_all add: fresh_store_def ACL_def no_acl_def)


text \<open>C22: Revocation works, and stays. After a member was removed from a session that someone else
  owns, an identity all of whose handles had access only through that membership is kept out by
  every later history of operations, until one of its handles is added again or made the owner.\<close>

theorem revocation_stays:
  assumes "\<And>p. p \<in> set ps \<Longrightarrow> p = Key ul h \<or> \<not> grants s sid p"
    and "owner (ACL s sid) \<noteq> Key ul h"
    and "list_all (\<lambda>c. \<forall>p\<in>set ps. \<not> gives ul c sid p) cs"
  shows "\<not> Allows (ACL (run (store_step ul) s ((wr, now, ORemove sid h) # cs)) sid) ps"
proof
  let ?t = "store_step ul s (wr, now, ORemove sid h)"
  assume "Allows (ACL (run (store_step ul) s ((wr, now, ORemove sid h) # cs)) sid) ps"
  then obtain p where p: "p \<in> set ps" "grants (run (store_step ul) ?t cs) sid p"
    using Allows_iff [of _ ps] by (auto simp: grants_def)
  have "\<not> list_ex (\<lambda>c. gives ul c sid p) cs"
    using assms(3) p(1) by (auto simp: list_all_iff list_ex_iff)
  then have "grants ?t sid p" using sharing.history_gains [OF p(2)] by blast
  moreover have "\<not> gives ul (wr, now, ORemove sid h) sid p" by simp
  ultimately show False
    using assms(1) [OF p(1)] RemoveMember_revokes [OF assms(2), of wr now] sharing.step_gains by metis
qed

theorem revocation_stays_witness:
  "\<not> Allows (ACL (run (store_step ascii_ul)
      (run (store_step ascii_ul) fresh_store [(None, 5, OAdd ''s1'' ''bob@x.io''), (None, 6, OAdd ''s1'' ''amy'')])
      [(None, 7, ORemove ''s1'' ''amy''), (None, 8, OAdd ''s1'' ''bob@x.io''), (None, 9, OAdd ''s2'' ''amy'')]) ''s1'')
    [''u1'', ''amy'']"
proof -
  let ?s = "run (store_step ascii_ul) fresh_store [(None, 5, OAdd ''s1'' ''bob@x.io''), (None, 6, OAdd ''s1'' ''amy'')]"
  have g: "grants ?s ''s1'' p \<longleftrightarrow> p = ''bob@x.io'' \<or> p = ''amy''" for p
    by (auto simp: grants_def Allows_one AddMember_ACL key_samples)
  have o: "owner (ACL ?s ''s1'') = []"
    by (simp add: AddMember_ACL)
  show ?thesis
    by (rule revocation_stays) (auto simp: g o key_samples simp del: run_Cons run_Nil)
qed

text \<open>The directory and the lists stay consistent. From an empty store, or one read back from a
  consistent file, every history of operations, failing writes included, leaves each directory
  entry filed under its own nonempty key, each member listed once, and each member present in
  the directory; so \<open>Members\<close> always resolves every member to its own entry.\<close>

theorem directory_consistent:
  assumes "Open p f wr = Inr s0"
    and "\<And>us ss. f = Decoded (Some us) ss \<Longrightarrow> access_ok (us, case ss of None \<Rightarrow> (\<lambda>_. None) | Some m \<Rightarrow> m)"
    and "\<And>ss. f = Decoded None ss \<Longrightarrow> ss = None"
    and "s = run (store_step ul) s0 cs"
  shows "distinct (members (ACL s sid)) \<and> map uKey (Members_of s sid) = members (ACL s sid) \<and>
    set (Members_of s sid) \<subseteq> ran (users s) \<and> (\<forall>k u. users s k = Some u \<longrightarrow> uKey u = k \<and> k \<noteq> [])"
proof -
  have e: "access_ok (\<lambda>_. None, \<lambda>_. None)" by (simp add: access_ok.simps)
  have "store_inv s0"
  proof (cases "p = []")
    case True
    then show ?thesis using assms(1) by (auto simp: Open_def Let_def store_inv_def access_ok.simps)
  next
    case False
    then show ?thesis
    proof (cases f)
      case NotExist
      then show ?thesis using False assms(1)
        by (auto simp: Open_def Let_def save_def store_inv_def access_ok.simps split: option.splits)
    next
      case (Decoded us ss)
      let ?m = "case ss of None \<Rightarrow> (\<lambda>_. None) | Some m \<Rightarrow> m"
      have "access_ok (case us of None \<Rightarrow> (\<lambda>_. None) | Some m \<Rightarrow> m, ?m)"
        using assms(2,3) Decoded e by (cases us) auto
      then show ?thesis using False assms(1) Decoded
        by (auto simp: Open_def Let_def store_inv_def)
    qed (use False assms(1) in \<open>simp_all add: Open_def Let_def\<close>)
  qed
  then have i: "store_inv s"
    using directory.run_inv [of s0 cs ul] assms(4) by (simp add: list_all_iff)
  then have a: "access_ok (users s, sessions s)" by (simp add: store_inv_def)
  note m = access_ok_ACL [OF a, of sid]
  have k: "uKey u = k" if "users s k = Some u" for k u
    using a that unfolding access_ok.simps by blast
  have "map uKey (Members_of s sid) = members (ACL s sid)"
    by (auto simp: Members_of_def intro!: map_idI dest: k split: option.split)
  moreover have "set (Members_of s sid) \<subseteq> ran (users s)"
    using m by (auto simp: Members_of_def ran_def split: option.split)
  ultimately show ?thesis using a m unfolding access_ok.simps by blast
qed

theorem directory_consistent_witness:
  "distinct (members (ACL (run (store_step ascii_ul) (fresh_store\<lparr>disk := Some (\<lambda>_. None, \<lambda>_. None)\<rparr>)
      [(None, 5, OAdd ''s1'' ''amy''), (Some WriteFailed, 6, OAdd ''s1'' ''amy'')]) ''s1''))"
proof -
  have o: "Open ''/a'' NotExist None = Inr (fresh_store\<lparr>disk := Some (\<lambda>_. None, \<lambda>_. None)\<rparr>)"
    by (simp add: Open_def save_def fresh_store_def)
  show ?thesis by (rule conjunct1 [OF directory_consistent [OF o _ _ refl]]) simp_all
qed

text \<open>A restart loses nothing. If every write so far succeeded, opening the file again gives
  the very store the process had, after any history of operations.\<close>

theorem store_survives_restart:
  assumes "Open p f None = Inr s0" and "p \<noteq> []"
    and "list_all (\<lambda>c. fst c = None) cs"
    and "s = run (store_step ul) s0 cs"
  shows "\<exists>us ss. disk s = Some (us, ss) \<and> Open p (Decoded (Some us) (Some ss)) wr = Inr s"
proof -
  have 0: "in_sync s0 \<and> path s0 = p"
    using assms(1,2)
    by (auto simp: Open_def Let_def save_def in_sync_def split: file_read.splits option.splits)
  then have "in_sync s" using durable.run_inv [of s0 cs ul] assms(3,4) by simp
  moreover have "path s = p"
  proof -
    have "path (store_step ul t c) = path t" for t c
    proof (cases c)
      case (fields wr now op)
      then show ?thesis
        by (cases op) (auto simp: Seen_def SetOwner_def AddMember_def RemoveMember_def Drop_def Let_def frame
            split: option.split prod.split)
    qed
    then have "path (run (store_step ul) t cs) = path t" for t
      by (induction cs arbitrary: t) simp_all
    then show ?thesis using 0 assms(4) by simp
  qed
  ultimately show ?thesis using assms(2) by (auto simp: in_sync_def Open_def Let_def)
qed

theorem store_survives_restart_witness:
  "\<exists>us ss. disk (run (store_step ascii_ul) (fresh_store\<lparr>disk := Some (\<lambda>_. None, \<lambda>_. None)\<rparr>)
      [(None, 5, OAdd ''s1'' ''amy'')]) = Some (us, ss)"
proof -
  have o: "Open ''/a'' NotExist None = Inr (fresh_store\<lparr>disk := Some (\<lambda>_. None, \<lambda>_. None)\<rparr>)"
    by (simp add: Open_def save_def fresh_store_def)
  show ?thesis using store_survives_restart [OF o _ _ refl, of "[(None, 5, OAdd ''s1'' ''amy'')]" ascii_ul]
    by simp blast
qed


text \<open>The member picker is stable. Whatever order Go ranges over the directory in, and although
  \<open>sort.Slice\<close> is not stable, \<open>Users\<close> has one possible result: the list is strictly increasing
  in (lowered label, key), and it is the only arrangement of the directory that is.\<close>

theorem directory_listing_unique:
  assumes "access_ok (users s, ss)" and "distinct ks" and "set ks = dom (users s)"
  shows "set (Users ul ks s) = ran (users s) \<and> sorted_wrt (<) (map (rank ul) (Users ul ks s)) \<and>
    (\<forall>us. set us = ran (users s) \<longrightarrow> sorted_wrt (<) (map (rank ul) us) \<longrightarrow> us = Users ul ks s)"
proof -
  let ?us = "map (\<lambda>k. the (users s k)) ks"
  have key: "uKey (the (users s k)) = k" if "k \<in> set ks" for k
    using assms(1,3) that unfolding access_ok.simps by force
  have d: "distinct (map uKey ?us)"
    using assms(2) key by (simp add: comp_def cong: map_cong)
  then have "distinct (map (rank ul) ?us)" by (auto simp: distinct_map inj_on_def rank_def)
  then have dr: "distinct (map (rank ul) (Users ul ks s))"
    unfolding Users_def by (rule distinct_map_sort_key)
  have st: "set (Users ul ks s) = ran (users s)"
    using assms(3) by (force simp: Users_def ran_def dom_def image_def)
  have so: "sorted_wrt (<) (map (rank ul) (Users ul ks s))"
    using dr sorted_sort_key [of "rank ul" ?us] by (simp add: Users_def strict_sorted_iff)
  have un: "us = Users ul ks s"
    if u: "set us = ran (users s)" "sorted_wrt (<) (map (rank ul) us)" for us
  proof -
    have "map (rank ul) us = map (rank ul) (Users ul ks s)"
      using u so st by (intro strict_sorted_equal) (simp_all flip: image_set)
    moreover have "inj_on (rank ul) (set us \<union> set (Users ul ks s))"
      using dr u(1) st by (simp add: distinct_map)
    ultimately show ?thesis by (rule map_inj_on)
  qed
  from st so un show ?thesis by blast
qed

definition two_users :: store where
  "two_users = fresh_store\<lparr>users := [''amy'' \<mapsto> invited ''amy'', ''bob@x.io'' \<mapsto> (invited ''bob@x.io'')\<lparr>uName := ''Al''\<rparr>]\<rparr>"

theorem directory_listing_unique_witness:
  "map uKey (Users ascii_ul [''amy'', ''bob@x.io''] two_users) = [''bob@x.io'', ''amy'']"
proof -
  let ?u = "invited ''amy''" and ?v = "(invited ''bob@x.io'')\<lparr>uName := ''Al''\<rparr>"
  have i: "access_ok (users two_users, \<lambda>_. None)"
    by (auto simp: access_ok.simps two_users_def invited_def)
  have k: "distinct [''amy'', ''bob@x.io'']" "set [''amy'', ''bob@x.io''] = dom (users two_users)"
    by (auto simp: two_users_def)
  have r: "rank ascii_ul ?u = (''amy'', ''amy'')" "rank ascii_ul ?v = (''al'', ''bob@x.io'')"
    by (simp_all add: rank_def Label_def invited_def zero_user_def Contains_def ascii_def ToLower_ascii lower_char_def
        char_of_eq_iff)
  have "ran (users two_users) = insert ?v (insert ?u {})"
    unfolding two_users_def by (simp add: ran_map_upd)
  then have "set [?v, ?u] = ran (users two_users)" by simp
  moreover have "sorted_wrt (<) (map (rank ascii_ul) [?v, ?u])" by (simp add: r)
  ultimately have "[?v, ?u] = Users ascii_ul [''amy'', ''bob@x.io''] two_users"
    using directory_listing_unique [OF i k, of ascii_ul] by blast
  then show ?thesis by (simp add: invited_def flip: \<open>[?v, ?u] = _\<close>)
qed

text \<open>An invitation by subject is lost when the subject has capitals. \<open>Key\<close> lowers every
  handle, also an opaque subject, while a login keeps the case of its subject: someone who is
  invited by their subject and logs in with just that subject is not let in, although the comment
  on \<open>Key\<close> says a subject is left alone.\<close>

theorem capital_subject_locked_out:
  assumes "ascii sub" and "TrimSpace sub = sub" and "map lower_char sub \<noteq> sub"
    and "\<not> grants s sid sub"
  shows "\<not> Allows (ACL (store_step ul s (wr, now, OAdd sid sub)) sid) (Principals ul sub [] [])"
proof -
  have k: "Key ul sub \<noteq> sub" "Key ul [] = []"
    using assms(1-3) by (simp_all add: Key_def ToLower_ascii)
  have "\<not> grants (store_step ul s (wr, now, OAdd sid sub)) sid sub"
    using sharing.step_gains [of ul s "(wr, now, OAdd sid sub)" sid sub] assms(4) k(1) by fastforce
  then show ?thesis
    using assms(2) k(2) unfolding Allows_iff [of _ "Principals _ _ _ _"] grants_def Principals_set by auto
qed

theorem capital_subject_locked_out_witness:
  "\<not> Allows (ACL (store_step ascii_ul fresh_store (None, 5, OAdd ''s1'' ''uA'')) ''s1'')
     (Principals ascii_ul ''uA'' [] [])"
  by (rule capital_subject_locked_out)
    (simp_all add: ascii_def TrimSpace_ascii space_rune_def lower_char_def char_of_eq_iff grants_def Allows_one)

end
