(* ===== verification/Auth.thy ===== *)
theory Auth
  imports Access Base64
begin

text \<open>
  Who is asking (\<open>dashboard/apikey.go\<close>, \<open>ratelimit.go\<close>, \<open>oidc.go\<close>): the API keys and their
  loaders, the throttle on failed attempts, the signed cookies and the login they carry, and the
  clamp on redirect targets. SHA-256 and the HMAC under the server's secret are parameters
  (\<open>sha\<close>, \<open>mac\<close>), and so is what the identity provider answers.
\<close>

section \<open>API keys\<close>

record api_keys =
  digests :: "bytes list"
  key_users :: "bytes list"

definition no_keys :: api_keys where "no_keys = \<lparr>digests = [], key_users = []\<rparr>"

definition key_sep :: "char \<Rightarrow> bool" where
  "key_sep c = (c \<in> {CHR '','', newline, CHR '' '', CHR 0x09, carriage})"

definition addFor :: "(nat \<Rightarrow> nat) \<Rightarrow> (bytes \<Rightarrow> bytes) \<Rightarrow> bytes \<Rightarrow> bytes \<Rightarrow> api_keys \<Rightarrow> api_keys" where
  "addFor ul sha user tok k = (let tok = TrimSpace tok in
     if tok = [] then k
     else k\<lparr>digests := digests k @ [sha tok], key_users := key_users k @ [ToLower ul (TrimSpace user)]\<rparr>)"

definition add_key :: "(nat \<Rightarrow> nat) \<Rightarrow> (bytes \<Rightarrow> bytes) \<Rightarrow> bytes \<Rightarrow> api_keys \<Rightarrow> api_keys" where
  "add_key ul sha tok k = addFor ul sha []
     (case IndexAny tok '':='' of Some i \<Rightarrow> drop (Suc i) tok | None \<Rightarrow> tok) k"

definition addAll :: "(nat \<Rightarrow> nat) \<Rightarrow> (bytes \<Rightarrow> bytes) \<Rightarrow> bytes \<Rightarrow> api_keys \<Rightarrow> api_keys" where
  "addAll ul sha s k = foldl (\<lambda>k tok. add_key ul sha tok k) k (FieldsFunc key_sep s)"

text \<open>The files come as their path and what reading them gives. A scanner stops at a line of 64 KiB.\<close>

datatype key_error = NotUserToken | KeyFileUnreadable

definition key_lines :: "bytes \<Rightarrow> bytes list" where
  "key_lines data = filter (\<lambda>l. \<not> (l = [] \<or> HasPrefix l ''#'')) (map TrimSpace (ScanLines 65536 data))"

fun load_files :: "(nat \<Rightarrow> nat) \<Rightarrow> (bytes \<Rightarrow> bytes) \<Rightarrow> (bytes \<times> bytes option) list \<Rightarrow> api_keys \<Rightarrow> key_error option \<times> api_keys" where
  "load_files ul sha [] k = (None, k)"
| "load_files ul sha ((p, content) # fs) k = (if p = [] then load_files ul sha fs k
     else case content of None \<Rightarrow> (Some KeyFileUnreadable, k)
        | Some data \<Rightarrow> load_files ul sha fs (foldl (\<lambda>k l. add_key ul sha l k) k (key_lines data)))"

definition LoadAPIKeys :: "(nat \<Rightarrow> nat) \<Rightarrow> (bytes \<Rightarrow> bytes) \<Rightarrow> bytes \<Rightarrow> (bytes \<times> bytes option) list \<Rightarrow> key_error option \<times> api_keys" where
  "LoadAPIKeys ul sha inline fs = load_files ul sha fs (addAll ul sha inline no_keys)"

definition addPair :: "(nat \<Rightarrow> nat) \<Rightarrow> (bytes \<Rightarrow> bytes) \<Rightarrow> bytes \<Rightarrow> api_keys \<Rightarrow> key_error option \<times> api_keys" where
  "addPair ul sha pair k = (case Cut pair CHR '':'' of (user, tok, ok) \<Rightarrow>
     if \<not> ok \<or> TrimSpace user = [] \<or> TrimSpace tok = [] then (Some NotUserToken, k)
     else (None, addFor ul sha user tok k))"

fun add_pairs :: "(nat \<Rightarrow> nat) \<Rightarrow> (bytes \<Rightarrow> bytes) \<Rightarrow> bytes list \<Rightarrow> api_keys \<Rightarrow> key_error option \<times> api_keys" where
  "add_pairs ul sha [] k = (None, k)"
| "add_pairs ul sha (p # ps) k = (case addPair ul sha p k of
     (Some e, k1) \<Rightarrow> (Some e, k1) | (None, k1) \<Rightarrow> add_pairs ul sha ps k1)"

fun user_files :: "(nat \<Rightarrow> nat) \<Rightarrow> (bytes \<Rightarrow> bytes) \<Rightarrow> (bytes \<times> bytes option) list \<Rightarrow> api_keys \<Rightarrow> key_error option \<times> api_keys" where
  "user_files ul sha [] k = (None, k)"
| "user_files ul sha ((p, content) # fs) k = (if p = [] then user_files ul sha fs k
     else case content of None \<Rightarrow> (Some KeyFileUnreadable, k)
        | Some data \<Rightarrow> (case add_pairs ul sha (key_lines data) k of
             (Some e, k1) \<Rightarrow> (Some e, k1) | (None, k1) \<Rightarrow> user_files ul sha fs k1))"

definition AddUserKeys :: "(nat \<Rightarrow> nat) \<Rightarrow> (bytes \<Rightarrow> bytes) \<Rightarrow> bytes \<Rightarrow> (bytes \<times> bytes option) list \<Rightarrow> api_keys \<Rightarrow> key_error option \<times> api_keys" where
  "AddUserKeys ul sha inline fs k = (case add_pairs ul sha (FieldsFunc key_sep inline) k of
     (Some e, k1) \<Rightarrow> (Some e, k1) | (None, k1) \<Rightarrow> user_files ul sha fs k1)"

text \<open>The scan goes over all digests; the last one that matches decides the user.\<close>

fun scan_keys :: "bytes \<Rightarrow> bytes list \<Rightarrow> bytes list \<Rightarrow> bytes \<times> bool \<Rightarrow> bytes \<times> bool" where
  "scan_keys h (d # ds) (u # us) (user, ok) =
     scan_keys h ds us (if h = d then (u, True) else (user, ok))"
| "scan_keys h _ _ r = r"

definition Lookup :: "(bytes \<Rightarrow> bytes) \<Rightarrow> bytes \<Rightarrow> api_keys \<Rightarrow> bytes \<times> bool" where
  "Lookup sha token k = (if token = [] \<or> digests k = [] then ([], False)
     else scan_keys (sha token) (digests k) (key_users k) ([], False))"

definition Valid :: "(bytes \<Rightarrow> bytes) \<Rightarrow> bytes \<Rightarrow> api_keys \<Rightarrow> bool" where
  "Valid sha token k = snd (Lookup sha token k)"

definition bearerToken :: "bytes \<Rightarrow> bytes \<Rightarrow> bytes" where
  "bearerToken authorization xkey =
     (if authorization \<noteq> [] \<and> HasPrefix authorization ''Bearer '' then TrimSpace (drop 7 authorization)
      else TrimSpace xkey)"

section \<open>The throttle\<close>

record failLimiter =
  max_fails :: nat
  window :: nanos
  hits :: "bytes \<rightharpoonup> nat \<times> nanos"      \<comment> \<open>count and reset\<close>

definition newFailLimiter :: "nat \<Rightarrow> nanos \<Rightarrow> failLimiter" where
  "newFailLimiter n w = \<lparr>max_fails = n, window = w, hits = (\<lambda>_. None)\<rparr>"

definition expire :: "nanos \<Rightarrow> failLimiter \<Rightarrow> failLimiter" where
  "expire now l = l\<lparr>hits := (\<lambda>ip. case hits l ip of None \<Rightarrow> None
     | Some e \<Rightarrow> if snd e < now then None else Some e)\<rparr>"

definition blocked :: "nanos \<Rightarrow> bytes \<Rightarrow> failLimiter \<Rightarrow> bool \<times> failLimiter" where
  "blocked now ip l = (let l = expire now l in
     (case hits l ip of None \<Rightarrow> False | Some (n, reset) \<Rightarrow> max_fails l \<le> n \<and> now < reset, l))"

definition fail :: "nanos \<Rightarrow> bytes \<Rightarrow> failLimiter \<Rightarrow> failLimiter" where
  "fail now ip l = (case hits l ip of
     None \<Rightarrow> l\<lparr>hits := (hits l)(ip \<mapsto> (1, now + window l))\<rparr>
   | Some (n, reset) \<Rightarrow>
       if reset < now then l\<lparr>hits := (hits l)(ip \<mapsto> (1, now + window l))\<rparr>
       else l\<lparr>hits := (hits l)(ip \<mapsto> (Suc n, reset))\<rparr>)"

section \<open>Signed cookies\<close>

definition sign :: "(bytes \<Rightarrow> bytes) \<Rightarrow> bytes \<Rightarrow> bytes" where
  "sign mac payload = rawurl_encode payload @ ''.'' @ rawurl_encode (mac payload)"

definition unsign :: "(bytes \<Rightarrow> bytes) \<Rightarrow> bytes \<Rightarrow> bytes option" where
  "unsign mac value = (case IndexByte value CHR ''.'' of
     None \<Rightarrow> None
   | Some dot \<Rightarrow> (case rawurl_decode (take dot value) of
       None \<Rightarrow> None
     | Some payload \<Rightarrow> (case rawurl_decode (drop (Suc dot) value) of
         None \<Rightarrow> None
       | Some want \<Rightarrow> if want = mac payload then Some payload else None)))"

definition getSigned :: "(bytes \<Rightarrow> bytes) \<Rightarrow> (bytes \<Rightarrow> 'v option) \<Rightarrow> bytes option \<Rightarrow> 'v option" where
  "getSigned mac unmarshal cookie = (case cookie of None \<Rightarrow> None
     | Some value \<Rightarrow> (case unsign mac value of None \<Rightarrow> None | Some payload \<Rightarrow> unmarshal payload))"

section \<open>Identities\<close>

record identity =
  idSub :: bytes
  idEmail :: bytes
  idName :: bytes
  idUsername :: bytes
  idExp :: int        \<comment> \<open>seconds\<close>

definition zero_identity :: identity where
  "zero_identity = \<lparr>idSub = [], idEmail = [], idName = [], idUsername = [], idExp = 0\<rparr>"

definition local_identity :: identity where
  "local_identity = zero_identity\<lparr>idSub := ''local'', idEmail := ''local@covibe''\<rparr>"

definition principals :: "(nat \<Rightarrow> nat) \<Rightarrow> identity \<Rightarrow> bytes list" where
  "principals ul i = Principals ul (idSub i) (idEmail i) (idUsername i)"

record oidc_config =
  NoAuth :: bool
  Admins :: "bytes list"
  AllowedEmails :: "bytes list"
  AllowedDomains :: "bytes list"
  AllowedSubs :: "bytes list"

definition adminHandle :: "(nat \<Rightarrow> nat) \<Rightarrow> oidc_config \<Rightarrow> bytes list \<Rightarrow> bool" where
  "adminHandle ul cfg ps = list_ex (\<lambda>w. Key ul w \<noteq> [] \<and> list_ex (\<lambda>p. p = Key ul w) ps) (Admins cfg)"

definition IsAdmin :: "(nat \<Rightarrow> nat) \<Rightarrow> oidc_config \<Rightarrow> identity \<Rightarrow> bool" where
  "IsAdmin ul cfg i = (NoAuth cfg \<or> adminHandle ul cfg (principals ul i))"

text \<open>\<open>strings.EqualFold\<close>: equal runes up to Unicode simple folding, of which \<open>uf\<close> picks one
  representative for runes above ASCII.\<close>

definition EqualFold :: "(nat \<Rightarrow> nat) \<Rightarrow> bytes \<Rightarrow> bytes \<Rightarrow> bool" where
  "EqualFold uf s t = (map (lower_rune uf) (runes s) = map (lower_rune uf) (runes t))"

definition allowed :: "(nat \<Rightarrow> nat) \<Rightarrow> (nat \<Rightarrow> nat) \<Rightarrow> oidc_config \<Rightarrow> bytes \<Rightarrow> bytes \<Rightarrow> bool" where
  "allowed ul uf cfg sub email = (
     if AllowedEmails cfg = [] \<and> AllowedDomains cfg = [] \<and> AllowedSubs cfg = [] then True
     else let email = ToLower ul email in
       if list_ex (\<lambda>e. EqualFold uf e email) (AllowedEmails cfg) then True
       else if list_ex (\<lambda>s. s = sub) (AllowedSubs cfg) then True
       else case LastIndexByte email CHR ''@'' of
           None \<Rightarrow> False
         | Some at \<Rightarrow> list_ex (\<lambda>d. EqualFold uf (TrimPrefix d ''@'') (drop (Suc at) email)) (AllowedDomains cfg))"

definition Current :: "(bytes \<Rightarrow> bytes) \<Rightarrow> (bytes \<Rightarrow> identity option) \<Rightarrow> oidc_config \<Rightarrow> int \<Rightarrow> bytes option \<Rightarrow> identity option" where
  "Current mac unmarshal cfg now cookie = (if NoAuth cfg then Some local_identity
     else case getSigned mac unmarshal cookie of
       None \<Rightarrow> None
     | Some i \<Rightarrow> if now > idExp i then None else Some i)"

section \<open>The login flow\<close>

record flow_state =
  fsState :: bytes
  fsVerifier :: bytes
  fsNonce :: bytes
  fsNext :: bytes

text \<open>\<open>sanitizeNext\<close> works on bytes: what it looks for is ASCII.\<close>

definition sanitizeNext :: "(nat \<Rightarrow> nat) \<Rightarrow> bytes \<Rightarrow> bytes" where
  "sanitizeNext ul next = (if next = [] \<or> \<not> HasPrefix next ''/'' then ''/''
     else let lower = ToLower ul next in
       if HasPrefix next ''//'' \<or> CHR 0x5C \<in> set next \<or> Contains lower ''%5c'' \<or> HasPrefix lower ''/%2f''
       then ''/'' else next)"

definition orDefault :: "bytes \<Rightarrow> bytes \<Rightarrow> bytes" where
  "orDefault s d = (if s = [] then d else s)"

text \<open>The callback: what the provider does with the code (given the flow's PKCE verifier) is the
  parameter \<open>exchange\<close>, the verified identity token \<open>None\<close> when exchange or verification fails.\<close>

record id_token =
  tokSubject :: bytes
  tokNonce :: bytes
  tokEmail :: bytes
  tokEmailVerified :: bool
  tokName :: bytes
  tokUsername :: bytes

datatype callback =
    GoHome | LoginExpired | StateMismatch | ProviderError | ProviderDown | BadToken | NonceMismatch
  | NotPermitted | LoggedIn identity bytes

text \<open>Login starts a flow: the random tokens are arguments, the answer is what the flow cookie holds
  when the browser is sent to the provider.\<close>

datatype login = LoginHome | LoginUnavailable | ToProvider flow_state

definition Login :: "(nat \<Rightarrow> nat) \<Rightarrow> oidc_config \<Rightarrow> bool \<Rightarrow> bytes \<Rightarrow> bytes \<Rightarrow> bytes \<Rightarrow> bytes \<Rightarrow> login" where
  "Login ul cfg up state verifier nonce next = (if NoAuth cfg then LoginHome
     else if \<not> up then LoginUnavailable
     else ToProvider \<lparr>fsState = state, fsVerifier = verifier, fsNonce = nonce, fsNext = sanitizeNext ul next\<rparr>)"

definition wantsJSON :: "bytes \<Rightarrow> bytes \<Rightarrow> bytes \<Rightarrow> bool" where
  "wantsJSON url_path accept xreq = (HasPrefix url_path ''/api/'' \<or> Contains accept ''application/json'' \<or>
     xreq = ''XMLHttpRequest'')"

text \<open>The gate in front of the browser pages: the handler runs, or 401, or a redirect to this URL.\<close>

datatype gate = Pass | Unauthorized | RedirectTo bytes

definition Middleware :: "(nat \<Rightarrow> nat) \<Rightarrow> identity option \<Rightarrow> bool \<Rightarrow> bytes \<Rightarrow> gate" where
  "Middleware ul cur json uri = (if cur \<noteq> None then Pass else if json then Unauthorized
     else RedirectTo (''/auth/login?next='' @ sanitizeNext ul uri))"

definition sessionTTL :: int where "sessionTTL = 12 * 60 * 60"

definition Callback :: "(nat \<Rightarrow> nat) \<Rightarrow> (nat \<Rightarrow> nat) \<Rightarrow> (bytes \<Rightarrow> bytes) \<Rightarrow> (bytes \<Rightarrow> flow_state option) \<Rightarrow> oidc_config \<Rightarrow> int
    \<Rightarrow> bool \<Rightarrow> (bytes \<Rightarrow> bytes \<Rightarrow> id_token option) \<Rightarrow> bytes option \<Rightarrow> bytes \<Rightarrow> bytes \<Rightarrow> bytes \<Rightarrow> callback" where
  "Callback ul uf mac unmarshal cfg now up exchange flow state err code =
     (if NoAuth cfg then GoHome
      else case getSigned mac unmarshal flow of
        None \<Rightarrow> LoginExpired
      | Some fs \<Rightarrow>
          if state \<noteq> fsState fs then StateMismatch
          else if err \<noteq> [] then ProviderError
          else if \<not> up then ProviderDown
          else (case exchange code (fsVerifier fs) of
            None \<Rightarrow> BadToken
          | Some t \<Rightarrow>
              if tokNonce t \<noteq> fsNonce fs then NonceMismatch
              else if \<not> allowed ul uf cfg (tokSubject t) (tokEmail t) then NotPermitted
              else LoggedIn \<lparr>idSub = tokSubject t, idEmail = tokEmail t, idName = tokName t,
                     idUsername = tokUsername t, idExp = now + sessionTTL\<rparr> (orDefault (fsNext fs) ''/'')))"


section \<open>What the loaders accept\<close>

text \<open>The reference: a key set stands for its bindings, the pairs of a user (empty for a machine
  key) and a token, in the order they were added; a token acts as the user it was bound to last.\<close>

definition keyset :: "(bytes \<Rightarrow> bytes) \<Rightarrow> (bytes \<times> bytes) list \<Rightarrow> api_keys" where
  "keyset sha bs = \<lparr>digests = map (sha \<circ> snd) bs, key_users = map fst bs\<rparr>"

definition acts_as :: "(bytes \<times> bytes) list \<Rightarrow> bytes \<Rightarrow> bytes \<times> bool" where
  "acts_as bs t = (case map_of (rev (map prod.swap bs)) t of None \<Rightarrow> ([], False) | Some u \<Rightarrow> (u, True))"

definition readable :: "(bytes \<times> bytes option) list \<Rightarrow> bytes list" where
  "readable fs = map (\<lambda>f. the (snd f)) (filter (\<lambda>f. fst f \<noteq> [] \<and> snd f \<noteq> None) fs)"

definition entries :: "bytes \<Rightarrow> (bytes \<times> bytes option) list \<Rightarrow> bytes list" where
  "entries inline fs = FieldsFunc key_sep inline @ concat (map key_lines (readable fs))"

definition unlabelled :: "bytes \<Rightarrow> bytes" where
  "unlabelled tok = TrimSpace (case IndexAny tok '':='' of Some i \<Rightarrow> drop (Suc i) tok | None \<Rightarrow> tok)"

definition machine_bindings :: "bytes \<Rightarrow> (bytes \<times> bytes option) list \<Rightarrow> (bytes \<times> bytes) list" where
  "machine_bindings inline fs = map (Pair []) (filter (\<lambda>t. t \<noteq> []) (map unlabelled (entries inline fs)))"

definition user_bindings :: "(nat \<Rightarrow> nat) \<Rightarrow> bytes \<Rightarrow> (bytes \<times> bytes option) list \<Rightarrow> (bytes \<times> bytes) list" where
  "user_bindings ul inline fs =
     map (\<lambda>p. (Key ul (fst (Cut p CHR '':'')), TrimSpace (fst (snd (Cut p CHR '':''))))) (entries inline fs)"

lemma readable_simps [simp]: "readable [] = []"
  "readable ((p, c) # fs) = (case c of None \<Rightarrow> [] | Some d \<Rightarrow> if p = [] then [] else [d]) @ readable fs"
  by (auto simp: readable_def split: option.split)

lemma addFor_keyset: "addFor ul sha user tok (keyset sha bs) = keyset sha
   (bs @ (if TrimSpace tok = [] then [] else [(Key ul user, TrimSpace tok)]))"
  by (simp add: addFor_def keyset_def Key_def Let_def)

lemma Key_Nil [simp]: "Key ul [] = []"
  by (simp add: Key_def)

lemma add_key_keyset: "add_key ul sha tok (keyset sha bs) = keyset sha
   (bs @ (if unlabelled tok = [] then [] else [([], unlabelled tok)]))"
  by (simp add: add_key_def addFor_keyset unlabelled_def)

lemma add_keys_keyset: "foldl (\<lambda>k tok. add_key ul sha tok k) (keyset sha bs) toks = keyset sha
   (bs @ map (Pair []) (filter (\<lambda>t. t \<noteq> []) (map unlabelled toks)))"
  by (induction toks arbitrary: bs) (simp_all add: add_key_keyset)

lemma load_files_keyset: "load_files ul sha fs (keyset sha bs) = (None, k) \<Longrightarrow> k = keyset sha
   (bs @ map (Pair []) (filter (\<lambda>t. t \<noteq> []) (map unlabelled (concat (map key_lines (readable fs))))))"
proof (induction fs arbitrary: bs)
  case (Cons f fs)
  then show ?case
    by (cases f) (auto simp: add_keys_keyset dest!: Cons.IH split: if_splits option.splits)
qed simp

lemma LoadAPIKeys_keyset:
  "LoadAPIKeys ul sha inline fs = (None, k) \<Longrightarrow> k = keyset sha (machine_bindings inline fs)"
proof -
  assume h: "LoadAPIKeys ul sha inline fs = (None, k)"
  have n: "no_keys = keyset sha []" by (simp add: no_keys_def keyset_def)
  show ?thesis
    using load_files_keyset [OF h [unfolded LoadAPIKeys_def addAll_def n add_keys_keyset]]
    by (simp add: machine_bindings_def entries_def)
qed

lemma add_pairs_keyset: "add_pairs ul sha ps (keyset sha bs) = (None, k) \<Longrightarrow> k = keyset sha (bs @
   map (\<lambda>p. (Key ul (fst (Cut p CHR '':'')), TrimSpace (fst (snd (Cut p CHR '':''))))) ps)"
proof (induction ps arbitrary: bs)
  case (Cons p ps)
  then show ?case
    by (auto simp: addPair_def addFor_keyset dest!: Cons.IH split: prod.splits if_splits option.splits)
qed simp

lemma user_files_keyset: "user_files ul sha fs (keyset sha bs) = (None, k) \<Longrightarrow> k = keyset sha (bs @
   map (\<lambda>p. (Key ul (fst (Cut p CHR '':'')), TrimSpace (fst (snd (Cut p CHR '':'')))))
     (concat (map key_lines (readable fs))))"
proof (induction fs arbitrary: bs)
  case (Cons f fs)
  then show ?case
    by (cases f) (auto dest!: add_pairs_keyset Cons.IH split: if_splits option.splits prod.splits)
qed simp

lemma AddUserKeys_keyset: "AddUserKeys ul sha inline fs (keyset sha bs) = (None, k) \<Longrightarrow>
   k = keyset sha (bs @ user_bindings ul inline fs)"
  by (auto simp: AddUserKeys_def user_bindings_def entries_def dest!: add_pairs_keyset user_files_keyset
      split: option.splits prod.splits)

lemma scan_keys_last: "inj_on sha (insert t (snd ` set bs)) \<Longrightarrow>
   scan_keys (sha t) (map (sha \<circ> snd) bs) (map fst bs) r =
     (case map_of (rev (map prod.swap bs)) t of None \<Rightarrow> r | Some u \<Rightarrow> (u, True))"
proof (induction bs arbitrary: r)
  case (Cons b bs)
  have i: "inj_on sha (insert t (snd ` set bs))" using Cons.prems by (rule inj_on_subset) auto
  have e: "sha t = sha (snd b) \<longleftrightarrow> t = snd b" using Cons.prems by (auto simp: inj_on_def)
  show ?case
    using e by (cases b, cases r)
      (auto simp: Cons.IH [OF i, unfolded comp_def] map_add_def split: option.split)
qed simp

lemma Lookup_keyset: "inj_on sha (insert t (snd ` set bs)) \<Longrightarrow> t \<noteq> [] \<Longrightarrow>
   Lookup sha t (keyset sha bs) = acts_as bs t"
  by (cases "bs = []") (simp_all add: Lookup_def acts_as_def keyset_def scan_keys_last)

section \<open>The throttle over a run of attempts\<close>

text \<open>An attempt comes with its time, its address and whether its credentials are good; the
  answer is whether it got through the throttle and failed.\<close>

fun attempt :: "failLimiter \<Rightarrow> nanos \<times> bytes \<times> bool \<Rightarrow> failLimiter \<times> bool" where
  "attempt l (now, ip, good) = (case blocked now ip l of
     (True, l1) \<Rightarrow> (l1, False)
   | (False, l1) \<Rightarrow> if good then (l1, False) else (fail now ip l1, True))"

fun guesses :: "bytes \<Rightarrow> failLimiter \<Rightarrow> (nanos \<times> bytes \<times> bool) list \<Rightarrow> nat" where
  "guesses ip l [] = 0"
| "guesses ip l (a # as) = (case attempt l a of (l1, tried) \<Rightarrow>
     (if tried \<and> fst (snd a) = ip then 1 else 0) + guesses ip l1 as)"

definition budget :: "bytes \<Rightarrow> nanos \<Rightarrow> failLimiter \<Rightarrow> nat" where
  "budget ip t l = (case hits l ip of None \<Rightarrow> max_fails l
     | Some (n, reset) \<Rightarrow> if reset < t then max_fails l else max_fails l - n)"

text \<open>Within a window in which the address's entry cannot expire, its failures only count up.\<close>

definition counting :: "bytes \<Rightarrow> nanos \<Rightarrow> failLimiter \<Rightarrow> bool" where
  "counting ip t l = (case hits l ip of None \<Rightarrow> True
     | Some (n, reset) \<Rightarrow> reset < t \<or> t + window l \<le> reset)"

lemma expire_simps [simp]:
  "hits (expire now l) ip = (case hits l ip of None \<Rightarrow> None | Some e \<Rightarrow> if snd e < now then None else Some e)"
  "max_fails (expire now l) = max_fails l" "window (expire now l) = window l"
  by (simp_all add: expire_def)

lemma expire_step:
  assumes "counting ip t l" and "t \<le> now" and "now < t + window l"
  shows "counting ip t (expire now l)" "budget ip t (expire now l) = budget ip t l"
  using assms by (auto simp: counting_def budget_def split: option.splits)

lemma fail_other: "ip' \<noteq> ip \<Longrightarrow> hits (fail now ip' l) ip = hits l ip"
  by (auto simp: fail_def split: option.split)

lemma fail_frame [simp]: "max_fails (fail now ip l) = max_fails l" "window (fail now ip l) = window l"
  by (simp_all add: fail_def split: option.split)

lemma same_entry:
  assumes "hits l' ip = hits l ip"
  shows "window l' = window l \<Longrightarrow> counting ip t l' = counting ip t l"
    and "max_fails l' = max_fails l \<Longrightarrow> budget ip t l' = budget ip t l"
  by (simp_all add: counting_def budget_def assms split: option.split)

lemma fail_step:
  assumes "counting ip t l" and "t \<le> now"
  shows "counting ip t (fail now ip l)"
  using assms by (cases "hits l ip") (auto simp: counting_def fail_def)

lemma fail_budget:
  assumes "counting ip t (expire now l)" and "t \<le> now" and "now < t + window l" and "0 < max_fails l"
    and "\<not> fst (blocked now ip l)"
  shows "Suc (budget ip t (fail now ip (expire now l))) = budget ip t (expire now l)"
proof (cases "hits (expire now l) ip")
  case None
  then show ?thesis using assms by (simp add: budget_def fail_def)
next
  case (Some e)
  obtain n reset where e: "e = (n, reset)" by (cases e)
  have "now \<le> reset" using Some e by (auto split: option.splits if_splits)
  moreover have "reset < t \<or> t + window l \<le> reset" using assms(1) Some e by (simp add: counting_def)
  ultimately have r: "t + window l \<le> reset" using assms(2) by linarith
  have "\<not> (max_fails l \<le> n \<and> now < reset)" using assms(5) Some e by (simp add: blocked_def Let_def)
  then have n: "n < max_fails l" using r assms(3) by linarith
  have "hits (fail now ip (expire now l)) ip = Some (Suc n, reset)"
    using Some e \<open>now \<le> reset\<close> by (simp add: fail_def)
  then show ?thesis using Some e n r assms(2,3) by (simp add: budget_def)
qed

lemma attempt_step:
  assumes c: "counting ip t l" and t: "t \<le> fst a" "fst a < t + window l"
    and a: "attempt l a = (l1, tried)" and m: "0 < max_fails l"
  shows "counting ip t l1 \<and> window l1 = window l \<and> max_fails l1 = max_fails l \<and>
    budget ip t l1 + (if tried \<and> fst (snd a) = ip then 1 else 0) = budget ip t l"
proof -
  obtain now ip' good where an: "a = (now, ip', good)" by (cases a)
  note ex = expire_step [OF c t [unfolded an fst_conv]]
  have b: "snd (blocked now ip' l) = expire now l" by (simp add: blocked_def Let_def)
  show ?thesis
  proof (cases tried)
    case False
    then have "l1 = expire now l" using a b unfolding an by (auto split: prod.splits bool.splits if_splits)
    then show ?thesis using ex False by simp
  next
    case True
    then have l1: "l1 = fail now ip' (expire now l)" and nb: "\<not> fst (blocked now ip' l)"
      using a b unfolding an by (auto split: prod.splits bool.splits if_splits)
    show ?thesis
    proof (cases "ip' = ip")
      case True
      then show ?thesis
        using l1 \<open>tried\<close> an ex t fail_step [OF ex(1)] fail_budget [OF ex(1) _ _ m] nb by simp
    next
      case False
      then show ?thesis
        using l1 an ex same_entry [OF fail_other [OF False]] by simp
    qed
  qed
qed

lemma guesses_bounded: "list_all (\<lambda>a. t \<le> fst a \<and> fst a < t + window l) as \<Longrightarrow> counting ip t l \<Longrightarrow>
   0 < max_fails l \<Longrightarrow> guesses ip l as \<le> budget ip t l"
proof (induction as arbitrary: l)
  case (Cons a as)
  obtain l1 tried where a: "attempt l a = (l1, tried)" by (cases "attempt l a")
  note st = attempt_step [OF Cons.prems(2) _ _ a Cons.prems(3)]
  have "guesses ip l1 as \<le> budget ip t l1"
    using Cons.IH [of l1] Cons.prems st by simp
  then show ?case using st Cons.prems a by (cases "tried \<and> fst (snd a) = ip") auto
qed simp

lemma budget_le: "budget ip t l \<le> max_fails l"
  by (simp add: budget_def split: option.split)

lemma unsign_sign: "unsign mac (sign mac p) = Some p"
proof -
  have "IndexByte (rawurl_encode p @ CHR ''.'' # s) CHR ''.'' = Some (length (rawurl_encode p))" for s
    using rawurl_no_dot [of p] by (simp add: IndexAny_append_found)
  then show ?thesis by (simp add: sign_def unsign_def rawurl.dec_enc)
qed

interpretation cookie: codec "sign mac" "unsign mac"
  by unfold_locales (rule unsign_sign)

lemma unsign_mac: "unsign mac v = Some p \<Longrightarrow>
   \<exists>a b. v = a @ CHR ''.'' # b \<and> rawurl_decode a = Some p \<and> rawurl_decode b = Some (mac p)"
proof -
  assume "unsign mac v = Some p"
  then obtain i where i: "IndexByte v CHR ''.'' = Some i" "rawurl_decode (take i v) = Some p"
      "rawurl_decode (drop (Suc i) v) = Some (mac p)"
    by (auto simp: unsign_def split: option.splits if_splits)
  then have "v = take i v @ CHR ''.'' # drop (Suc i) v"
    using IndexAny_Some_nth [OF i(1)] id_take_nth_drop [of i v] by auto
  then show ?thesis using i(2,3) by blast
qed

section \<open>Properties\<close>

text \<open>C24: The key set accepts exactly the configured tokens. Whatever mix of inline lists and files
  was loaded without an error, a nonempty token is accepted if and only if it is one of the
  machine tokens (their label stripped) or of the \<open>user:token\<close> pairs, and it acts as nobody in
  the first case and as the pair's user in the second, the last one added deciding; as far as
  SHA-256 does not collide on these tokens. Comments, blank entries and lines past an oversized
  one count for nothing.\<close>

theorem tokens_accepted:
  assumes "LoadAPIKeys ul sha keys kfiles = (None, k0)" and "AddUserKeys ul sha pairs pfiles k0 = (None, k)"
    and "bs = machine_bindings keys kfiles @ user_bindings ul pairs pfiles"
    and "inj_on sha (insert t (snd ` set bs))" and "t \<noteq> []"
  shows "Lookup sha t k = acts_as bs t \<and>
    (Valid sha t k \<longleftrightarrow> t \<in> snd ` set bs) \<and> \<not> Valid sha [] k"
proof -
  have k: "k = keyset sha bs"
    using AddUserKeys_keyset LoadAPIKeys_keyset assms(1-3) by blast
  have "snd (acts_as bs t) \<longleftrightarrow> t \<in> fst ` set (rev (map prod.swap bs))"
    unfolding acts_as_def
    by (metis map_of_eq_None_iff option.case_eq_if snd_conv)
  then have "snd (acts_as bs t) \<longleftrightarrow> t \<in> snd ` set bs" by (simp add: image_image)
  then show ?thesis
    using k Lookup_keyset [OF assms(4,5)] by (simp add: Valid_def) (simp add: Lookup_def)
qed

lemma key_entry: "\<forall>c\<in>set t. \<not> key_sep c \<Longrightarrow> t \<noteq> [] \<Longrightarrow> FieldsFunc key_sep t = [t]"
proof -
  assume n: "\<forall>c\<in>set t. \<not> key_sep c" and "t \<noteq> []"
  then obtain x xs where x: "t = x # xs" by (cases t) auto
  have d: "dropWhile key_sep t = x # xs" using n x by (simp add: dropWhile_none)
  have "dropWhile (\<lambda>c. \<not> key_sep c) (x # xs) = []" and "takeWhile (\<lambda>c. \<not> key_sep c) (x # xs) = t"
    using n x by (simp_all add: takeWhile_eq_all_conv)
  then show ?thesis
    by (subst FieldsFunc.simps, subst d) (simp add: FieldsFunc.simps [of key_sep "[]"])
qed

lemma no_entry [simp]: "FieldsFunc key_sep [] = []"
  by (simp add: FieldsFunc.simps)

theorem tokens_accepted_witness:
  "Lookup (\<lambda>x. x) ''t2'' (snd (AddUserKeys ascii_ul (\<lambda>x. x) ''Bob:t2'' [] (snd (LoadAPIKeys ascii_ul (\<lambda>x. x) ''ci:t1'' []))))
     = (''bob'', True)"
proof -
  let ?ms = "snd (LoadAPIKeys ascii_ul (\<lambda>x. x) ''ci:t1'' [])"
  let ?k = "snd (AddUserKeys ascii_ul (\<lambda>x. x) ''Bob:t2'' [] ?ms)"
  let ?bs = "machine_bindings ''ci:t1'' [] @ user_bindings ascii_ul ''Bob:t2'' []"
  have f: "FieldsFunc key_sep ''ci:t1'' = [''ci:t1'']" "FieldsFunc key_sep ''Bob:t2'' = [''Bob:t2'']"
    by (rule key_entry, simp_all add: key_sep_def newline_def carriage_def)+
  have c: "Cut ''Bob:t2'' CHR '':'' = (''Bob'', ''t2'', True)" by (simp add: Cut_def)
  have t: "TrimSpace ''Bob'' = ''Bob''" "TrimSpace ''t2'' = ''t2''" "TrimSpace ''t1'' = ''t1''"
    by (simp_all add: TrimSpace_ascii ascii_def space_rune_def)
  have k: "Key ascii_ul ''Bob'' = ''bob''"
    by (simp add: Key_def t ToLower_ascii ascii_def lower_char_def char_of_eq_iff)
  have l0: "LoadAPIKeys ascii_ul (\<lambda>x. x) ''ci:t1'' [] = (None, ?ms)" by (simp add: LoadAPIKeys_def)
  have "fst (AddUserKeys ascii_ul (\<lambda>x. x) ''Bob:t2'' [] k) = None" for k
    by (simp add: AddUserKeys_def f addPair_def c t)
  then have l1: "AddUserKeys ascii_ul (\<lambda>x. x) ''Bob:t2'' [] ?ms = (None, ?k)"
    by (metis prod.collapse)
  have b: "?bs = [([], ''t1''), (''bob'', ''t2'')]"
    by (simp add: machine_bindings_def user_bindings_def entries_def f unlabelled_def c t k)
  have "Lookup (\<lambda>x. x) ''t2'' ?k = acts_as ?bs ''t2''"
    by (rule conjunct1 [OF tokens_accepted [OF l0 l1 refl]]) simp_all
  then show ?thesis by (simp add: b acts_as_def)
qed

text \<open>A padded key opens the dashboard to everyone. A machine key that is base64 text with two
  padding characters and no label loses everything up to its first \<open>=\<close>: what is accepted as a
  full-access credential is the token \<open>=\<close>, and the key itself is not.\<close>

theorem padded_key_is_public:
  assumes "list_all (\<lambda>c. url_safe c \<or> c \<in> {CHR ''+'', CHR ''/''}) b" and "sha (b @ ''=='') \<noteq> sha ''=''"
  shows "Lookup sha ''='' (snd (LoadAPIKeys ul sha (b @ ''=='') [])) = ([], True) \<and>
    \<not> Valid sha (b @ ''=='') (snd (LoadAPIKeys ul sha (b @ ''=='') []))"
proof -
  let ?t = "b @ ''==''"
  have c: "\<not> key_sep c \<and> c \<notin> set '':=''" if "c \<in> set b" for c
    using assms(1) that by (auto simp: list_all_iff url_safe_def url_val_def digit_val_def key_sep_def newline_def carriage_def)
  then have n: "\<forall>c\<in>set ?t. \<not> key_sep c"
    by (auto simp: key_sep_def newline_def carriage_def)
  then have f: "FieldsFunc key_sep ?t = [?t]" by (rule key_entry) simp
  have "IndexAny ?t '':='' = Some (length b)"
    using c by (subst IndexAny_append_found) auto
  then have u: "unlabelled ?t = ''=''"
    by (simp add: unlabelled_def TrimSpace_ascii ascii_def space_rune_def)
  have "snd (LoadAPIKeys ul sha ?t []) = keyset sha [([], ''='')]"
    using LoadAPIKeys_keyset [of ul sha ?t "[]" "snd (LoadAPIKeys ul sha ?t [])"] f u
    by (simp add: LoadAPIKeys_def machine_bindings_def entries_def)
  then show ?thesis using assms(2) by (simp add: keyset_def Lookup_def Valid_def)
qed

theorem padded_key_is_public_witness:
  "Lookup (\<lambda>x. x) ''='' (snd (LoadAPIKeys ascii_ul (\<lambda>x. x) ''c2VjcmV0c2VjcmV0cw=='' [])) = ([], True)"
proof -
  have "Lookup (\<lambda>x. x) ''='' (snd (LoadAPIKeys ascii_ul (\<lambda>x. x) (''c2VjcmV0c2VjcmV0cw'' @ ''=='') [])) = ([], True)"
    by (rule conjunct1 [OF padded_key_is_public]) (simp_all add: url_safe_def url_val_def digit_val_def)
  then show ?thesis by simp
qed



text \<open>C23: A login comes from the provider and nowhere else. A browser identity is current only if its
  cookie is the encoding of a payload with that payload's MAC under the server's secret, and the
  session has not expired; a cookie the server signed reads back; and a callback logs in exactly
  the subject and address of a verified token, only when the signed flow cookie's state came back
  in the query, the token carries the flow's nonce and the account is on the allow lists.\<close>

theorem login_authentic:
  assumes "\<not> NoAuth cfg"
  shows "(Current mac rd cfg now c = Some i \<longleftrightarrow> (\<exists>v p. c = Some v \<and> unsign mac v = Some p \<and> rd p = Some i \<and> now \<le> idExp i)) \<and>
    (unsign mac v = Some p \<longrightarrow> (\<exists>a b. v = a @ CHR ''.'' # b \<and> rawurl_decode a = Some p \<and> rawurl_decode b = Some (mac p))) \<and>
    unsign mac (sign mac q) = Some q \<and>
    (Callback ul uf mac rdf cfg now up ex flow state err code = LoggedIn j next \<longrightarrow>
      (\<exists>fs t. getSigned mac rdf flow = Some fs \<and> state = fsState fs \<and> err = [] \<and> ex code (fsVerifier fs) = Some t \<and>
        tokNonce t = fsNonce fs \<and> allowed ul uf cfg (tokSubject t) (tokEmail t) \<and>
        idSub j = tokSubject t \<and> idEmail j = tokEmail t \<and> idExp j = now + sessionTTL))"
proof -
  have "Current mac rd cfg now c = Some i \<longleftrightarrow> (\<exists>v p. c = Some v \<and> unsign mac v = Some p \<and> rd p = Some i \<and> now \<le> idExp i)"
    using assms by (auto simp: Current_def getSigned_def split: option.splits)
  moreover have "\<exists>fs t. getSigned mac rdf flow = Some fs \<and> state = fsState fs \<and> err = [] \<and> ex code (fsVerifier fs) = Some t \<and>
        tokNonce t = fsNonce fs \<and> allowed ul uf cfg (tokSubject t) (tokEmail t) \<and>
        idSub j = tokSubject t \<and> idEmail j = tokEmail t \<and> idExp j = now + sessionTTL"
    if "Callback ul uf mac rdf cfg now up ex flow state err code = LoggedIn j next"
    using assms that by (auto simp: Callback_def split: option.splits if_splits)
  ultimately show ?thesis using unsign_mac cookie.dec_enc by blast
qed

theorem login_authentic_witness:
  "Current (\<lambda>p. ''m'' @ p) (\<lambda>p. if p = ''j'' then Some (zero_identity\<lparr>idSub := ''u1'', idExp := 9\<rparr>) else None)
     \<lparr>NoAuth = False, Admins = [], AllowedEmails = [], AllowedDomains = [], AllowedSubs = []\<rparr> 5
     (Some (sign (\<lambda>p. ''m'' @ p) ''j'')) = Some (zero_identity\<lparr>idSub := ''u1'', idExp := 9\<rparr>)"
proof -
  let ?rd = "\<lambda>p. if p = ''j'' then Some (zero_identity\<lparr>idSub := ''u1'', idExp := 9\<rparr>) else None"
  let ?cfg = "\<lparr>NoAuth = False, Admins = [], AllowedEmails = [], AllowedDomains = [], AllowedSubs = []\<rparr>"
  have n: "\<not> NoAuth ?cfg" by simp
  have u: "unsign (\<lambda>p. ''m'' @ p) (sign (\<lambda>p. ''m'' @ p) ''j'') = Some ''j''"
    using login_authentic [OF n, of "\<lambda>p. ''m'' @ p"] by blast
  show ?thesis
    using conjunct1 [OF login_authentic [OF n, of "\<lambda>p. ''m'' @ p" ?rd 5 "Some (sign (\<lambda>p. ''m'' @ p) ''j'')"
      "zero_identity\<lparr>idSub := ''u1'', idExp := 9\<rparr>"]] u by simp
qed

text \<open>A redirect target is a rooted path, but not always on this host. What \<open>sanitizeNext\<close> lets
  through starts with a slash, not with two, and has no backslash. It lets a tab through, and a
  browser, which drops tabs and line breaks from a URL before it parses it, then reads the target
  as another host.\<close>

theorem redirect_target_rooted:
  "HasPrefix (sanitizeNext ul next) ''/'' \<and> \<not> HasPrefix (sanitizeNext ul next) ''//'' \<and>
   CHR 0x5C \<notin> set (sanitizeNext ul next) \<and>
   (let evil = CHR ''/'' # CHR 0x09 # ''/evil.com'' in
      sanitizeNext ul evil = evil \<and>
      filter (\<lambda>c. c \<notin> {CHR 0x09, newline, carriage}) evil = ''//evil.com'')"
proof -
  have "sanitizeNext ul (CHR ''/'' # CHR 0x09 # ''/evil.com'') = CHR ''/'' # CHR 0x09 # ''/evil.com''"
    by (simp add: sanitizeNext_def ToLower_ascii ascii_def lower_char_def char_of_eq_iff Contains_def Index.simps Let_def)
  then show ?thesis
    by (auto simp: sanitizeNext_def Let_def newline_def carriage_def)
qed

end
