(* ===== verification/Workspace.thy ===== *)
theory Workspace
  imports GoPath
begin

text \<open>
  What the dashboard accepts for a new session (\<open>dashboard/create.go\<close>, and the limits on
  registered fields in \<open>remote.go\<close>): names, models, thinking levels, and the working directory,
  which is clamped inside the workspace root.
\<close>

definition alnum_char :: "char \<Rightarrow> bool" where
  "alnum_char c = (let v = byte_val c in 48 \<le> v \<and> v \<le> 57 \<or> 65 \<le> v \<and> v \<le> 90 \<or> 97 \<le> v \<and> v \<le> 122)"

text \<open>The anchored regular expressions of the code: a first character, then a bounded number of
  others. \<open>safeName\<close>, \<open>safeModel\<close> and \<open>safeHandle\<close> start with a letter or digit.\<close>

definition matches :: "(char \<Rightarrow> bool) \<Rightarrow> (char \<Rightarrow> bool) \<Rightarrow> nat \<Rightarrow> bytes \<Rightarrow> bool" where
  "matches first rest n s = (case s of [] \<Rightarrow> False | c # r \<Rightarrow> first c \<and> length r \<le> n \<and> list_all rest r)"

definition safeName :: "bytes \<Rightarrow> bool" where
  "safeName = matches alnum_char (\<lambda>c. alnum_char c \<or> c \<in> set '' ._-'') 63"

definition safeModel :: "bytes \<Rightarrow> bool" where
  "safeModel = matches alnum_char (\<lambda>c. alnum_char c \<or> c \<in> set ''._/:@-'') 127"

definition safeHandle :: "bytes \<Rightarrow> bool" where
  "safeHandle = matches alnum_char (\<lambda>c. alnum_char c \<or> c \<in> set ''._@+-'') 127"

definition safeRoomID :: "bytes \<Rightarrow> bool" where
  "safeRoomID s = (10 \<le> length s \<and> length s \<le> 64 \<and> list_all (\<lambda>c. alnum_char c \<or> c \<in> set ''_-'') s)"

definition thinkingLevels :: "bytes list" where
  "thinkingLevels = [''off'', ''minimal'', ''low'', ''medium'', ''high'', ''xhigh'', ''max'']"

definition validateName :: "bytes \<Rightarrow> bool" where
  "validateName n = (let n = TrimSpace n in n \<noteq> [] \<and> safeName n \<and> n \<noteq> ''.'' \<and> n \<noteq> ''..'')"

text \<open>\<open>clip\<close> drops carriage returns and line feeds and cuts to \<open>n\<close> bytes.\<close>

definition clip :: "bytes \<Rightarrow> nat \<Rightarrow> bytes" where
  "clip s n = take n (concat (map encode_rune (filter (\<lambda>r. r \<noteq> 10 \<and> r \<noteq> 13) (runes s))))"

datatype dir_error = Disabled | NotRelative | Escapes

definition resolveWorkspaceDir :: "bytes \<Rightarrow> bytes \<Rightarrow> bytes \<Rightarrow> bytes \<Rightarrow> dir_error + bytes" where
  "resolveWorkspaceDir cwd root name sub = (if root = [] then Inl Disabled
     else let absRoot = Abs cwd root;
              target = (if TrimSpace sub = [] then name else sub);
              rel = Clean (TrimSpace target)
       in if IsAbs rel then Inl NotRelative
          else let joined = JoinPath absRoot rel
            in case Rel absRoot joined of
                 None \<Rightarrow> Inl Escapes
               | Some climb \<Rightarrow> if climb = ''..'' \<or> HasPrefix climb (''..'' @ [slash]) then Inl Escapes
                              else Inr joined)"

section \<open>Containment\<close>

text \<open>\<open>d\<close> is the root or lies below it: its components are those of the root and more, none of
  which climbs.\<close>

definition inside :: "bytes \<Rightarrow> bytes \<Rightarrow> bool" where
  "inside root d = (\<exists>cs. d = path_text True (components root @ cs) \<and>
     list_all component (components root @ cs) \<and> ''..'' \<notin> set (components root @ cs))"

lemma Rel_inside:
  assumes b: "b = path_text True bs" "list_all component bs" "''..'' \<notin> set bs"
    and t: "t = path_text True ts" "list_all component ts" "''..'' \<notin> set ts"
    and "Rel b t = Some climb" and "climb \<noteq> ''..''" and "\<not> HasPrefix climb (''..'' @ [slash])"
  shows "\<exists>cs. ts = bs @ cs"
proof (cases "t = b")
  case True
  then have "components t = components b" by simp
  then show ?thesis using b t components_text by auto
next
  case False
  obtain rb rt where s: "strip_common bs ts = (rb, rt)" by (cases "strip_common bs ts")
  obtain p where p: "bs = p @ rb" "ts = p @ rt" using strip_common_parts [OF s] by blast
  have c: "Clean b = b" "Clean t = t" "components b = bs" "components t = ts" "IsAbs b" "IsAbs t"
    using b t by (simp_all add: Clean_text components_text IsAbs_text)
  then have "b \<noteq> ''.''" by (auto simp: IsAbs_def slash_def)
  then have climb: "climb = Join (replicate (length rb) ''..'' @ rt) [slash]"
    using assms(7) False c s by (auto simp: Rel_def Let_def split: if_splits)
  show ?thesis
  proof (cases rb)
    case Nil
    then show ?thesis using p by simp
  next
    case (Cons x xs)
    then have "climb = ''..'' \<or> HasPrefix climb (''..'' @ [slash])"
      using climb by (cases xs; cases rt) simp_all
    then show ?thesis using assms(8,9) by blast
  qed
qed

lemma Abs_abs: "IsAbs cwd \<Longrightarrow> \<exists>cs. Abs cwd p = path_text True cs \<and> list_all component cs \<and> ''..'' \<notin> set cs"
proof -
  assume "IsAbs cwd"
  then have "IsAbs (cwd @ s)" "cwd \<noteq> []" for s by (cases cwd; simp add: IsAbs_def)+
  then show ?thesis using Clean_abs \<open>IsAbs cwd\<close> by (simp add: Abs_def JoinPath_def)
qed

lemma resolve_inside:
  assumes "IsAbs cwd" and "resolveWorkspaceDir cwd root name sub = Inr d"
  shows "inside (Abs cwd root) d"
proof -
  let ?rel = "Clean (TrimSpace (if TrimSpace sub = [] then name else sub))"
  obtain bs where bs: "Abs cwd root = path_text True bs" "list_all component bs" "''..'' \<notin> set bs"
    using Abs_abs [OF assms(1)] by blast
  have ne: "Abs cwd root \<noteq> []" by (simp add: bs path_text_def)
  have rne: "?rel \<noteq> []"
    by (rule Clean_ne)
  have "IsAbs (Abs cwd root @ s)" for s by (simp add: bs path_text_def IsAbs_def)
  then obtain ts where ts: "JoinPath (Abs cwd root) ?rel = path_text True ts" "list_all component ts" "''..'' \<notin> set ts"
    using Clean_abs ne rne by (metis JoinPath_def)
  obtain climb where "Rel (Abs cwd root) (JoinPath (Abs cwd root) ?rel) = Some climb" "climb \<noteq> ''..''"
      "\<not> HasPrefix climb (''..'' @ [slash])" and d: "d = JoinPath (Abs cwd root) ?rel"
    using assms(2) by (auto simp: resolveWorkspaceDir_def Let_def split: if_splits option.splits)
  then obtain cs where "ts = bs @ cs" using Rel_inside [OF bs ts] by blast
  then show ?thesis
    using d ts bs by (auto simp: inside_def components_text)
qed


lemma Abs_root_Rel:
  assumes "list_all component bs" and "''..'' \<notin> set bs" and "component n" and "n \<noteq> ''..''"
  shows "JoinPath (path_text True bs) n = path_text True (bs @ [n])"
    and "Rel (path_text True bs) (path_text True (bs @ [n])) = Some n"
proof -
  have c: "components (path_text True bs) = bs" "components (path_text True (bs @ [n])) = bs @ [n]"
    using assms by (simp_all add: components_text)
  have ne: "path_text True bs \<noteq> []" "n \<noteq> []" and ab: "IsAbs (path_text True bs @ slash # n)"
    using assms by (auto simp: path_text_def component_def IsAbs_def)
  have "components (path_text True bs @ slash # n) = bs @ [n]"
    using assms c by (simp add: components_append components_one)
  then show "JoinPath (path_text True bs) n = path_text True (bs @ [n])"
    using ne ab assms by (simp add: JoinPath_def Clean_def reduce_plain)
  have d: "path_text True (bs @ [n]) \<noteq> path_text True bs" using c by auto
  have dot: "path_text True bs \<noteq> ''.''" by (auto simp: path_text_def slash_def)
  have s: "strip_common bs (bs @ [n]) = ([], [n])" by (induction bs) simp_all
  show "Rel (path_text True bs) (path_text True (bs @ [n])) = Some n"
    using assms c d dot s by (simp add: Rel_def Let_def Clean_text IsAbs_text)
qed

lemma validateName_component: "validateName n \<Longrightarrow> component (TrimSpace n) \<and> TrimSpace n \<noteq> ''..''"
  by (auto simp: validateName_def safeName_def matches_def component_def slash_def alnum_char_def Let_def
      list_all_iff split: list.splits)

lemma resolve_name:
  assumes "IsAbs cwd" and "root \<noteq> []" and "validateName name" and "TrimSpace sub = []"
  shows "resolveWorkspaceDir cwd root name sub = Inr (path_text True (components (Abs cwd root) @ [TrimSpace name]))"
proof -
  let ?n = "TrimSpace name"
  obtain bs where bs: "Abs cwd root = path_text True bs" "list_all component bs" "''..'' \<notin> set bs"
    using Abs_abs [OF assms(1)] by blast
  have n: "component ?n" "?n \<noteq> ''..''" using validateName_component [OF assms(3)] by auto
  have cl: "Clean ?n = ?n" "\<not> IsAbs ?n"
  proof -
    have "list_all component [?n]" "path_text False [?n] = ?n" using n by (simp_all add: path_text_def)
    then show "Clean ?n = ?n" "\<not> IsAbs ?n"
      using n Clean_text [of "[?n]" False] IsAbs_text [of "[?n]" False] by auto
  qed
  have "\<not> HasPrefix ?n (''..'' @ [slash])"
    using n by (auto simp: component_def HasPrefix_iff prefix_def)
  then show ?thesis
    using assms bs n cl Abs_root_Rel [OF bs(2,3) n]
    by (simp add: resolveWorkspaceDir_def Let_def components_text)
qed

section \<open>Property\<close>

text \<open>C32: A new session works inside the workspace root. Whatever directory a request asks for, the
  one it gets has the components of the root and then more, none of them climbing; and a request
  with a valid name and no directory always gets the directory of that name right below the root.\<close>

theorem created_dir_inside_root:
  assumes "IsAbs cwd"
  shows "(resolveWorkspaceDir cwd root name sub = Inr d \<longrightarrow> inside (Abs cwd root) d) \<and>
    (root \<noteq> [] \<longrightarrow> validateName name \<longrightarrow> TrimSpace sub = [] \<longrightarrow>
      resolveWorkspaceDir cwd root name sub =
        Inr (path_text True (components (Abs cwd root) @ [TrimSpace name])))"
  using resolve_inside resolve_name assms by blast

theorem created_dir_inside_root_witness:
  "inside (Abs ''/srv'' ''/srv/ws'') ''/srv/ws/a/b'' \<and>
   resolveWorkspaceDir ''/srv'' ''/srv/ws'' ''n'' ''a/../../x'' = Inl Escapes"
proof -
  have t: "TrimSpace ''a/./b'' = ''a/./b''" "TrimSpace ''a/../../x'' = ''a/../../x''"
    by (simp_all add: TrimSpace_ascii ascii_def space_rune_def)
  have "resolveWorkspaceDir ''/srv'' ''/srv/ws'' ''n'' ''a/./b'' = Inr ''/srv/ws/a/b''"
    by (simp add: resolveWorkspaceDir_def t Abs_def IsAbs_def Clean_def components_def path_text_def slash_def JoinPath_def Rel_def)
  moreover have "IsAbs ''/srv''" by (simp add: IsAbs_def slash_def)
  ultimately have "inside (Abs ''/srv'' ''/srv/ws'') ''/srv/ws/a/b''"
    using created_dir_inside_root by blast
  moreover have "resolveWorkspaceDir ''/srv'' ''/srv/ws'' ''n'' ''a/../../x'' = Inl Escapes"
    by (simp add: resolveWorkspaceDir_def t Abs_def IsAbs_def Clean_def components_def path_text_def slash_def JoinPath_def Rel_def)
  ultimately show ?thesis by blast
qed

end
