(* ===== verification/Spool.thy ===== *)
theory Spool
  imports Workspace Access
begin

text \<open>
  The session registry on disk (\<open>internal/spool/spool.go\<close>): one record per session in a file
  named after its id. Files that do not parse are as good as absent. What the system answers
  during a request is an \<open>env\<close>: the time, which processes exist, whether the directory can be
  listed and a file be written. \<open>Live\<close> also prunes, so it returns the store.
\<close>

section \<open>Records\<close>

definition StatusStarting :: bytes where "StatusStarting = ''starting''"
definition StatusLive :: bytes where "StatusLive = ''live''"
definition StatusEnded :: bytes where "StatusEnded = ''ended''"

lemma status_distinct [simp]: "StatusStarting \<noteq> StatusEnded" "StatusLive \<noteq> StatusEnded"
  by (simp_all add: StatusStarting_def StatusLive_def StatusEnded_def)

definition RemoteTTL :: nanos where "RemoteTTL = seconds 30"

record rec =
  rID :: bytes
  rName :: bytes
  rDir :: bytes
  rMuxSession :: bytes
  rMuxSocket :: bytes
  rMuxTab :: bytes
  rModel :: bytes
  rThinking :: bytes
  rPID :: int
  rStatus :: bytes
  rRelay :: bytes
  rJoinLink :: bytes
  rBrowserURL :: bytes
  rViewOnly :: bool
  rRoomID :: bytes
  rStartedAt :: nanos
  rUpdatedAt :: nanos
  rRemote :: bool
  rHost :: bytes

record RegisterRequest =
  qName :: bytes
  qDir :: bytes
  qModel :: bytes
  qThinking :: bytes
  qHost :: bytes
  qRelay :: bytes
  qJoinLink :: bytes
  qBrowserURL :: bytes
  qRoomID :: bytes
  qViewOnly :: bool

record env =
  now :: nanos
  probe :: "int \<Rightarrow> bool"       \<comment> \<open>signal 0 reaches the process, or is not permitted\<close>
  dir_ok :: bool
  write_ok :: bool
  dir_order :: "bytes list"    \<comment> \<open>the ids in the order the directory lists their files\<close>

definition Alive :: "env \<Rightarrow> rec \<Rightarrow> bool" where
  "Alive e r = (if rRemote r then now e - rUpdatedAt r < RemoteTTL
     else if rPID r \<le> 0 then False else probe e (rPID r))"

section \<open>The store\<close>

type_synonym spool = "bytes \<rightharpoonup> rec"

datatype spool_error = NoRecordID | SpoolWrite | SpoolRead | NoRecord

definition Save :: "env \<Rightarrow> rec \<Rightarrow> spool \<Rightarrow> spool_error option \<times> spool" where
  "Save e r s = (if rID r = [] then (Some NoRecordID, s)
     else if \<not> write_ok e then (Some SpoolWrite, s)
     else (None, s(rID r \<mapsto> r\<lparr>rUpdatedAt := now e\<rparr>)))"

definition Load :: "bytes \<Rightarrow> spool \<Rightarrow> rec option" where
  "Load i s = s i"

definition Remove :: "bytes \<Rightarrow> spool \<Rightarrow> spool" where
  "Remove i s = s(i := None)"

text \<open>Newest first. Records that started at the same instant stay in directory order, which is
  what Go's sort does for up to twelve records; for more it promises no order among them.\<close>

definition List_records :: "env \<Rightarrow> spool \<Rightarrow> rec list option" where
  "List_records e s = (if \<not> dir_ok e then None
     else Some (sort_key (\<lambda>r. - rStartedAt r) (map (\<lambda>i. the (s i)) (filter (\<lambda>i. s i \<noteq> None) (dir_order e)))))"

fun keep_live :: "env \<Rightarrow> nanos \<Rightarrow> rec list \<Rightarrow> spool \<Rightarrow> rec list \<times> spool" where
  "keep_live e keep [] s = ([], s)"
| "keep_live e keep (r # rs) s =
     (if \<not> Alive e r then keep_live e keep rs (Remove (rID r) s)
      else if rStatus r = StatusEnded \<and> now e - rUpdatedAt r > keep then keep_live e keep rs (Remove (rID r) s)
      else case keep_live e keep rs s of (out, s1) \<Rightarrow> (r # out, s1))"

definition Live :: "env \<Rightarrow> nanos \<Rightarrow> spool \<Rightarrow> rec list option \<times> spool" where
  "Live e keep s = (case List_records e s of None \<Rightarrow> (None, s)
     | Some all \<Rightarrow> (case keep_live e keep all s of (out, s1) \<Rightarrow> (Some out, s1)))"

section \<open>Socket names\<close>

definition safe_component_rune :: "nat \<Rightarrow> bool" where
  "safe_component_rune r = (97 \<le> r \<and> r \<le> 122 \<or> 48 \<le> r \<and> r \<le> 57 \<or> r = 46 \<or> r = 45 \<or> r = 95)"

definition sanitizeUser :: "(nat \<Rightarrow> nat) \<Rightarrow> bytes \<Rightarrow> bytes" where
  "sanitizeUser ul user = (let user = TrimSpace (ToLower ul user) in
     if user = [] then ''local''
     else let out = Trim (map (\<lambda>r. if safe_component_rune r then char_of r else CHR ''-'') (runes user)) ''-'';
              out = (if length out > 48 then take 48 out else out)
       in if out = [] then ''local'' else out)"

definition shortID :: "(nat \<Rightarrow> nat) \<Rightarrow> bytes \<Rightarrow> bytes" where
  "shortID ul i = (let i = sanitizeUser ul i; i = (if length i > 12 then drop (length i - 12) i else i)
     in Trim i ''-'')"

definition TmuxSocket :: "(nat \<Rightarrow> nat) \<Rightarrow> bytes \<Rightarrow> bytes \<Rightarrow> bytes \<Rightarrow> bytes" where
  "TmuxSocket ul dir user sessionID = (let name = sanitizeUser ul user; short = shortID ul sessionID;
     name = (if short \<noteq> [] then name @ ''-'' @ short else name)
   in JoinPath (JoinPath dir ''tmux'') (name @ ''.sock''))"

section \<open>What \<open>Live\<close> keeps\<close>

text \<open>Every record is stored under its own id.\<close>

definition spool_inv :: "spool \<Rightarrow> bool" where
  "spool_inv s = (\<forall>i r. s i = Some r \<longrightarrow> rID r = i)"

definition lives :: "env \<Rightarrow> nanos \<Rightarrow> rec \<Rightarrow> bool" where
  "lives e keep r = (Alive e r \<and> \<not> (rStatus r = StatusEnded \<and> now e - rUpdatedAt r > keep))"

lemma keep_live_eq: "keep_live e keep rs s =
   (filter (lives e keep) rs, s |` (- rID ` set (filter (\<lambda>r. \<not> lives e keep r) rs)))"
proof (induction rs arbitrary: s)
  case (Cons r rs)
  have "(Remove (rID r) s) |` (- X) = s |` (- insert (rID r) X)" for X
    by (auto simp: Remove_def restrict_map_def fun_eq_iff)
  then show ?case using Cons.IH by (auto simp: lives_def)
qed (simp add: restrict_map_def)

definition listing :: "env \<Rightarrow> spool \<Rightarrow> rec list" where
  "listing e s = sort_key (\<lambda>r. - rStartedAt r) (map (\<lambda>i. the (s i)) (filter (\<lambda>i. s i \<noteq> None) (dir_order e)))"

lemma Live_eq: "Live e keep s = (if \<not> dir_ok e then (None, s)
   else (Some (filter (lives e keep) (listing e s)),
         s |` (- rID ` {r \<in> set (listing e s). \<not> lives e keep r})))"
  by (simp add: Live_def List_records_def keep_live_eq listing_def)

lemma listed:
  assumes "spool_inv s"
  shows "r \<in> set (listing e s) \<longleftrightarrow> rID r \<in> set (dir_order e) \<and> s (rID r) = Some r"
proof
  assume "r \<in> set (listing e s)"
  then obtain i where "i \<in> set (dir_order e)" "s i = Some r" by (auto simp: listing_def)
  then show "rID r \<in> set (dir_order e) \<and> s (rID r) = Some r" using assms by (simp add: spool_inv_def)
next
  assume r: "rID r \<in> set (dir_order e) \<and> s (rID r) = Some r"
  then have "r = the (s (rID r))" by simp
  then show "r \<in> set (listing e s)" using r unfolding listing_def by (auto intro!: rev_image_eqI)
qed

lemma Live_kept:
  assumes "spool_inv s" and "Live e keep s = (rs, s')"
  shows "s' \<subseteq>\<^sub>m s" "spool_inv s'" "\<And>r. rs = Some l \<Longrightarrow> r \<in> set l \<longleftrightarrow> rID r \<in> set (dir_order e) \<and> s (rID r) = Some r \<and> lives e keep r"
proof -
  show m: "s' \<subseteq>\<^sub>m s"
    using assms(2) by (auto simp: Live_eq map_le_def restrict_map_def split: if_splits)
  then show "spool_inv s'" using assms(1) unfolding spool_inv_def map_le_def by (metis domI)
  show "r \<in> set l \<longleftrightarrow> rID r \<in> set (dir_order e) \<and> s (rID r) = Some r \<and> lives e keep r" if "rs = Some l" for r
    using assms(2) that listed [OF assms(1)] by (auto simp: Live_eq split: if_splits)
qed

lemma Live_drop:
  assumes "spool_inv s" and "Live e keep s = (rs, s')" and "s i = Some r" and "s' i = None"
  shows "\<not> lives e keep r"
proof -
  have "rID x = i \<Longrightarrow> s (rID x) = Some x \<Longrightarrow> x = r" for x using assms(3) by simp
  then show ?thesis
    using assms(2-4) listed [OF assms(1), of _ e]
    by (auto simp: Live_eq restrict_map_def split: if_splits)
qed

end
