(* ===== verification/Termwire.thy ===== *)
theory Termwire
  imports JsText
begin

text \<open>
  The terminal protocol's framing on a byte stream (\<open>internal/termwire\<close>): a kind byte, the
  payload's length as 32 bits big-endian, the payload. A \<open>conn\<close> keeps what \<open>Conn\<close> keeps: the
  reader's header scratch, the writer's reused buffer, and the two directions of the stream:
  the bytes the peer sent that are not read yet with the error that ends them, and the bytes
  written so far. A write fault says how many bytes the stream took before it failed.
\<close>

unbundle bit_operations_syntax

datatype wire_error = EOF | ErrUnexpectedEOF | StreamError | ErrTooLarge

record conn =
  hdr :: bytes
  wbuf :: bytes          \<comment> \<open>to its capacity\<close>
  incoming :: bytes
  ends_with :: wire_error
  outgoing :: bytes

definition KindBinary :: char where "KindBinary = CHR 0x00"
definition KindText :: char where "KindText = CHR 0x01"

definition MaxPayload :: nat where "MaxPayload = 4 * 2 ^ 20"
definition headerLen :: nat where "headerLen = 5"

definition NewConn :: "bytes \<Rightarrow> wire_error \<Rightarrow> conn" where
  "NewConn input fin = \<lparr>hdr = replicate headerLen (CHR 0x00), wbuf = [], incoming = input,
     ends_with = fin, outgoing = []\<rparr>"

section \<open>The length prefix\<close>

definition PutUint32 :: "32 word \<Rightarrow> bytes" where
  "PutUint32 v = [char_of (unat (drop_bit 24 v)), char_of (unat (drop_bit 16 v)),
     char_of (unat (drop_bit 8 v)), char_of (unat v)]"

definition byte32 :: "char \<Rightarrow> 32 word" where
  "byte32 c = of_nat (of_char c)"

definition Uint32 :: "bytes \<Rightarrow> 32 word" where
  "Uint32 b = byte32 (b ! 3) OR push_bit 8 (byte32 (b ! 2)) OR push_bit 16 (byte32 (b ! 1))
     OR push_bit 24 (byte32 (b ! 0))"

lemma byte32_char_of: "byte32 (char_of (unat w)) = take_bit 8 w"
proof -
  have "byte32 (char_of (unat w)) = of_nat (take_bit 8 (unat w))"
    by (simp add: byte32_def take_bit_eq_mod)
  also have "\<dots> = take_bit 8 w" by (simp add: unsigned_take_bit_eq [symmetric])
  finally show ?thesis .
qed

lemma Uint32_PutUint32 [simp]: "Uint32 (PutUint32 v) = v"
proof (rule bit_word_eqI)
  fix n assume "n < LENGTH(32)"
  then consider "n < 8" | "8 \<le> n" "n < 16" | "16 \<le> n" "n < 24" | "24 \<le> n" "n < 32"
    by fastforce
  then show "bit (Uint32 (PutUint32 v)) n = bit v n"
    by cases (auto simp: Uint32_def PutUint32_def byte32_char_of bit_simps)
qed

lemma length_PutUint32 [simp]: "length (PutUint32 v) = 4"
  by (simp add: PutUint32_def)

section \<open>Reading\<close>

text \<open>\<open>io.ReadFull\<close> into a slice of \<open>n\<close> bytes: the bytes read, and the error when the stream
  ends first.\<close>

definition ReadFull :: "nat \<Rightarrow> conn \<Rightarrow> bytes \<times> wire_error option \<times> conn" where
  "ReadFull n c = (let got = take n (incoming c); c' = c\<lparr>incoming := drop n (incoming c)\<rparr>
     in if length got = n then (got, None, c')
        else (got, Some (if ends_with c = EOF \<and> got \<noteq> [] then ErrUnexpectedEOF else ends_with c), c'))"

text \<open>The second component of the state change is the number of payload bytes allocated.\<close>

definition ReadMsg :: "conn \<Rightarrow> (wire_error + char \<times> bytes) \<times> nat \<times> conn" where
  "ReadMsg c = (case ReadFull headerLen c of
     (got, Some e, c1) \<Rightarrow> (Inl e, 0, c1\<lparr>hdr := got @ drop (length got) (hdr c)\<rparr>)
   | (got, None, c1) \<Rightarrow>
       let c2 = c1\<lparr>hdr := got\<rparr>; n = Uint32 (drop 1 (hdr c2)) in
       if n > of_nat MaxPayload then (Inl ErrTooLarge, 0, c2)
       else if n = 0 then (Inr (hd (hdr c2), []), 0, c2)
       else (case ReadFull (unat n) c2 of
           (p, Some e, c3) \<Rightarrow> (Inl e, unat n, c3)
         | (p, None, c3) \<Rightarrow> (Inr (hd (hdr c2), p), unat n, c3)))"

section \<open>Writing\<close>

definition stream_write :: "nat option \<Rightarrow> bytes \<Rightarrow> conn \<Rightarrow> wire_error option \<times> conn" where
  "stream_write fault buf c = (case fault of
     None \<Rightarrow> (None, c\<lparr>outgoing := outgoing c @ buf\<rparr>)
   | Some k \<Rightarrow> (Some StreamError, c\<lparr>outgoing := outgoing c @ take k buf\<rparr>))"

text \<open>Writing into a slice from an index on, as \<open>copy\<close> does: never past its end.\<close>

definition overwrite :: "nat \<Rightarrow> bytes \<Rightarrow> bytes \<Rightarrow> bytes" where
  "overwrite i xs ys = take i ys @ take (length ys - i) xs @ drop (i + length xs) ys"

definition WriteMsg :: "nat option \<Rightarrow> char \<Rightarrow> bytes \<Rightarrow> conn \<Rightarrow> wire_error option \<times> conn" where
  "WriteMsg fault kind payload c = (
     if length payload > MaxPayload then (Some ErrTooLarge, c)
     else let need = headerLen + length payload;
              c1 = (if length (wbuf c) < need then c\<lparr>wbuf := replicate need (CHR 0x00)\<rparr> else c);
              buf = overwrite headerLen payload
                      (overwrite 1 (PutUint32 (of_nat (length payload)))
                        ((take need (wbuf c1))[0 := kind]))
          in stream_write fault buf (c1\<lparr>wbuf := buf @ drop need (wbuf c1)\<rparr>))"

definition frame_of :: "char \<times> bytes \<Rightarrow> bytes" where
  "frame_of m = fst m # PutUint32 (of_nat (length (snd m))) @ snd m"

text \<open>The scratch buffer never shows: what goes out is the frame of this message.\<close>

lemma overwrite_frame:
  assumes "length ys = headerLen + length p" and "length l = 4"
  shows "overwrite headerLen p (overwrite 1 l (ys[0 := k])) = k # l @ p"
proof -
  obtain y ys' where ys: "ys = y # ys'" "length ys' = 4 + length p"
    using assms(1) by (cases ys) (auto simp: headerLen_def)
  then show ?thesis using assms(2) by (simp add: overwrite_def headerLen_def)
qed

lemma WriteMsg_ok:
  assumes "length p \<le> MaxPayload"
  shows "fst (WriteMsg None k p c) = None"
    and "outgoing (snd (WriteMsg None k p c)) = outgoing c @ frame_of (k, p)"
    and "incoming (snd (WriteMsg None k p c)) = incoming c"
proof -
  have l: "length (take (headerLen + length p)
      (if length (wbuf c) < headerLen + length p then replicate (headerLen + length p) z else wbuf c))
      = headerLen + length p" for z :: char
    by simp
  show "fst (WriteMsg None k p c) = None"
    and "incoming (snd (WriteMsg None k p c)) = incoming c"
    using assms by (simp_all add: WriteMsg_def stream_write_def Let_def)
  show "outgoing (snd (WriteMsg None k p c)) = outgoing c @ frame_of (k, p)"
    using assms overwrite_frame [OF l, where l = "PutUint32 (of_nat (length p))" and k = k]
    by (auto simp: WriteMsg_def stream_write_def Let_def frame_of_def split: if_splits)
qed

lemma WriteMsg_fault:
  assumes "length p \<le> MaxPayload"
  shows "outgoing (snd (WriteMsg (Some n) k p c)) = outgoing c @ take n (frame_of (k, p))"
proof -
  have l: "length (take (headerLen + length p)
      (if length (wbuf c) < headerLen + length p then replicate (headerLen + length p) z else wbuf c))
      = headerLen + length p" for z :: char
    by simp
  show ?thesis
    using assms overwrite_frame [OF l, where l = "PutUint32 (of_nat (length p))" and k = k]
    by (auto simp: WriteMsg_def stream_write_def Let_def frame_of_def split: if_splits)
qed

section \<open>Reading what was written\<close>

lemma unat_length: "n \<le> MaxPayload \<Longrightarrow> unat (of_nat n :: 32 word) = n"
  by (simp add: MaxPayload_def unat_of_nat)

lemma length_frame [simp]: "length (frame_of m) = headerLen + length (snd m)"
  by (simp add: frame_of_def headerLen_def)

lemma ReadMsg_frame:
  assumes "length p \<le> MaxPayload" and "incoming c = frame_of (k, p) @ rest"
  shows "ReadMsg c = (Inr (k, p), length p,
    c\<lparr>hdr := k # PutUint32 (of_nat (length p)), incoming := rest\<rparr>)"
proof -
  have n: "unat (of_nat (length p) :: 32 word) = length p" by (rule unat_length [OF assms(1)])
  have m: "\<not> (of_nat (length p) :: 32 word) > of_nat MaxPayload"
    using assms(1) by (simp add: word_less_nat_alt n MaxPayload_def)
  have z: "(of_nat (length p) :: 32 word) = 0 \<longleftrightarrow> p = []"
    by (simp add: unat_eq_0 [symmetric] n)
  have h: "ReadFull headerLen c = (k # PutUint32 (of_nat (length p)), None, c\<lparr>incoming := p @ rest\<rparr>)"
    using assms(2) by (simp add: ReadFull_def frame_of_def headerLen_def)
  have g: "ReadFull (length p) (c\<lparr>incoming := p @ rest, hdr := x\<rparr>) =
      (p, None, c\<lparr>hdr := x, incoming := rest\<rparr>)" for x
    by (simp add: ReadFull_def)
  show ?thesis using m z n by (auto simp: ReadMsg_def h g Let_def)
qed

text \<open>A reader that asks for messages until it gets an error.\<close>

lemma ReadMsg_shrinks: "ReadMsg c = (Inr m, a, c') \<Longrightarrow> length (incoming c') < length (incoming c)"
  by (auto simp: ReadMsg_def ReadFull_def Let_def headerLen_def split: if_splits prod.splits option.splits)

lemma ReadMsg_uses:
  "ReadMsg c = (Inr m, a, c') \<Longrightarrow> length (incoming c) = length (incoming c') + headerLen + length (snd m)"
  by (auto simp: ReadMsg_def ReadFull_def Let_def headerLen_def split: if_splits prod.splits option.splits)

function read_all :: "conn \<Rightarrow> (char \<times> bytes) list \<times> wire_error" where
  "read_all c = (case ReadMsg c of
     (Inl e, _, _) \<Rightarrow> ([], e)
   | (Inr m, _, c') \<Rightarrow> (m # fst (read_all c'), snd (read_all c')))"
  by pat_completeness auto

termination
  by (relation "measure (\<lambda>c. length (incoming c))") (auto dest: ReadMsg_shrinks [OF sym])

declare read_all.simps [simp del]

lemma read_all_error: "fst (ReadMsg c) = Inl e \<Longrightarrow> read_all c = ([], e)"
  by (cases "ReadMsg c") (simp add: read_all.simps [of c])

lemma read_all_frames:
  "list_all (\<lambda>m. length (snd m) \<le> MaxPayload) ms \<Longrightarrow>
   incoming c = concat (map frame_of ms) @ rest \<Longrightarrow>
   \<exists>h. read_all c = (ms @ fst (read_all (c\<lparr>hdr := h, incoming := rest\<rparr>)),
     snd (read_all (c\<lparr>hdr := h, incoming := rest\<rparr>)))"
proof (induction ms arbitrary: c)
  case Nil
  then show ?case by (intro exI [of _ "hdr c"]) (cases c, simp)
next
  case (Cons m ms)
  let ?c = "c\<lparr>hdr := fst m # PutUint32 (of_nat (length (snd m))), incoming := concat (map frame_of ms) @ rest\<rparr>"
  have r: "ReadMsg c = (Inr m, length (snd m), ?c)"
    using ReadMsg_frame [of "snd m" c "fst m" "concat (map frame_of ms) @ rest"] Cons.prems by simp
  obtain h where "read_all ?c = (ms @ fst (read_all (?c\<lparr>hdr := h, incoming := rest\<rparr>)),
     snd (read_all (?c\<lparr>hdr := h, incoming := rest\<rparr>)))"
    using Cons.IH [of ?c] Cons.prems by auto
  then show ?case by (intro exI [of _ h]) (simp add: read_all.simps [of c] r)
qed

text \<open>A frame the stream ends inside of.\<close>

lemma ReadMsg_cut:
  assumes "length p \<le> MaxPayload" and "incoming c = take j (frame_of (k, p))"
    and "j < headerLen + length p" and "ends_with c = EOF"
  shows "fst (ReadMsg c) = Inl (if j = 0 \<or> j = headerLen then EOF else ErrUnexpectedEOF)"
proof (cases "j < headerLen")
  case True
  have "ReadFull headerLen c = (take j (frame_of (k, p)),
      Some (if j = 0 then EOF else ErrUnexpectedEOF), c\<lparr>incoming := []\<rparr>)"
    using assms True by (auto simp: ReadFull_def headerLen_def frame_of_def min_def)
  then show ?thesis using True by (simp add: ReadMsg_def Let_def)
next
  case False
  let ?n = "of_nat (length p) :: 32 word"
  have n: "unat ?n = length p" by (rule unat_length [OF assms(1)])
  have m: "\<not> ?n > of_nat MaxPayload"
    using assms(1) by (simp add: word_less_nat_alt n MaxPayload_def)
  have ne: "p \<noteq> []" using False assms(3) by auto
  then have z: "?n \<noteq> 0" by (simp add: unat_eq_0 [symmetric] n)
  have j: "take j (frame_of (k, p)) = (k # PutUint32 ?n) @ take (j - headerLen) p"
    using False by (simp add: frame_of_def headerLen_def take_Cons' )
  have h: "ReadFull headerLen c = (k # PutUint32 ?n, None, c\<lparr>incoming := take (j - headerLen) p\<rparr>)"
    using assms(2) by (simp add: j ReadFull_def headerLen_def)
  have g: "\<exists>d. ReadFull (length p) (c\<lparr>incoming := take (j - headerLen) p, hdr := x\<rparr>) =
      (take (j - headerLen) p, Some (if j = headerLen then EOF else ErrUnexpectedEOF), d)" for x
    using assms(3,4) False ne by (auto simp: ReadFull_def Let_def)
  obtain d where "ReadFull (length p) (c\<lparr>incoming := take (j - headerLen) p, hdr := k # PutUint32 ?n\<rparr>) =
      (take (j - headerLen) p, Some (if j = headerLen then EOF else ErrUnexpectedEOF), d)"
    using g by blast
  moreover have "j \<noteq> 0" using False by (auto simp: headerLen_def)
  ultimately show ?thesis using m z n by (simp add: ReadMsg_def h Let_def)
qed

text \<open>What the header alone decides.\<close>

definition length_field :: "conn \<Rightarrow> 32 word" where
  "length_field c = Uint32 (take 4 (drop 1 (incoming c)))"

lemma field_bound: "length_field c > of_nat MaxPayload \<longleftrightarrow> unat (length_field c) > MaxPayload"
  by (simp add: word_less_nat_alt MaxPayload_def)

lemma header_read:
  "headerLen \<le> length (incoming c) \<Longrightarrow>
   ReadFull headerLen c = (take headerLen (incoming c), None, c\<lparr>incoming := drop headerLen (incoming c)\<rparr>)"
  by (simp add: ReadFull_def)

lemma header_field: "Uint32 (drop 1 (take headerLen (incoming c))) = length_field c"
  by (simp add: length_field_def headerLen_def drop_take)

lemma ReadMsg_short:
  assumes "length (incoming c) < headerLen"
  shows "\<exists>e c'. ReadMsg c = (Inl e, 0, c')"
proof -
  have "\<exists>g e d. ReadFull headerLen c = (g, Some e, d)"
    using assms by (simp add: ReadFull_def Let_def)
  then show ?thesis by (auto simp: ReadMsg_def)
qed

lemma ReadMsg_large:
  assumes "headerLen \<le> length (incoming c)" and "length_field c > of_nat MaxPayload"
  shows "ReadMsg c = (Inl ErrTooLarge, 0,
    c\<lparr>incoming := drop headerLen (incoming c), hdr := take headerLen (incoming c)\<rparr>)"
  using assms by (simp add: ReadMsg_def header_read Let_def header_field [simplified])

lemma ReadFull_exact: "ReadFull n c = (p, None, c') \<Longrightarrow> length p = n"
  by (auto simp: ReadFull_def Let_def split: if_splits)

lemma ReadMsg_body:
  assumes "headerLen \<le> length (incoming c)" and "\<not> length_field c > of_nat MaxPayload"
  shows "fst (snd (ReadMsg c)) = unat (length_field c) \<and>
    (\<forall>m. fst (ReadMsg c) = Inr m \<longrightarrow> length (snd m) = unat (length_field c))"
  using assms
  by (auto simp: ReadMsg_def header_read Let_def header_field [simplified] ReadFull_exact
       split: prod.split option.split)

section \<open>Properties\<close>

text \<open>C29: The framing is transparent. Messages written to one end, by any interleaving of writers
  (each \<open>WriteMsg\<close> is one step under the mutex) and whatever the reused write buffer held, come
  out of \<open>ReadMsg\<close> at the other end with the same kinds and payloads in the same order, and
  then the stream's own end is reported.\<close>

theorem messages_read_as_written:
  assumes "list_all (\<lambda>m. length (snd m) \<le> MaxPayload) ms" and "outgoing w = []"
    and "fin = EOF \<or> fin = StreamError"
  shows "read_all (NewConn (outgoing (run (\<lambda>c m. snd (WriteMsg None (fst m) (snd m) c)) w ms)) fin) = (ms, fin)"
proof -
  have "outgoing (run (\<lambda>c m. snd (WriteMsg None (fst m) (snd m) c)) w ms)
      = outgoing w @ concat (map frame_of ms)" for w
    using assms(1) by (induction ms arbitrary: w) (simp_all add: WriteMsg_ok(2))
  then have o: "outgoing (run (\<lambda>c m. snd (WriteMsg None (fst m) (snd m) c)) w ms) = concat (map frame_of ms)"
    using assms(2) by simp
  let ?c = "NewConn (concat (map frame_of ms)) fin"
  obtain h where "read_all ?c = (ms @ fst (read_all (?c\<lparr>hdr := h, incoming := []\<rparr>)),
     snd (read_all (?c\<lparr>hdr := h, incoming := []\<rparr>)))"
    using read_all_frames [OF assms(1), of ?c "[]"] by (auto simp: NewConn_def)
  moreover have "fst (ReadMsg (?c\<lparr>hdr := h, incoming := []\<rparr>)) = Inl fin"
    by (simp add: ReadMsg_def ReadFull_def NewConn_def headerLen_def)
  ultimately show ?thesis using read_all_error o by fastforce
qed

theorem messages_read_as_written_witness:
  "read_all (NewConn (outgoing (run (\<lambda>c m. snd (WriteMsg None (fst m) (snd m) c))
     (NewConn [] EOF\<lparr>wbuf := ''stale bytes''\<rparr>) [(KindText, ''{}''), (KindBinary, []), (KindBinary, ''ls'')])) EOF)
   = ([(KindText, ''{}''), (KindBinary, []), (KindBinary, ''ls'')], EOF)"
  by (rule messages_read_as_written) (simp_all add: MaxPayload_def NewConn_def)

text \<open>A stream that ends early never yields a message that was not written. Cut after any
  number of bytes, the reader returns exactly the messages that are complete; it reports
  \<open>ErrUnexpectedEOF\<close> for a cut inside a header or a payload, and \<open>EOF\<close> for a cut at a message
  boundary, but also for one right between a header and its payload.\<close>

theorem cut_stream_read:
  assumes "list_all (\<lambda>m. length (snd m) \<le> MaxPayload) (ms @ [m])" and "j < length (frame_of m)"
  shows "read_all (NewConn (concat (map frame_of ms) @ take j (frame_of m)) EOF) =
    (ms, if j = 0 \<or> j = headerLen then EOF else ErrUnexpectedEOF)"
proof -
  let ?r = "take j (frame_of m)" and ?c = "NewConn (concat (map frame_of ms) @ take j (frame_of m)) EOF"
  obtain h where h: "read_all ?c = (ms @ fst (read_all (?c\<lparr>hdr := h, incoming := ?r\<rparr>)),
     snd (read_all (?c\<lparr>hdr := h, incoming := ?r\<rparr>)))"
    using read_all_frames [of ms ?c ?r] assms(1) by (auto simp: NewConn_def)
  obtain k p where m: "m = (k, p)" by (cases m)
  have "fst (ReadMsg (?c\<lparr>hdr := h, incoming := ?r\<rparr>)) = Inl (if j = 0 \<or> j = headerLen then EOF else ErrUnexpectedEOF)"
    using assms by (intro ReadMsg_cut [of p _ j k]) (simp_all add: m NewConn_def)
  from read_all_error [OF this] show ?thesis by (simp add: h)
qed

theorem cut_stream_read_witness:
  "read_all (NewConn (concat (map frame_of [(KindText, ''{}'')]) @ take 6 (frame_of (KindBinary, ''ls''))) EOF)
   = ([(KindText, ''{}'')], ErrUnexpectedEOF)"
  using cut_stream_read [of "[(KindText, ''{}'')]" "(KindBinary, ''ls'')" 6]
  by (simp add: MaxPayload_def headerLen_def)

text \<open>C30: A hostile peer cannot make the reader allocate or return more than \<open>MaxPayload\<close>: this
  holds for every byte sequence, and a length prefix beyond the bound is refused before
  anything is allocated, with only the header taken off the stream.\<close>

theorem reader_bounded:
  "fst (snd (ReadMsg c)) \<le> MaxPayload \<and>
   (case fst (ReadMsg c) of
      Inr m \<Rightarrow> length (snd m) = fst (snd (ReadMsg c))
    | Inl e \<Rightarrow> headerLen \<le> length (incoming c) \<and>
        unat (Uint32 (take 4 (drop 1 (incoming c)))) > MaxPayload \<longrightarrow>
          e = ErrTooLarge \<and> fst (snd (ReadMsg c)) = 0 \<and>
          incoming (snd (snd (ReadMsg c))) = drop headerLen (incoming c))"
proof -
  consider "length (incoming c) < headerLen"
    | "headerLen \<le> length (incoming c)" "length_field c > of_nat MaxPayload"
    | "headerLen \<le> length (incoming c)" "\<not> length_field c > of_nat MaxPayload"
    by linarith
  then show ?thesis
  proof cases
    case 1
    then show ?thesis using ReadMsg_short [OF 1] by auto
  next
    case 2
    then show ?thesis by (simp add: ReadMsg_large)
  next
    case 3
    then have f: "\<not> MaxPayload < unat (Uint32 (take 4 (drop 1 (incoming c))))"
      using field_bound [of c] unfolding length_field_def by simp
    obtain x a c' where x: "ReadMsg c = (x, a, c')" by (cases "ReadMsg c")
    have "a = unat (Uint32 (take 4 (drop 1 (incoming c))))" "\<forall>m. x = Inr m \<longrightarrow> length (snd m) = a"
      using ReadMsg_body [OF 3] by (simp_all add: x length_field_def)
    then show ?thesis using f by (cases x) (simp_all add: x del: One_nat_def)
  qed
qed

theorem reader_bounded_witness:
  "fst (ReadMsg (NewConn (KindBinary # PutUint32 0x01000000 @ ''rest'') EOF)) = Inl ErrTooLarge"
proof -
  let ?c = "NewConn (KindBinary # PutUint32 0x01000000 @ ''rest'') EOF"
  have f: "take 4 (drop 1 (incoming ?c)) = PutUint32 0x01000000" by (simp add: NewConn_def)
  have l: "headerLen \<le> length (incoming ?c)" by (simp add: NewConn_def headerLen_def)
  have m: "unat (Uint32 (take 4 (drop 1 (incoming ?c)))) > MaxPayload"
    unfolding f Uint32_PutUint32 by (simp add: MaxPayload_def)
  have n: "length_field ?c > of_nat MaxPayload" using m field_bound [of ?c] by (simp add: length_field_def)
  show ?thesis
    using reader_bounded [of ?c] ReadMsg_large [OF l n] l m by simp
qed

text \<open>C31: The read loop ends. Every message it takes uses up its five header bytes and its payload, so
  on a stream that has carried \<open>n\<close> bytes it takes at most a fifth of \<open>n\<close> messages before it stops
  with an error, and it never hands on more bytes than arrived.\<close>

theorem reader_ends:
  "\<exists>ms e. read_all c = (ms, e) \<and> headerLen * length ms + length (concat (map snd ms)) \<le> length (incoming c)"
proof (induction "length (incoming c)" arbitrary: c rule: less_induct)
  case less
  obtain m a c' where m: "ReadMsg c = (m, a, c')" by (cases "ReadMsg c")
  show ?case
  proof (cases m)
    case (Inl e)
    then show ?thesis using m read_all_error [of c e] by simp
  next
    case (Inr x)
    have u: "length (incoming c) = length (incoming c') + headerLen + length (snd x)"
      using ReadMsg_uses m Inr by blast
    then obtain ms e where "read_all c' = (ms, e)"
      "headerLen * length ms + length (concat (map snd ms)) \<le> length (incoming c')"
      using less [of c'] by (auto simp: headerLen_def)
    then show ?thesis using m Inr u by (subst read_all.simps) simp
  qed
qed

end
