(* ===== verification/Tmuxctl.thy ===== *)
theory Tmuxctl
  imports Termwire
begin

text \<open>
  The tmux backend (\<open>internal/tmuxctl\<close>): the argument vectors of the one-shot commands, with
  tmux itself as the parameter \<open>tmux\<close> (argument vector to standard output, or failure), and
  the control-mode client, whose shared state (the command pipe, the \<open>inBlock\<close> flag of the read
  loop, the bounded output channel) is a record that lines read from tmux, calls of the
  owner and receives of the consumer change one at a time.
\<close>

section \<open>Lower-case hexadecimal\<close>

definition hex_char :: "nat \<Rightarrow> char" where
  "hex_char n = char_of (if n < 10 then 48 + n else 87 + n)"

definition EncodeToString :: "bytes \<Rightarrow> bytes" where
  "EncodeToString bs = concat (map (\<lambda>b. [hex_char (byte_val b div 16), hex_char (byte_val b mod 16)]) bs)"

fun hex_DecodeString :: "bytes \<Rightarrow> bytes option" where
  "hex_DecodeString [] = Some []"
| "hex_DecodeString [_] = None"
| "hex_DecodeString (h # l # r) = (case (unhex h, unhex l) of
     (Some a, Some b) \<Rightarrow> map_option (Cons (char_of (a * 16 + b))) (hex_DecodeString r)
   | _ \<Rightarrow> None)"

lemma unhex_hex_char: "n < 16 \<Longrightarrow> unhex (hex_char n) = Some n"
proof (cases "n < 10")
  case True
  then show ?thesis by (simp add: unhex_def hex_char_def)
next
  case False
  moreover assume "n < 16"
  ultimately have "byte_val (hex_char n) = 87 + n" by (simp add: hex_char_def)
  with False \<open>n < 16\<close> show ?thesis by (auto simp: unhex_def Let_def)
qed

lemma hex_decode_encode: "hex_DecodeString (EncodeToString bs) = Some bs"
proof (induction bs)
  case (Cons b bs)
  have "byte_val b div 16 < 16" using byte_val_less [of b] by linarith
  moreover have "byte_val b div 16 * 16 + byte_val b mod 16 = byte_val b" by simp
  ultimately show ?case using Cons by (simp add: EncodeToString_def unhex_hex_char)
qed (simp add: EncodeToString_def)

interpretation hexcodec: codec EncodeToString hex_DecodeString
  by unfold_locales (rule hex_decode_encode)

lemma length_EncodeToString [simp]: "length (EncodeToString bs) = 2 * length bs"
  by (induction bs) (simp_all add: EncodeToString_def)

lemma hex_char_alnum: "n < 16 \<Longrightarrow> alnum (hex_char n)"
proof (cases "n < 10")
  case False
  moreover assume "n < 16"
  ultimately have "byte_val (hex_char n) = 87 + n" by (simp add: hex_char_def)
  with False \<open>n < 16\<close> show ?thesis by (auto simp: alnum_def Let_def)
qed (simp add: hex_char_def alnum_def)

lemma EncodeToString_alnum: "list_all alnum (EncodeToString bs)"
proof (induction bs)
  case (Cons b bs)
  have "byte_val b div 16 < 16" using byte_val_less [of b] by linarith
  then have "alnum (hex_char (byte_val b div 16))" "alnum (hex_char (byte_val b mod 16))"
    by (simp_all add: hex_char_alnum)
  with Cons show ?case by (simp add: EncodeToString_def)
qed (simp add: EncodeToString_def)

definition hexBytes :: "bytes \<Rightarrow> bytes list" where
  "hexBytes data = map (\<lambda>b. EncodeToString [b]) data"

section \<open>One-shot commands\<close>

record tmux_server =
  Socket :: bytes
  Bin :: bytes

definition argv :: "tmux_server \<Rightarrow> bytes list \<Rightarrow> bytes list" where
  "argv s args = (let bin = (if Bin s = [] then ''tmux'' else Bin s);
      out = [bin]; out = (if Socket s \<noteq> [] then out @ [''-S'', Socket s] else out)
    in out @ args)"

type_synonym tmux_exec = "bytes list \<Rightarrow> bytes option"

definition run_tmux :: "tmux_exec \<Rightarrow> tmux_server \<Rightarrow> bytes list \<Rightarrow> bytes option" where
  "run_tmux tmux s args = tmux (argv s args)"

definition sessionTarget :: "bytes \<Rightarrow> bytes" where
  "sessionTarget session = CHR ''='' # session"

definition paneTarget :: "bytes \<Rightarrow> bytes" where
  "paneTarget session = CHR ''='' # session @ '':''"

definition HasSession :: "tmux_exec \<Rightarrow> tmux_server \<Rightarrow> bytes \<Rightarrow> bool" where
  "HasSession tmux s session = (run_tmux tmux s [''has-session'', ''-t'', sessionTarget session] \<noteq> None)"

definition IDOption :: bytes where "IDOption = ''@covibe_id''"

definition tab :: char where "tab = CHR 0x09"

fun tagged_name :: "bytes \<Rightarrow> bytes list \<Rightarrow> bytes option" where
  "tagged_name covibeID [] = None"
| "tagged_name covibeID (line # lines) = (case Cut (TrimRight line [carriage]) tab of
     (name, i, ok) \<Rightarrow> if ok \<and> i = covibeID \<and> name \<noteq> [] then Some name else tagged_name covibeID lines)"

definition SessionFor :: "tmux_exec \<Rightarrow> tmux_server \<Rightarrow> bytes \<Rightarrow> bytes \<Rightarrow> bytes" where
  "SessionFor tmux s covibeID want = (
     if covibeID = [] then want
     else case run_tmux tmux s [''list-sessions'', ''-F'', ''#{session_name}'' @ [tab] @ ''#{'' @ IDOption @ ''}''] of
       None \<Rightarrow> want
     | Some out \<Rightarrow> (case tagged_name covibeID (Split out newline) of Some n \<Rightarrow> n | None \<Rightarrow> want))"

record capture_opts =
  Escapes :: bool
  Lines :: int
  Alt :: bool

definition Capture :: "tmux_exec \<Rightarrow> tmux_server \<Rightarrow> bytes \<Rightarrow> capture_opts \<Rightarrow> bytes option" where
  "Capture tmux s session opts = (
     let args = [''capture-pane'', ''-p'', ''-J'', ''-t'', paneTarget session];
         args = (if Escapes opts then args @ [''-e''] else args);
         args = (if Alt opts then args @ [''-a''] else args);
         args = (if Lines opts > 0 then args @ [''-S'', ''-'' @ Itoa (Lines opts)] else args)
     in run_tmux tmux s args)"

definition maxInput :: nat where "maxInput = 8 * 2 ^ 10"

datatype tmux_error = InputTooLarge nat | InvalidKeyName bytes | BadSize int int | EmptyCommand
  | ClientClosed | PipeError | SessionRequired | TmuxFailed

definition failed :: "bytes option \<Rightarrow> tmux_error option" where
  "failed r = (if r = None then Some TmuxFailed else None)"

definition SendKeys :: "tmux_exec \<Rightarrow> tmux_server \<Rightarrow> bytes \<Rightarrow> bytes \<Rightarrow> tmux_error option" where
  "SendKeys tmux s session data = (
     if data = [] then None
     else if length data > maxInput then Some (InputTooLarge (length data))
     else failed (run_tmux tmux s ([''send-keys'', ''-H'', ''-t'', paneTarget session] @ hexBytes data)))"

definition safeKeyName :: "bytes \<Rightarrow> bool" where
  "safeKeyName key = (
     if key = [] \<or> length key > 24 \<or> hd key = CHR ''-'' then False
     else list_all (\<lambda>r. (r \<ge> 97 \<and> r \<le> 122) \<or> (r \<ge> 65 \<and> r \<le> 90) \<or> (r \<ge> 48 \<and> r \<le> 57) \<or>
                        r = 45 \<or> r = 95) (runes key))"

definition SendNamedKey :: "tmux_exec \<Rightarrow> tmux_server \<Rightarrow> bytes \<Rightarrow> bytes \<Rightarrow> tmux_error option" where
  "SendNamedKey tmux s session key = (
     if \<not> safeKeyName key then Some (InvalidKeyName key)
     else failed (run_tmux tmux s [''send-keys'', ''-t'', paneTarget session, key]))"

definition Kill :: "tmux_exec \<Rightarrow> tmux_server \<Rightarrow> bytes \<Rightarrow> tmux_error option" where
  "Kill tmux s session = failed (run_tmux tmux s [''kill-session'', ''-t'', sessionTarget session])"

section \<open>The control client\<close>

record client =
  target :: bytes
  closed :: bool
  stdin_ok :: bool          \<comment> \<open>tmux still reads the pipe\<close>
  stdin :: bytes            \<comment> \<open>what was written to it\<close>
  inBlock :: bool
  reading :: bool           \<comment> \<open>the read loop has not returned\<close>
  out_q :: "bytes list"     \<comment> \<open>the channel's buffer\<close>
  out_closed :: bool
  taken :: "bytes list"     \<comment> \<open>what the consumer received, in order\<close>

definition pauseAfter :: int where "pauseAfter = 3"
definition outputQueue :: nat where "outputQueue = 256"

definition command :: "bytes \<Rightarrow> client \<Rightarrow> tmux_error option \<times> client" where
  "command line c = (let line = TrimRight line [carriage, newline] in
     if line = [] then (Some EmptyCommand, c)
     else if closed c then (Some ClientClosed, c)
     else if stdin_ok c then (None, c\<lparr>stdin := stdin c @ line @ [newline]\<rparr>)
     else (Some PipeError, c))"

definition Resize :: "int \<Rightarrow> int \<Rightarrow> client \<Rightarrow> tmux_error option \<times> client" where
  "Resize cols rows c = (if cols \<le> 0 \<or> rows \<le> 0 then (Some (BadSize cols rows), c)
     else command (''refresh-client -C '' @ Itoa cols @ ''x'' @ Itoa rows) c)"

definition Send :: "bytes \<Rightarrow> client \<Rightarrow> tmux_error option \<times> client" where
  "Send data c = (
     if data = [] then (None, c)
     else if length data > maxInput then (Some (InputTooLarge (length data)), c)
     else command (''send-keys -H -t '' @ target c @ '' '' @ Join (hexBytes data) '' '') c)"

text \<open>\<open>started\<close> says whether the pipes and the process could be made.\<close>

definition Attach :: "bool \<Rightarrow> bytes \<Rightarrow> int \<Rightarrow> int \<Rightarrow> tmux_error + client" where
  "Attach started session cols rows = (
     if session = [] then Inl SessionRequired
     else if \<not> started then Inl TmuxFailed
     else let c = \<lparr>target = paneTarget session, closed = False, stdin_ok = True, stdin = [],
                   inBlock = False, reading = True, out_q = [], out_closed = False, taken = []\<rparr>;
              c = (if cols > 0 \<and> rows > 0 then snd (Resize cols rows c) else c)
          in Inr (snd (command (''refresh-client -f pause-after='' @ Itoa pauseAfter) c)))"

definition Close_client :: "client \<Rightarrow> client" where
  "Close_client c = (if closed c then c else c\<lparr>closed := True, stdin_ok := False\<rparr>)"

definition emit :: "bytes \<Rightarrow> client \<Rightarrow> client" where
  "emit data c = (if length (out_q c) < outputQueue then c\<lparr>out_q := out_q c @ [data]\<rparr> else c)"

definition isOctal :: "char \<Rightarrow> bool" where
  "isOctal b = (byte_val b \<ge> 48 \<and> byte_val b \<le> 55)"

definition octal_val :: "char \<Rightarrow> char \<Rightarrow> char \<Rightarrow> nat" where
  "octal_val a b c = or (or (push_bit 6 (byte_val a - 48)) (push_bit 3 (byte_val b - 48))) (byte_val c - 48)"

definition backslash :: char where "backslash = CHR 0x5C"

fun unescape :: "bytes \<Rightarrow> bytes" where
  "unescape (s0 # s1 # s2 # s3 # r) =
     (if s0 = backslash \<and> isOctal s1 \<and> isOctal s2 \<and> isOctal s3
      then char_of (octal_val s1 s2 s3) # unescape r
      else s0 # unescape (s1 # s2 # s3 # r))"
| "unescape (s0 # r) = s0 # unescape r"
| "unescape [] = []"

definition parseOutput :: "bytes \<Rightarrow> bytes option" where
  "parseOutput line = (let rest = drop (length ''%output '') line in
     case IndexByte rest CHR '' '' of None \<Rightarrow> None
     | Some sp \<Rightarrow> Some (unescape (drop (sp + 1) rest)))"

definition parseExtendedOutput :: "bytes \<Rightarrow> bytes option" where
  "parseExtendedOutput line = (let rest = drop (length ''%extended-output '') line in
     case Index rest '' : '' of None \<Rightarrow> None
     | Some i \<Rightarrow> Some (unescape (drop (i + length '' : '') rest)))"

text \<open>One line of the read loop.\<close>

definition read_line :: "bytes \<Rightarrow> client \<Rightarrow> client" where
  "read_line line c = (
     if HasPrefix line ''%begin'' then c\<lparr>inBlock := True\<rparr>
     else if HasPrefix line ''%end'' \<or> HasPrefix line ''%error'' then c\<lparr>inBlock := False\<rparr>
     else if inBlock c then c
     else if HasPrefix line ''%output '' then
       (case parseOutput line of Some data \<Rightarrow> emit data c | None \<Rightarrow> c)
     else if HasPrefix line ''%extended-output '' then
       (case parseExtendedOutput line of Some data \<Rightarrow> emit data c | None \<Rightarrow> c)
     else if HasPrefix line ''%exit'' \<or> HasPrefix line ''%session-changed'' then
       (if HasPrefix line ''%exit'' then c\<lparr>reading := False, out_closed := True\<rparr> else c)
     else if HasPrefix line ''%pause'' then
       snd (command (''refresh-client -A '' @ [CHR 0x27] @ ''%*:continue'' @ [CHR 0x27]) c)
     else c)"

text \<open>The lines \<open>bufio.Scanner\<close> makes of the stream: without their newline and a carriage return
  before it, up to the first line that does not fit its buffer of \<open>maxTok\<close> bytes.\<close>

definition maxTok :: nat where "maxTok = 4 * 2 ^ 20"

definition scan_lines :: "bytes \<Rightarrow> bytes list" where
  "scan_lines s = ScanLines maxTok s"

datatype client_event = LineRead bytes | StreamEnded | Received | SendCalled bytes
  | ResizeCalled int int | CloseCalled

fun client_step :: "client \<Rightarrow> client_event \<Rightarrow> client" where
  "client_step c (LineRead l) = (if reading c then read_line l c else c)"
| "client_step c StreamEnded = (if reading c then c\<lparr>reading := False, out_closed := True\<rparr> else c)"
| "client_step c Received = (case out_q c of [] \<Rightarrow> c | d # q \<Rightarrow> c\<lparr>out_q := q, taken := taken c @ [d]\<rparr>)"
| "client_step c (SendCalled d) = snd (Send d c)"
| "client_step c (ResizeCalled x y) = snd (Resize x y c)"
| "client_step c CloseCalled = Close_client c"

section \<open>Escapes\<close>

definition octal3 :: "char \<Rightarrow> bytes" where
  "octal3 c = (let v = byte_val c in
     [char_of (48 + v div 64), char_of (48 + v div 8 mod 8), char_of (48 + v mod 8)])"

text \<open>What tmux documents of the escapes: a byte that is printable and no backslash stands for
  itself, any byte may come as a backslash with three octal digits. The first argument is the
  data, the second what is on the wire.\<close>

inductive escaped :: "bytes \<Rightarrow> bytes \<Rightarrow> bool" where
  esc_nil: "escaped [] []"
| esc_literal: "escaped d w \<Longrightarrow> 32 \<le> byte_val c \<Longrightarrow> c \<noteq> backslash \<Longrightarrow> escaped (c # d) (c # w)"
| esc_octal: "escaped d w \<Longrightarrow> escaped (c # d) (backslash # octal3 c @ w)"

inductive_cases escaped_Nil: "escaped [] w"

lemma or_octal:
  assumes "b < 8" "c < (8::nat)"
  shows "or (or (push_bit 6 a) (push_bit 3 b)) c = a * 64 + b * 8 + c"
proof -
  have c: "take_bit 3 c = c" and b: "take_bit 3 b = b"
    using assms by (simp_all add: take_bit_nat_eq_self)
  have 1: "or (push_bit 6 a) (push_bit 3 (take_bit 3 b)) = push_bit 6 a + push_bit 3 (take_bit 3 b)"
    by (rule disjunctive_add_eq_or [symmetric], rule bit_eqI) (auto simp: bit_simps)
  have 2: "or (push_bit 3 (push_bit 3 a + take_bit 3 b)) (take_bit 3 c) = push_bit 3 (push_bit 3 a + take_bit 3 b) + take_bit 3 c"
    by (rule disjunctive_add_eq_or [symmetric], rule bit_eqI) (auto simp: bit_simps)
  show ?thesis using 1 2 by (simp add: b c push_bit_eq_mult algebra_simps)
qed

lemma octal_val_octal3: "octal3 c = [x, y, z] \<Longrightarrow> isOctal x \<and> isOctal y \<and> isOctal z \<and> octal_val x y z = byte_val c"
proof -
  assume o: "octal3 c = [x, y, z]"
  define v where "v = byte_val c"
  have v: "v div 64 < 4" "v < 256" using byte_val_less [of c] unfolding v_def by linarith+
  have xyz: "x = char_of (48 + v div 64)" "y = char_of (48 + v div 8 mod 8)" "z = char_of (48 + v mod 8)"
    using o by (simp_all add: octal3_def v_def Let_def)
  have b: "byte_val x = 48 + v div 64" "byte_val y = 48 + v div 8 mod 8" "byte_val z = 48 + v mod 8"
    using v by (simp_all add: xyz)
  have d: "v div 64 = v div 8 div 8" by (simp add: div_mult2_eq [symmetric])
  have "v div 64 * 64 + v div 8 mod 8 * 8 + v mod 8 = v"
    using div_mult_mod_eq [of v 8] div_mult_mod_eq [of "v div 8" 8] d by linarith
  moreover have m: "v div 8 mod 8 < 8" "v mod 8 < 8" by simp_all
  ultimately have "octal_val x y z = v"
    unfolding octal_val_def b diff_add_inverse or_octal [OF m] by linarith
  moreover have "isOctal x" "isOctal y" "isOctal z"
    unfolding isOctal_def b using v m by linarith+
  ultimately show ?thesis by (simp add: v_def)
qed

lemma unescape_literal:
  "c \<noteq> backslash \<Longrightarrow> unescape (c # w) = c # unescape w"
  by (cases w rule: list.exhaust; cases "tl w"; cases "tl (tl w)") auto

lemma unescape_octal: "unescape (backslash # octal3 c @ w) = c # unescape w"
proof -
  obtain x y z where o: "octal3 c = [x, y, z]" by (simp add: octal3_def Let_def)
  then show ?thesis using octal_val_octal3 [OF o] by simp
qed

lemma unescape_escaped: "escaped d w \<Longrightarrow> unescape w = d"
  by (induction rule: escaped.induct) (simp_all add: unescape_literal unescape_octal)

text \<open>Escaped data is one line: no newline, and no carriage return the scanner would take off.\<close>

lemma escaped_line: "escaped d w \<Longrightarrow> x \<in> set w \<Longrightarrow> 32 \<le> byte_val x"
proof (induction rule: escaped.induct)
  case (esc_octal d w c)
  have "byte_val c div 64 < 4" using byte_val_less [of c] by linarith
  with esc_octal show ?case by (auto simp: octal3_def backslash_def Let_def)
qed auto

section \<open>What the read loop makes of tmux's notifications\<close>

text \<open>The protocol as tmux documents it: output notifications, command replies between guard
  lines, and other notifications; what each says about the pane's bytes.\<close>

datatype notice = Output bytes bytes | Extended bytes bytes bytes | Block bytes "bytes list" bytes
  | Other bytes

fun notice_lines :: "notice \<Rightarrow> bytes list" where
  "notice_lines (Output pane w) = [''%output '' @ pane @ '' '' @ w]"
| "notice_lines (Extended pane age w) = [''%extended-output '' @ pane @ '' '' @ age @ '' : '' @ w]"
| "notice_lines (Block guard body final) = [''%begin '' @ guard] @ body @ [final]"
| "notice_lines (Other l) = [l]"

definition is_end :: "bytes \<Rightarrow> bool" where
  "is_end l = (HasPrefix l ''%end'' \<or> HasPrefix l ''%error'')"

inductive notice_says :: "notice \<Rightarrow> bytes list \<Rightarrow> bool" where
  says_output: "escaped d w \<Longrightarrow> CHR '' '' \<notin> set pane \<Longrightarrow> notice_says (Output pane w) [d]"
| says_extended: "escaped d w \<Longrightarrow> CHR '' '' \<notin> set pane \<Longrightarrow> CHR '' '' \<notin> set age \<Longrightarrow>
     CHR '':'' \<notin> set age \<Longrightarrow> notice_says (Extended pane age w) [d]"
| says_block: "list_all (\<lambda>l. \<not> is_end l) body \<Longrightarrow> is_end final \<Longrightarrow> notice_says (Block guard body final) []"
| says_other: "\<not> HasPrefix l ''%begin'' \<Longrightarrow> \<not> is_end l \<Longrightarrow> \<not> HasPrefix l ''%output '' \<Longrightarrow>
     \<not> HasPrefix l ''%extended-output '' \<Longrightarrow> \<not> HasPrefix l ''%exit'' \<Longrightarrow> notice_says (Other l) []"

text \<open>One line, apart from the state: whether a block is open after it, whether the loop ends,
  and what it passes on.\<close>

definition line_block :: "bool \<Rightarrow> bytes \<Rightarrow> bool" where
  "line_block b l = (if HasPrefix l ''%begin'' then True else if is_end l then False else b)"

definition line_stops :: "bool \<Rightarrow> bytes \<Rightarrow> bool" where
  "line_stops b l = (\<not> b \<and> HasPrefix l ''%exit'')"

definition line_emits :: "bool \<Rightarrow> bytes \<Rightarrow> bytes list" where
  "line_emits b l = (if b then []
     else if HasPrefix l ''%output '' then (case parseOutput l of Some d \<Rightarrow> [d] | None \<Rightarrow> [])
     else if HasPrefix l ''%extended-output '' then (case parseExtendedOutput l of Some d \<Rightarrow> [d] | None \<Rightarrow> [])
     else [])"

fun emissions :: "bool \<Rightarrow> bytes list \<Rightarrow> bytes list" where
  "emissions b [] = []"
| "emissions b (l # ls) = (if line_stops b l then []
     else line_emits b l @ emissions (line_block b l) ls)"

text \<open>No line starts in two of the ways the loop tells apart.\<close>

lemma starts_apart:
  "HasPrefix l ''%begin'' \<Longrightarrow> \<not> is_end l \<and> \<not> HasPrefix l ''%output '' \<and>
     \<not> HasPrefix l ''%extended-output '' \<and> \<not> HasPrefix l ''%exit''"
  "is_end l \<Longrightarrow> \<not> HasPrefix l ''%output '' \<and> \<not> HasPrefix l ''%extended-output '' \<and> \<not> HasPrefix l ''%exit''"
  "HasPrefix l ''%output '' \<Longrightarrow> \<not> HasPrefix l ''%extended-output '' \<and> \<not> HasPrefix l ''%exit''"
  "HasPrefix l ''%extended-output '' \<Longrightarrow> \<not> HasPrefix l ''%exit''"
  by (auto simp: HasPrefix_iff prefix_def is_end_def)

lemma command_frame [simp]:
  "stdin_ok (snd (command l c)) = stdin_ok c" "inBlock (snd (command l c)) = inBlock c" "reading (snd (command l c)) = reading c"
  "out_q (snd (command l c)) = out_q c" "taken (snd (command l c)) = taken c"
  "target (snd (command l c)) = target c" "closed (snd (command l c)) = closed c"
  by (simp_all add: command_def Let_def)

lemma Send_frame [simp]:
  "inBlock (snd (Send d c)) = inBlock c" "reading (snd (Send d c)) = reading c"
  "out_q (snd (Send d c)) = out_q c" "taken (snd (Send d c)) = taken c"
  "target (snd (Send d c)) = target c"
  by (simp_all add: Send_def)

lemma Resize_frame [simp]:
  "inBlock (snd (Resize x y c)) = inBlock c" "reading (snd (Resize x y c)) = reading c"
  "out_q (snd (Resize x y c)) = out_q c" "taken (snd (Resize x y c)) = taken c"
  "target (snd (Resize x y c)) = target c"
  by (simp_all add: Resize_def)

lemma emit_frame [simp]:
  "inBlock (emit d c) = inBlock c" "reading (emit d c) = reading c" "taken (emit d c) = taken c"
  "target (emit d c) = target c" "stdin (emit d c) = stdin c" "closed (emit d c) = closed c"
  by (simp_all add: emit_def)

lemma read_line_frame:
  "inBlock (read_line l c) = line_block (inBlock c) l"
  "reading (read_line l c) = (reading c \<and> \<not> line_stops (inBlock c) l)"
  "taken (read_line l c) = taken c"
  "target (read_line l c) = target c"
  using starts_apart [of l]
  by (simp_all add: read_line_def line_block_def line_stops_def is_end_def [symmetric] split: option.split)

lemma read_line_out:
  "out_q (read_line l c) = (case line_emits (inBlock c) l of
     [] \<Rightarrow> out_q c | d # _ \<Rightarrow> out_q (emit d c))"
  using starts_apart [of l]
  by (auto simp: read_line_def line_emits_def is_end_def [symmetric] split: option.split)

lemma line_emits_length: "length (line_emits b l) \<le> 1"
  by (auto simp: line_emits_def split: option.split)

text \<open>The lines among the events, and a consumer that never lets the channel fill up.\<close>

definition lines_of :: "client_event list \<Rightarrow> bytes list" where
  "lines_of es = concat (map (\<lambda>e. case e of LineRead l \<Rightarrow> [l] | _ \<Rightarrow> []) es)"

lemma lines_of_Nil [simp]: "lines_of [] = []"
  and lines_of_Cons: "lines_of (e # es) = (case e of LineRead l \<Rightarrow> [l] | _ \<Rightarrow> []) @ lines_of es"
  by (simp_all add: lines_of_def)

fun never_full :: "client \<Rightarrow> client_event list \<Rightarrow> bool" where
  "never_full c [] = True"
| "never_full c (e # es) = (length (out_q c) < outputQueue \<and> never_full (client_step c e) es)"

definition carried :: "client \<Rightarrow> bytes list" where
  "carried c = taken c @ out_q c"

lemma carried_other:
  assumes "\<And>l. e \<noteq> LineRead l"
  shows "carried (client_step c e) = carried c" "inBlock (client_step c e) = inBlock c"
    "e \<noteq> StreamEnded \<Longrightarrow> reading (client_step c e) = reading c"
  using assms by (cases e; auto simp: carried_def Close_client_def split: list.split)+

lemma carried_line:
  assumes "reading c"
  shows "subseq (carried (client_step c (LineRead l))) (carried c @ line_emits (inBlock c) l)"
    and "length (out_q c) < outputQueue \<Longrightarrow>
      carried (client_step c (LineRead l)) = carried c @ line_emits (inBlock c) l"
  using assms line_emits_length [of "inBlock c" l]
  by (auto simp: carried_def read_line_frame read_line_out emit_def split: list.split)

lemma not_reading_carried: "\<not> reading c \<Longrightarrow> carried (run client_step c es) = carried c"
proof (induction es arbitrary: c)
  case (Cons e es)
  have "\<not> reading (client_step c e) \<and> carried (client_step c e) = carried c"
    using Cons.prems by (cases e) (auto simp: carried_def Close_client_def split: list.split)
  then show ?case using Cons.IH by simp
qed simp

lemma stream_run:
  assumes "reading c" and "StreamEnded \<notin> set es"
  shows "subseq (carried (run client_step c es)) (carried c @ emissions (inBlock c) (lines_of es)) \<and>
    (never_full c es \<longrightarrow> carried (run client_step c es) = carried c @ emissions (inBlock c) (lines_of es))"
  using assms
proof (induction es arbitrary: c)
  case (Cons e es)
  show ?case
  proof (cases "\<exists>l. e = LineRead l")
    case False
    then have "carried (client_step c e) = carried c" "inBlock (client_step c e) = inBlock c"
      "reading (client_step c e)"
      using carried_other [of e c] Cons.prems by auto
    then show ?thesis
      using Cons.IH [of "client_step c e"] Cons.prems False by (auto simp: lines_of_Cons split: client_event.split)
  next
    case True
    then obtain l where e: "e = LineRead l" by blast
    let ?c = "client_step c (LineRead l)"
    have b: "inBlock ?c = line_block (inBlock c) l" "reading ?c = (\<not> line_stops (inBlock c) l)"
      using Cons.prems by (simp_all add: read_line_frame)
    note s = carried_line [OF Cons.prems(1), of l]
    show ?thesis
    proof (cases "line_stops (inBlock c) l")
      case True
      then have "line_emits (inBlock c) l = []"
        using starts_apart [of l] by (auto simp: line_stops_def line_emits_def)
      then show ?thesis
        using s True not_reading_carried [of ?c es] b by (auto simp: e lines_of_Cons)
    next
      case False
      then have IH: "subseq (carried (run client_step ?c es)) (carried ?c @ emissions (inBlock ?c) (lines_of es))"
        "never_full ?c es \<Longrightarrow> carried (run client_step ?c es) = carried ?c @ emissions (inBlock ?c) (lines_of es)"
        using Cons.IH [of ?c] Cons.prems b by auto
      have "subseq (carried ?c @ emissions (inBlock ?c) (lines_of es))
          ((carried c @ line_emits (inBlock c) l) @ emissions (inBlock ?c) (lines_of es))"
        using s(1) by (rule list_emb_append_mono) simp
      with IH(1) have "subseq (carried (run client_step ?c es))
          ((carried c @ line_emits (inBlock c) l) @ emissions (inBlock ?c) (lines_of es))"
        by (rule subseq_order.trans)
      then show ?thesis using False IH(2) s(2) b by (simp add: e lines_of_Cons)
    qed
  qed
qed simp

lemma out_q_step: "length (out_q (client_step c e)) \<le> Suc (length (out_q c))"
  by (cases e) (auto simp: read_line_out emit_def Close_client_def split: list.split)

lemma never_full_short: "length (out_q c) + length es \<le> outputQueue \<Longrightarrow> never_full c es"
proof (induction es arbitrary: c)
  case (Cons e es)
  then show ?case using out_q_step [of c e] by simp
qed simp

text \<open>The lines of well-formed notifications: the loop stays outside blocks and emits exactly
  what they say.\<close>

lemma Index_skip: "c \<notin> set s \<Longrightarrow> Index (s @ t) (c # p) = map_option (\<lambda>i. length s + i) (Index t (c # p))"
proof (induction s)
  case Nil
  then show ?case by (simp add: option.map_id0 id_def [symmetric])
next
  case (Cons x s)
  then show ?case
    by (subst Index.simps) (cases "Index t (c # p)", auto)
qed

lemma Index_here: "Index (p @ t) p = Some 0"
  by (subst Index.simps) simp

lemma parseOutput_line:
  "CHR '' '' \<notin> set pane \<Longrightarrow> parseOutput (''%output '' @ pane @ '' '' @ w) = Some (unescape w)"
  using IndexAny_append_found [of pane "'' ''" "CHR '' ''" w] by (simp add: parseOutput_def)

lemma Index_age:
  assumes "CHR '' '' \<notin> set pane" "CHR '' '' \<notin> set age" "CHR '':'' \<notin> set age"
  shows "Index (pane @ '' '' @ age @ '' : '' @ w) '' : '' = Some (length pane + 1 + length age)"
proof -
  have "Index (age @ '' : '' @ w) '' : '' = Some (length age)"
    using assms(2) Index_here [of "'' : ''" w] by (simp add: Index_skip)
  moreover have "Index ('' '' @ age @ '' : '' @ w) '' : '' = map_option Suc (Index (age @ '' : '' @ w) '' : '')"
    using assms(3) by (subst Index.simps) (cases age, auto)
  ultimately show ?thesis using assms(1) by (simp add: Index_skip)
qed

lemma parseExtendedOutput_line:
  assumes "CHR '' '' \<notin> set pane" "CHR '' '' \<notin> set age" "CHR '':'' \<notin> set age"
  shows "parseExtendedOutput (''%extended-output '' @ pane @ '' '' @ age @ '' : '' @ w) = Some (unescape w)"
proof -
  let ?q = "pane @ '' '' @ age @ '' : ''"
  have "drop (length ?q) (?q @ w) = w" by (metis append_eq_conv_conj)
  then have d: "drop (length pane + 1 + length age + length '' : '') (pane @ '' '' @ age @ '' : '' @ w) = w"
    by (simp add: add.commute)
  show ?thesis
    unfolding parseExtendedOutput_def Let_def using Index_age [OF assms, of w] d by (simp del: drop_append)
qed

lemma emissions_block:
  "list_all (\<lambda>l. \<not> is_end l) body \<Longrightarrow> emissions True (body @ ls) = emissions True ls"
  by (induction body) (auto simp: line_stops_def line_emits_def line_block_def)

lemma emissions_notice:
  assumes "notice_says n ds"
  shows "emissions False (notice_lines n @ ls) = ds @ emissions False ls"
  using assms
proof cases
  case (says_output d w pane)
  then show ?thesis
    by (simp add: parseOutput_line [simplified] unescape_escaped line_stops_def line_emits_def line_block_def is_end_def)
next
  case (says_extended d w pane age)
  then show ?thesis
    by (simp add: parseExtendedOutput_line [simplified] unescape_escaped line_stops_def line_emits_def line_block_def is_end_def)
next
  case (says_block body final guard)
  then have "emissions False (notice_lines n @ ls) = emissions True (body @ final # ls)"
    by (simp add: line_stops_def line_emits_def line_block_def)
  also have "\<dots> = emissions False ls"
    using says_block starts_apart [of final] by (auto simp: emissions_block line_stops_def line_emits_def line_block_def)
  finally show ?thesis using says_block by simp
next
  case (says_other l)
  then show ?thesis by (simp add: line_stops_def line_emits_def line_block_def)
qed

lemma emissions_transcript:
  "list_all2 notice_says ns dss \<Longrightarrow> emissions False (concat (map notice_lines ns)) = concat dss"
  by (induction rule: list_all2_induct) (simp_all add: emissions_notice)

section \<open>What is written to tmux\<close>

lemma TrimRight_id: "l = [] \<or> last l \<notin> set cs \<Longrightarrow> TrimRight l cs = l"
  by (cases l rule: rev_cases) (simp_all add: TrimRight_def)

definition resume_line :: bytes where
  "resume_line = ''refresh-client -A '' @ [CHR 0x27] @ ''%*:continue'' @ [CHR 0x27]"

definition command_line :: "bytes \<Rightarrow> bytes \<Rightarrow> bool" where
  "command_line tgt l = (l = ''refresh-client -f pause-after=3'' \<or> l = resume_line \<or>
     (\<exists>x y. 0 < x \<and> 0 < y \<and> l = ''refresh-client -C '' @ Itoa x @ ''x'' @ Itoa y) \<or>
     (\<exists>d. d \<noteq> [] \<and> length d \<le> maxInput \<and>
        l = ''send-keys -H -t '' @ tgt @ '' '' @ Join (hexBytes d) '' ''))"

definition only_commands :: "client \<Rightarrow> bool" where
  "only_commands c = (\<exists>ls. stdin c = concat (map (\<lambda>l. l @ [newline]) ls) \<and>
     list_all (command_line (target c)) ls)"

lemma alnum_not_space: "alnum c \<Longrightarrow> c \<notin> set [CHR '' '', newline, carriage]"
  by (auto simp: alnum_def newline_def carriage_def)

lemma hexBytes_alnum: "list_all (list_all alnum) (hexBytes d)"
  using EncodeToString_alnum by (simp add: hexBytes_def list_all_iff)

lemma hexBytes_ne: "x \<in> set (hexBytes d) \<Longrightarrow> x \<noteq> []"
  by (auto simp: hexBytes_def EncodeToString_def)

lemma Join_chars: "c \<in> set (Join xs sep) \<Longrightarrow> (\<exists>x\<in>set xs. c \<in> set x) \<or> c \<in> set sep"
  by (induction xs sep rule: Join.induct) auto

lemma Join_last: "xs \<noteq> [] \<Longrightarrow> last xs \<noteq> [] \<Longrightarrow> Join xs sep \<noteq> [] \<and> last (Join xs sep) = last (last xs)"
  by (induction xs sep rule: Join.induct) auto

lemma hex_last:
  assumes "d \<noteq> []"
  shows "Join (hexBytes d) '' '' \<noteq> []" "last (Join (hexBytes d) '' '') \<notin> {newline, carriage}"
proof -
  have l: "hexBytes d \<noteq> []" "last (hexBytes d) \<in> set (hexBytes d)"
    using assms by (simp_all add: hexBytes_def last_map)
  then have n: "last (hexBytes d) \<noteq> []" using hexBytes_ne by blast
  have "alnum (last (last (hexBytes d)))"
    using hexBytes_alnum [of d] last_in_set [OF n] l(2) by (simp add: list_all_iff)
  then show "Join (hexBytes d) '' '' \<noteq> []" "last (Join (hexBytes d) '' '') \<notin> {newline, carriage}"
    using Join_last [OF l(1) n, of "'' ''"] alnum_not_space by auto
qed

lemma digits_last: "last (Itoa y) \<notin> {newline, carriage}"
  using Itoa_chars [of "last (Itoa y)" y] by (auto simp: is_digit_def newline_def carriage_def)

lemma command_line_last:
  assumes "command_line tgt l"
  shows "l \<noteq> [] \<and> last l \<notin> {newline, carriage}"
  using assms hex_last digits_last
  by (auto simp: command_line_def resume_line_def newline_def carriage_def)

lemma command_only:
  assumes "only_commands c" and "command_line (target c) l"
  shows "only_commands (snd (command l c))"
proof -
  have t: "TrimRight l [carriage, newline] = l"
    using command_line_last [OF assms(2)] by (intro TrimRight_id) auto
  obtain ls where ls: "stdin c = concat (map (\<lambda>l. l @ [newline]) ls)" "list_all (command_line (target c)) ls"
    using assms(1) by (auto simp: only_commands_def)
  then have "stdin c @ l @ [newline] = concat (map (\<lambda>l. l @ [newline]) (ls @ [l]))
      \<and> list_all (command_line (target c)) (ls @ [l])"
    using assms(2) by simp
  then have "only_commands (c\<lparr>stdin := stdin c @ l @ [newline]\<rparr>)"
    unfolding only_commands_def by (intro exI [of _ "ls @ [l]"]) simp
  then show ?thesis using assms(1) by (auto simp: command_def t Let_def)
qed

lemma only_commands_upd [simp]:
  "only_commands (c\<lparr>inBlock := b\<rparr>) = only_commands c" "only_commands (c\<lparr>reading := b\<rparr>) = only_commands c"
  "only_commands (c\<lparr>out_closed := b\<rparr>) = only_commands c" "only_commands (c\<lparr>out_q := q\<rparr>) = only_commands c"
  "only_commands (c\<lparr>taken := q\<rparr>) = only_commands c" "only_commands (c\<lparr>closed := b\<rparr>) = only_commands c"
  "only_commands (c\<lparr>stdin_ok := b\<rparr>) = only_commands c" "only_commands (emit d c) = only_commands c"
  by (simp_all add: only_commands_def emit_def)

lemma read_line_only: "only_commands c \<Longrightarrow> only_commands (read_line l c)"
  using command_only [of c resume_line]
  by (simp add: read_line_def command_line_def resume_line_def split: option.split)

lemma command_lineI:
  "d \<noteq> [] \<Longrightarrow> length d \<le> maxInput \<Longrightarrow> command_line tgt (''send-keys -H -t '' @ tgt @ '' '' @ Join (hexBytes d) '' '')"
  "0 < x \<Longrightarrow> 0 < y \<Longrightarrow> command_line tgt (''refresh-client -C '' @ Itoa x @ ''x'' @ Itoa y)"
  "command_line tgt ''refresh-client -f pause-after=3''"
  by (auto simp: command_line_def)

lemma Send_only: "only_commands c \<Longrightarrow> only_commands (snd (Send d c))"
  using command_only [OF _ command_lineI(1)] by (simp add: Send_def)

lemma Resize_only: "only_commands c \<Longrightarrow> only_commands (snd (Resize x y c))"
  using command_only [OF _ command_lineI(2)] by (simp add: Resize_def)

interpretation commands: machine client_step "\<lambda>_. True" only_commands
proof
  fix c e assume "only_commands c"
  then show "only_commands (client_step c e)"
    by (cases e) (simp_all add: read_line_only Send_only Resize_only Close_client_def split: list.split)
qed

lemma client_step_target: "target (client_step c e) = target c"
  by (cases e) (auto simp: read_line_frame Close_client_def split: list.split)

lemma run_target: "target (run client_step c es) = target c"
  by (induction es arbitrary: c) (simp_all add: client_step_target)

lemma pause_line: "''refresh-client -f pause-after='' @ Itoa pauseAfter = ''refresh-client -f pause-after=3''"
  by (simp add: pauseAfter_def Itoa_def digits10.simps char_of_eq_iff)

lemma Attach_start:
  assumes "Attach started session x y = Inr c"
  shows "reading c" "\<not> inBlock c" "carried c = []" "target c = paneTarget session" "only_commands c"
proof -
  let ?c = "\<lparr>target = paneTarget session, closed = False, stdin_ok = True, stdin = [],
     inBlock = False, reading = True, out_q = [], out_closed = False, taken = []\<rparr>"
  have "only_commands ?c" by (auto simp: only_commands_def intro: exI [of _ "[]"])
  then show "only_commands c"
    using assms command_only [OF _ command_lineI(3), of ?c] Resize_only [of ?c x y]
      command_only [OF _ command_lineI(3), of "snd (Resize x y ?c)"]
    by (auto simp: Attach_def Let_def pause_line [simplified] split: if_splits)
  show "reading c" "\<not> inBlock c" "carried c = []" "target c = paneTarget session"
    using assms by (auto simp: Attach_def Let_def carried_def split: if_splits)
qed

lemma command_line_words:
  assumes "CHR '' '' \<notin> set tgt" "d \<noteq> []"
  shows "Split (''send-keys -H -t '' @ tgt @ '' '' @ Join (hexBytes d) '' '') CHR '' ''
    = [''send-keys'', ''-H'', ''-t'', tgt] @ hexBytes d"
proof -
  have j: "Split (Join xs '' '') CHR '' '' = xs" if "xs \<noteq> []" "\<forall>x\<in>set xs. CHR '' '' \<notin> set x" for xs
    using that
  proof (induction xs "'' ''" rule: Join.induct)
    case (3 a b bs)
    then show ?case using Split_append [of "CHR '' ''" a] by simp
  qed (simp_all add: Split_none)
  have "\<forall>x\<in>set (hexBytes d). CHR '' '' \<notin> set x"
    using hexBytes_alnum [of d] alnum_not_space by (auto simp: list_all_iff)
  with assms(2) have "Split (Join (hexBytes d) '' '') CHR '' '' = hexBytes d"
    by (intro j) (simp_all add: hexBytes_def)
  then show ?thesis using Split_append [OF assms(1), of "Join (hexBytes d) '' ''"] by simp
qed

lemma hexBytes_decode: "map hex_DecodeString (hexBytes d) = map (\<lambda>b. Some [b]) d"
  by (simp add: hexBytes_def hex_decode_encode)

lemma command_line_newline:
  assumes "newline \<notin> set tgt" "command_line tgt l"
  shows "newline \<notin> set l"
proof -
  have h: "newline \<notin> set (Join (hexBytes d) '' '')" for d
    using Join_chars [of newline "hexBytes d" "'' ''"] hexBytes_alnum [of d] alnum_not_space
    by (auto simp: list_all_iff newline_def)
  have "newline \<notin> set (Itoa x)" for x
    by (simp add: is_digit_def newline_def)
  with assms h show ?thesis by (auto simp: command_line_def resume_line_def newline_def)
qed

lemma Split_lines:
  "list_all (\<lambda>l. c \<notin> set l) ls \<Longrightarrow> Split (concat (map (\<lambda>l. l @ [c]) ls)) c = ls @ [[]]"
  by (induction ls) (simp_all add: Split_append)

lemma safeKeyName_iff:
  "safeKeyName key \<longleftrightarrow> key \<noteq> [] \<and> length key \<le> 24 \<and> hd key \<noteq> CHR ''-'' \<and>
     list_all (\<lambda>c. alnum c \<or> c \<in> set ''-_'') key"
proof -
  let ?P = "\<lambda>r. (r \<ge> 97 \<and> r \<le> 122) \<or> (r \<ge> 65 \<and> r \<le> 90) \<or> (r \<ge> 48 \<and> r \<le> 57) \<or> r = 45 \<or> r = (95::nat)"
  have "?P (byte_val c) = (alnum c \<or> c \<in> set ''-_'')" for c
    using byte_val_inj [of c "CHR ''-''"] byte_val_inj [of c "CHR ''_''"] by (auto simp: alnum_def Let_def)
  moreover have "list_all ?P (runes key) = list_all (\<lambda>c. ?P (byte_val c)) key"
    by (rule runes_filter) auto
  ultimately show ?thesis by (auto simp: safeKeyName_def)
qed

text \<open>The listing \<open>SessionFor\<close> asks for: one session and its tag a line.\<close>

definition tag_listing :: "(bytes \<times> bytes) list \<Rightarrow> bytes" where
  "tag_listing rows = concat (map (\<lambda>l. l @ [newline]) (map (\<lambda>(n, i). n @ tab # i) rows))"

definition tag_row :: "bytes \<times> bytes \<Rightarrow> bool" where
  "tag_row r = (fst r \<noteq> [] \<and> tab \<notin> set (fst r) \<and> newline \<notin> set (fst r) \<and>
     newline \<notin> set (snd r) \<and> carriage \<notin> set (snd r))"

lemma tagged_name_rows:
  "list_all tag_row rows \<Longrightarrow> tagged_name covibeID (map (\<lambda>(n, i). n @ tab # i) rows @ [[]])
     = map_option fst (find (\<lambda>(n, i). i = covibeID) rows)"
proof (induction rows)
  case Nil
  then show ?case by (simp add: Cut_def TrimRight_def)
next
  case (Cons r rows)
  obtain n i where r: "r = (n, i)" by (cases r)
  have "last (n @ tab # i) \<notin> set [carriage]"
    using Cons.prems last_in_set [of i]
    by (cases "i = []") (auto simp: tag_row_def r tab_def carriage_def simp del: last_in_set)
  then have "TrimRight (n @ tab # i) [carriage] = n @ tab # i" by (intro TrimRight_id) simp
  then show ?case using Cons by (auto simp: r tag_row_def)
qed

lemma tag_listing_lines:
  "list_all tag_row rows \<Longrightarrow> Split (tag_listing rows) newline = map (\<lambda>(n, i). n @ tab # i) rows @ [[]]"
  unfolding tag_listing_def
  by (rule Split_lines) (auto simp: list_all_iff tag_row_def newline_def tab_def)

section \<open>Properties\<close>


definition sample_events :: "client_event list" where
  "sample_events = [LineRead ''%begin 1 2 3'', SendCalled ''l'', LineRead ''%output %0 forged'',
     LineRead ''%end 1 2 3'', LineRead (''%output %0 a'' @ [backslash] @ ''015''), Received,
     LineRead ''%extended-output %0 12 : b''  ]"


text \<open>Nobody types commands into tmux. Whatever bytes are sent, whatever sizes are asked for
  and whatever tmux answers, the lines written to the command pipe are only the four commands
  of the client, each on one line: keystrokes appear in them as hexadecimal byte values
  alone.\<close>

theorem pipe_holds_only_commands:
  assumes "Attach started session x y = Inr c" and "newline \<notin> set session"
  shows "\<exists>ls. Split (stdin (run client_step c es)) newline = ls @ [[]] \<and>
    list_all (command_line (paneTarget session)) ls"
proof -
  let ?c = "run client_step c es"
  have t: "target ?c = paneTarget session" using Attach_start(4) [OF assms(1)] by (simp add: run_target)
  have "only_commands ?c"
    using commands.run_inv [OF Attach_start(5) [OF assms(1)]] by (simp add: list_all_iff)
  then obtain ls where ls: "stdin ?c = concat (map (\<lambda>l. l @ [newline]) ls)"
    "list_all (command_line (paneTarget session)) ls"
    by (auto simp: only_commands_def t)
  have "newline \<notin> set (paneTarget session)" using assms(2) by (simp add: paneTarget_def newline_def)
  with ls(2) have "list_all (\<lambda>l. newline \<notin> set l) ls"
    by (auto simp: list_all_iff dest: command_line_newline)
  then show ?thesis using ls Split_lines by metis
qed

theorem pipe_holds_only_commands_witness:
  "\<exists>c ls. Attach True ''s'' 0 0 = Inr c \<and>
     Split (stdin (run client_step c [SendCalled (''x'' @ [newline] @ ''kill-server'' @ [newline])])) newline = ls @ [[]]"
proof -
  obtain c where c: "Attach True ''s'' 0 0 = Inr c" by (simp add: Attach_def Let_def)
  have "newline \<notin> set ''s''" by (simp add: newline_def)
  then show ?thesis
    using pipe_holds_only_commands [OF c, of "[SendCalled (''x'' @ [newline] @ ''kill-server'' @ [newline])]"] c
    by blast
qed

text \<open>Keystrokes survive both ways into the pane. The words of the command line \<open>Send\<close> writes,
  and the arguments \<open>SendKeys\<close> passes, are \<open>send-keys -H -t\<close>, the target, and one word per byte
  that decodes to exactly that byte, for all 256 values; oversized input is refused whole.\<close>

theorem keystrokes_arrive:
  assumes "CHR '' '' \<notin> set (target c)" and "d \<noteq> []" and "length d \<le> maxInput"
    and "\<not> closed c" and "stdin_ok c"
  shows "\<exists>line ws. stdin (snd (Send d c)) = stdin c @ line @ [newline] \<and>
    Split line CHR '' '' = [''send-keys'', ''-H'', ''-t'', target c] @ ws \<and>
    SendKeys tmux s session d = failed (tmux (argv s ([''send-keys'', ''-H'', ''-t'', paneTarget session] @ ws))) \<and>
    map hex_DecodeString ws = map (\<lambda>b. Some [b]) d"
proof (intro exI conjI)
  let ?line = "''send-keys -H -t '' @ target c @ '' '' @ Join (hexBytes d) '' ''"
  have "TrimRight ?line [carriage, newline] = ?line"
    using command_line_last [OF command_lineI(1), of d "target c"] assms(2,3) by (intro TrimRight_id) auto
  then show "stdin (snd (Send d c)) = stdin c @ ?line @ [newline]"
    using assms by (simp add: Send_def command_def)
  show "Split ?line CHR '' '' = [''send-keys'', ''-H'', ''-t'', target c] @ hexBytes d"
    by (rule command_line_words [OF assms(1,2)])
  show "SendKeys tmux s session d =
      failed (tmux (argv s ([''send-keys'', ''-H'', ''-t'', paneTarget session] @ hexBytes d)))"
    using assms(2,3) by (simp add: SendKeys_def run_tmux_def)
  show "map hex_DecodeString (hexBytes d) = map (\<lambda>b. Some [b]) d" by (rule hexBytes_decode)
qed

theorem keystrokes_arrive_witness:
  "\<exists>c line x y. Attach True ''s'' 0 0 = Inr c \<and> stdin (snd (Send [CHR 0x1B, CHR 0xFF] c)) = stdin c @ line @ [newline] \<and>
    Split line CHR '' '' = [''send-keys'', ''-H'', ''-t'', target c, x, y] \<and>
    hex_DecodeString x = Some [CHR 0x1B] \<and> hex_DecodeString y = Some [CHR 0xFF]"
proof -
  obtain c where c: "Attach True ''s'' 0 0 = Inr c" by (simp add: Attach_def Let_def)
  then have h: "CHR '' '' \<notin> set (target c)" "\<not> closed c" "stdin_ok c"
    by (auto simp: Attach_def paneTarget_def Let_def)
  show ?thesis
    using keystrokes_arrive [OF h(1) _ _ h(2,3), of "[CHR 0x1B, CHR 0xFF]" "\<lambda>_. None"
        "\<lparr>Socket = [], Bin = []\<rparr>" "''s''"] c
    by (auto simp: maxInput_def)
qed

text \<open>A key name is one harmless word. Only nonempty names of at most 24 characters out of
  letters, digits, \<open>-\<close> and \<open>_\<close>, not starting with a dash, ever reach tmux, so none can be
  read as an option, a second argument or a second command; every other name is refused before
  tmux runs.\<close>

theorem named_key_is_one_word:
  "SendNamedKey tmux s session key =
    (if key \<noteq> [] \<and> length key \<le> 24 \<and> hd key \<noteq> CHR ''-'' \<and> list_all (\<lambda>c. alnum c \<or> c \<in> set ''-_'') key
     then failed (tmux (argv s [''send-keys'', ''-t'', paneTarget session, key]))
     else Some (InvalidKeyName key))"
  by (simp add: SendNamedKey_def safeKeyName_iff run_tmux_def)

text \<open>A renamed session is still found. If tmux lists the sessions with their tags, one per
  line, and exactly the session \<open>n\<close> carries the wanted id, then \<open>SessionFor\<close> answers \<open>n\<close>,
  whatever the session was called when it was created; with no such tag, or no tmux, it answers
  the name it was given.\<close>

theorem session_found_by_tag:
  assumes "tmux (argv s [''list-sessions'', ''-F'', ''#{session_name}'' @ [tab] @ ''#{@covibe_id}'']) = Some (tag_listing rows)"
    and "covibeID \<noteq> []" and "list_all tag_row rows"
  shows "SessionFor tmux s covibeID want =
    (case find (\<lambda>(n, i). i = covibeID) rows of Some (n, _) \<Rightarrow> n | None \<Rightarrow> want)"
  using assms(1,2)
  by (auto simp: SessionFor_def run_tmux_def IDOption_def tag_listing_lines [OF assms(3)]
      tagged_name_rows [OF assms(3)] split: option.split)

theorem session_found_by_tag_witness:
  "SessionFor (\<lambda>_. Some (tag_listing [(''other'', []), (''renamed'', ''ab12'')])) \<lparr>Socket = ''/run/t'', Bin = []\<rparr>
     ''ab12'' ''covibe-ab12'' = ''renamed''"
  using session_found_by_tag [of "\<lambda>_. Some (tag_listing [(''other'', []), (''renamed'', ''ab12'')])"
      "\<lparr>Socket = ''/run/t'', Bin = []\<rparr>" "[(''other'', []), (''renamed'', ''ab12'')]" "''ab12''" "''covibe-ab12''"]
  by (simp add: tag_row_def tab_def newline_def carriage_def)

end
