(* ===== verification/Server.thy ===== *)
theory Server
  imports Auth Spool Tmuxctl
begin

text \<open>
  The dashboard's requests (\<open>dashboard/server.go\<close>, \<open>users.go\<close>, \<open>remote.go\<close>, \<open>create.go\<close>,
  \<open>killed.go\<close>): who the caller is and may do, listing and showing sessions, killing them, the
  wrappers' registrations and heartbeats, member lists, and creation. A handler takes the
  request's decoded parts and what the outside answers while it runs, and gives back its reply
  and the server's state; signals, tmux kills, dropped terminal hosts and launches are recorded
  as effects in order.
\<close>

section \<open>State\<close>

record config =
  auth_cfg :: oidc_config
  api_key_set :: api_keys
  keep_ended :: nanos
  max_sessions :: int
  workspace_root :: bytes
  create_enabled :: bool

record create_spec =
  csID :: bytes
  csName :: bytes
  csDir :: bytes
  csModel :: bytes
  csThinking :: bytes
  csOwner :: bytes

datatype effect = Sigterm int | KillTmux bytes bytes | DropTermHost bytes | Launched create_spec

record server =
  files :: spool
  acls :: store
  killed :: "bytes \<rightharpoonup> nanos"
  term_hosts :: "bytes \<Rightarrow> bool"     \<comment> \<open>sessions with a connected terminal host\<close>
  effects :: "effect list"

text \<open>What a request meets outside: the file system and clock (\<open>sys\<close>), tmux, the relay, the
  outcome of writing the access file, the random bytes of a fresh id, the working directory, and
  whether making the directory and launching succeed. \<open>acl_order\<close> is the order of a range over
  the access lists.\<close>

record outside =
  sys :: env
  tmux_cmd :: tmux_exec
  room_live :: "bytes \<Rightarrow> bool"
  acl_write :: "access_error option"
  acl_order :: "bytes list"
  random8 :: bytes
  work_dir :: bytes
  mkdir_ok :: bool
  launch_ok :: bool

abbreviation time :: "outside \<Rightarrow> nanos" where "time w \<equiv> now (sys w)"

section \<open>Callers\<close>

record caller =
  c_id :: identity
  c_machine :: bool
  c_user :: bytes
  c_admin :: bool
  c_principals :: "bytes list"

definition nobody :: caller where
  "nobody = \<lparr>c_id = zero_identity, c_machine = False, c_user = [], c_admin = False, c_principals = []\<rparr>"

definition newCaller :: "(nat \<Rightarrow> nat) \<Rightarrow> (bytes \<Rightarrow> bytes) \<Rightarrow> config \<Rightarrow> bytes \<Rightarrow> identity option \<Rightarrow> caller" where
  "newCaller ul sha cfg token cur = (case Lookup sha token (api_key_set cfg) of
     (u, True) \<Rightarrow>
       if u = [] then nobody\<lparr>c_machine := True, c_admin := True\<rparr>
       else nobody\<lparr>c_machine := True, c_user := u, c_admin := adminHandle ul (auth_cfg cfg) [u], c_principals := [u]\<rparr>
   | (_, False) \<Rightarrow> (case cur of
         None \<Rightarrow> nobody
       | Some i \<Rightarrow> nobody\<lparr>c_id := i, c_admin := IsAdmin ul (auth_cfg cfg) i, c_principals := principals ul i\<rparr>))"

definition caller_key :: "(nat \<Rightarrow> nat) \<Rightarrow> caller \<Rightarrow> bytes" where
  "caller_key ul c = (if c_user c \<noteq> [] then c_user c else if c_machine c then []
     else let k = Key ul (idEmail (c_id c)) in if k \<noteq> [] then k else TrimSpace (idSub (c_id c)))"

definition canSee :: "caller \<Rightarrow> acl \<Rightarrow> bool" where
  "canSee c a = (c_admin c \<or> Allows a (c_principals c))"

definition canManage :: "caller \<Rightarrow> acl \<Rightarrow> bool" where
  "canManage c a = (if c_admin c then True else if owner a = [] then False
     else list_ex (\<lambda>p. p = owner a) (c_principals c))"

definition canWrite :: "server \<Rightarrow> rec \<Rightarrow> caller \<Rightarrow> bool" where
  "canWrite s r c = (if \<not> rViewOnly r then True else canManage c (ACL (acls s) (rID r)))"

text \<open>The gate of the machine-facing API: throttled, through with a caller, or turned away.\<close>

datatype api_gate = Throttled | Through caller | Refused

definition requireAPI :: "nanos \<Rightarrow> bytes \<Rightarrow> caller \<Rightarrow> failLimiter \<Rightarrow> api_gate \<times> failLimiter" where
  "requireAPI t ip c l = (case blocked t ip l of
     (True, l1) \<Rightarrow> (Throttled, l1)
   | (False, l1) \<Rightarrow> if c_machine c \<or> c_principals c \<noteq> [] then (Through c, l1) else (Refused, fail t ip l1))"

section \<open>The tombstones\<close>

definition killedTTL :: nanos where "killedTTL = seconds (10 * 60)"

definition bury :: "nanos \<Rightarrow> bytes \<Rightarrow> (bytes \<rightharpoonup> nanos) \<Rightarrow> bytes \<rightharpoonup> nanos" where
  "bury t key k = (if key \<noteq> [] then k(key \<mapsto> t) else k)"

definition remember :: "nanos \<Rightarrow> bytes list \<Rightarrow> (bytes \<rightharpoonup> nanos) \<Rightarrow> bytes \<rightharpoonup> nanos" where
  "remember t ks k = foldl (\<lambda>k key. bury t key k)
     (\<lambda>key. case k key of None \<Rightarrow> None | Some at \<Rightarrow> if t - at > killedTTL then None else Some at) ks"

definition was_killed :: "nanos \<Rightarrow> bytes \<Rightarrow> (bytes \<rightharpoonup> nanos) \<Rightarrow> bool \<times> (bytes \<rightharpoonup> nanos)" where
  "was_killed t key k = (if key = [] then (False, k) else case k key of
     None \<Rightarrow> (False, k)
   | Some at \<Rightarrow> if t - at > killedTTL then (False, k(key := None)) else (True, k))"

section \<open>Replies\<close>

record sessionView =
  vID :: bytes
  vName :: bytes
  vDir :: bytes
  vHost :: bytes
  vStatus :: bytes
  vMuxSession :: bytes
  vModel :: bytes
  vThinking :: bytes
  vJoinLink :: bytes
  vBrowserURL :: bytes
  vViewOnly :: bool
  vRoom :: bytes
  vStartedAt :: nanos
  vOwner :: bytes
  vMembers :: "(bytes \<times> bytes) list"
  vCanManage :: bool
  vHasTerminal :: bool
  vCanWrite :: bool

record userView =
  uvKey :: bytes
  uvLabel :: bytes
  uvEmail :: bytes
  uvName :: bytes
  uvAdmin :: bool
  uvInvited :: bool
  uvLastSeen :: nanos

datatype payload = View sessionView | Views "sessionView list" | Killed bytes | Registered bytes | Stop bool
  | Member bytes bytes | Removed | Directory "userView list" | Created bytes bytes bytes bytes bytes
  | Typed | Screen bytes bytes | Cells "(bytes \<times> bytes list) list list"

datatype reply = Fail nat bytes | Reply nat payload

definition no_such_session :: reply where "no_such_session = Fail 404 ''no such session''"

section \<open>Finding and showing sessions\<close>

definition liveRecord :: "config \<Rightarrow> outside \<Rightarrow> bytes \<Rightarrow> server \<Rightarrow> rec option \<times> server" where
  "liveRecord cfg w i s = (case Live (sys w) (keep_ended cfg) (files s) of
     (None, f) \<Rightarrow> (None, s\<lparr>files := f\<rparr>)
   | (Some rs, f) \<Rightarrow> (find (\<lambda>r. rID r = i) rs, s\<lparr>files := f\<rparr>))"

definition visibleRecord :: "config \<Rightarrow> outside \<Rightarrow> caller \<Rightarrow> bytes \<Rightarrow> server \<Rightarrow> rec option \<times> server" where
  "visibleRecord cfg w c i s = (case liveRecord cfg w i s of
     (None, s1) \<Rightarrow> (None, s1)
   | (Some r, s1) \<Rightarrow> if \<not> canSee c (ACL (acls s1) (rID r)) then (None, s1) else (Some r, s1))"

definition terminalServer :: "rec \<Rightarrow> tmux_server option" where
  "terminalServer r = (if rRemote r \<or> rMuxSocket r = [] \<or> rMuxSession r = [] then None
     else Some \<lparr>Socket = rMuxSocket r, Bin = []\<rparr>)"

definition tmuxTarget :: "outside \<Rightarrow> tmux_server \<Rightarrow> rec \<Rightarrow> bytes" where
  "tmuxTarget w srv r = SessionFor (tmux_cmd w) srv (rID r) (rMuxSession r)"

definition user_label :: "(nat \<Rightarrow> nat) \<Rightarrow> server \<Rightarrow> bytes \<Rightarrow> bytes" where
  "user_label ul s h = (case Lookup_user ul h (acls s) of Some u \<Rightarrow> Label u | None \<Rightarrow> h)"

definition viewOf :: "(nat \<Rightarrow> nat) \<Rightarrow> outside \<Rightarrow> server \<Rightarrow> rec \<Rightarrow> caller \<Rightarrow> sessionView" where
  "viewOf ul w s r c = (let
     on_air = rStatus r \<noteq> StatusEnded \<and> rRoomID r \<noteq> [] \<and> room_live w (rRoomID r);
     a = ACL (acls s) (rID r);
     has_term = rStatus r \<noteq> StatusEnded \<and> (terminalServer r \<noteq> None \<or> rRemote r \<and> term_hosts s (rID r))
   in \<lparr>vID = rID r, vName = rName r, vDir = rDir r, vHost = rHost r,
       vStatus = (if on_air then StatusLive else rStatus r), vMuxSession = rMuxSession r,
       vModel = rModel r, vThinking = rThinking r,
       vJoinLink = (if on_air then rJoinLink r else []),
       vBrowserURL = (if on_air then rBrowserURL r else []),
       vViewOnly = rViewOnly r, vRoom = rRoomID r, vStartedAt = rStartedAt r,
       vOwner = (if owner a \<noteq> [] then user_label ul s (owner a) else []),
       vMembers = map (\<lambda>m. (uKey m, Label m)) (Members_of (acls s) (rID r)),
       vCanManage = canManage c a, vHasTerminal = has_term, vCanWrite = (has_term \<and> canWrite s r c)\<rparr>)"

definition aclGrace :: nanos where "aclGrace = seconds (30 * 24 * 60 * 60)"

definition handleList :: "(nat \<Rightarrow> nat) \<Rightarrow> config \<Rightarrow> outside \<Rightarrow> caller \<Rightarrow> server \<Rightarrow> reply \<times> server" where
  "handleList ul cfg w c s = (case Live (sys w) (keep_ended cfg) (files s) of
     (None, f) \<Rightarrow> (Fail 500 ''read failed'', s\<lparr>files := f\<rparr>)
   | (Some rs, f) \<Rightarrow>
       let s1 = s\<lparr>files := f, acls := Prune (acl_write w) (\<lambda>i. list_ex (\<lambda>r. rID r = i) rs) (time w) aclGrace (acl_order w) (acls s)\<rparr>
       in (Reply 200 (Views (map (\<lambda>r. viewOf ul w s1 r c) (filter (\<lambda>r. canSee c (ACL (acls s1) (rID r))) rs))), s1))"

definition handleGetOne :: "(nat \<Rightarrow> nat) \<Rightarrow> config \<Rightarrow> outside \<Rightarrow> caller \<Rightarrow> bytes \<Rightarrow> server \<Rightarrow> reply \<times> server" where
  "handleGetOne ul cfg w c i s = (case visibleRecord cfg w c i s of
     (None, s1) \<Rightarrow> (no_such_session, s1) | (Some r, s1) \<Rightarrow> (Reply 200 (View (viewOf ul w s1 r c)), s1))"

section \<open>Killing\<close>

definition effect :: "effect \<Rightarrow> server \<Rightarrow> server" where
  "effect f s = s\<lparr>effects := effects s @ [f]\<rparr>"

definition dropTermHost :: "bytes \<Rightarrow> server \<Rightarrow> server" where
  "dropTermHost i s = (if term_hosts s i then effect (DropTermHost i) (s\<lparr>term_hosts := (term_hosts s)(i := False)\<rparr>) else s)"

definition stop_process :: "outside \<Rightarrow> rec \<Rightarrow> server \<Rightarrow> server" where
  "stop_process w r s = (if rRemote r then s
     else let s1 = (if rPID r > 0 then effect (Sigterm (rPID r)) s else s);
              target = (case terminalServer r of Some srv \<Rightarrow> tmuxTarget w srv r | None \<Rightarrow> rMuxSession r)
          in if target = [] then s1 else effect (KillTmux (rMuxSocket r) target) s1)"

definition kill_record :: "outside \<Rightarrow> rec \<Rightarrow> server \<Rightarrow> server" where
  "kill_record w r s = (let
     s1 = stop_process w r s;
     s2 = s1\<lparr>killed := remember (time w) [rID r, rRoomID r] (killed s1)\<rparr>;
     s3 = dropTermHost (rID r) s2
   in s3\<lparr>files := snd (Save (sys w) (r\<lparr>rStatus := StatusEnded\<rparr>) (files s3))\<rparr>)"

definition handleKill :: "config \<Rightarrow> outside \<Rightarrow> caller \<Rightarrow> bytes \<Rightarrow> server \<Rightarrow> reply \<times> server" where
  "handleKill cfg w c i s = (case liveRecord cfg w i s of
     (None, s1) \<Rightarrow> (no_such_session, s1)
   | (Some r, s1) \<Rightarrow>
       let a = ACL (acls s1) (rID r) in
       if \<not> canSee c a then (no_such_session, s1)
       else if \<not> canManage c a then (Fail 403 ''not your session'', s1)
       else (Reply 200 (Killed (rID r)), kill_record w r s1))"

section \<open>Wrappers on other machines\<close>

definition sessionIDForRoom :: "(bytes \<Rightarrow> bytes) \<Rightarrow> bytes \<Rightarrow> bytes" where
  "sessionIDForRoom sha room = ''covibe-'' @ EncodeToString (take 8 (sha room))"

definition newSessionID :: "outside \<Rightarrow> bytes" where
  "newSessionID w = ''covibe-'' @ EncodeToString (random8 w)"

definition over_limit :: "config \<Rightarrow> outside \<Rightarrow> server \<Rightarrow> bool \<times> server" where
  "over_limit cfg w s = (if max_sessions cfg > 0
     then case Live (sys w) (keep_ended cfg) (files s) of
       (rs, f) \<Rightarrow> (int (case rs of None \<Rightarrow> 0 | Some l \<Rightarrow> length l) \<ge> max_sessions cfg, s\<lparr>files := f\<rparr>)
     else (False, s))"

definition register_refusal :: "RegisterRequest \<Rightarrow> reply option" where
  "register_refusal q = (
     if \<not> validateName (TrimSpace (qName q)) then Some (Fail 400 ''invalid name'')
     else if qModel q \<noteq> [] \<and> \<not> safeModel (qModel q) then Some (Fail 400 ''invalid model'')
     else if qThinking q \<noteq> [] \<and> qThinking q \<notin> set thinkingLevels then Some (Fail 400 ''invalid thinking level'')
     else if qRoomID q \<noteq> [] \<and> \<not> safeRoomID (qRoomID q) then Some (Fail 400 ''invalid room id'')
     else None)"

definition minted :: "(bytes \<Rightarrow> bytes) \<Rightarrow> outside \<Rightarrow> RegisterRequest \<Rightarrow> bytes" where
  "minted sha w q = (if qRoomID q \<noteq> [] then sessionIDForRoom sha (qRoomID q) else newSessionID w)"

definition registered :: "bytes \<Rightarrow> nanos \<Rightarrow> RegisterRequest \<Rightarrow> rec" where
  "registered i started q = \<lparr>rID = i, rName = TrimSpace (qName q), rDir = clip (qDir q) 256, rMuxSession = [],
     rMuxSocket = [], rMuxTab = [], rModel = qModel q, rThinking = qThinking q, rPID = 0,
     rStatus = StatusStarting, rRelay = clip (qRelay q) 256, rJoinLink = clip (qJoinLink q) 512,
     rBrowserURL = clip (qBrowserURL q) 512, rViewOnly = qViewOnly q, rRoomID = qRoomID q,
     rStartedAt = started, rUpdatedAt = 0, rRemote = True, rHost = clip (qHost q) 64\<rparr>"

definition register_save :: "(nat \<Rightarrow> nat) \<Rightarrow> outside \<Rightarrow> caller \<Rightarrow> rec \<Rightarrow> server \<Rightarrow> reply \<times> server" where
  "register_save ul w c r s = (case Save (sys w) r (files s) of
     (Some _, f) \<Rightarrow> (Fail 500 ''register failed'', s\<lparr>files := f\<rparr>)
   | (None, f) \<Rightarrow> (Reply 201 (Registered (rID r)),
       if c_user c \<noteq> [] then s\<lparr>files := f, acls := snd (SetOwner ul (acl_write w) (time w) (rID r) (c_user c) (acls s))\<rparr>
       else s\<lparr>files := f\<rparr>))"

definition handleRegister :: "(nat \<Rightarrow> nat) \<Rightarrow> (bytes \<Rightarrow> bytes) \<Rightarrow> config \<Rightarrow> outside \<Rightarrow> caller \<Rightarrow> RegisterRequest option \<Rightarrow> server \<Rightarrow> reply \<times> server" where
  "handleRegister ul sha cfg w c body s = (case body of
     None \<Rightarrow> (Fail 400 ''invalid JSON body'', s)
   | Some q \<Rightarrow>
       let (dead, k) = was_killed (time w) (qRoomID q) (killed s); s = s\<lparr>killed := k\<rparr>
       in if dead then (Fail 410 ''session was killed'', s)
       else case register_refusal q of Some rep \<Rightarrow> (rep, s)
       | None \<Rightarrow>
         let i = minted sha w q; existing = Load i (files s);
             started = (case existing of Some r \<Rightarrow> if rStartedAt r \<noteq> 0 then rStartedAt r else time w | None \<Rightarrow> time w);
             (full, s) = (if existing = None then over_limit cfg w s else (False, s))
         in if full then (Fail 429 ''session limit reached'', s)
            else register_save ul w c (registered i started q) s)"

text \<open>A heartbeat in two steps: the record is read and checked, then (once the request's body has
  been read, however slowly the wrapper sends it) written back.\<close>

definition pane_begin :: "outside \<Rightarrow> bytes \<Rightarrow> server \<Rightarrow> (reply + rec) \<times> server" where
  "pane_begin w i s = (case Load i (files s) of
     Some r \<Rightarrow>
       if rRemote r then (if rStatus r = StatusEnded then (Inl (Reply 200 (Stop True)), s) else (Inr r, s))
       else (case was_killed (time w) i (killed s) of
           (True, k) \<Rightarrow> (Inl (Reply 200 (Stop True)), s\<lparr>killed := k\<rparr>)
         | (False, k) \<Rightarrow> (Inl (Fail 404 ''no such remote session''), s\<lparr>killed := k\<rparr>))
   | None \<Rightarrow> (case was_killed (time w) i (killed s) of
           (True, k) \<Rightarrow> (Inl (Reply 200 (Stop True)), s\<lparr>killed := k\<rparr>)
         | (False, k) \<Rightarrow> (Inl (Fail 404 ''no such remote session''), s\<lparr>killed := k\<rparr>)))"

definition pane_finish :: "outside \<Rightarrow> bool \<Rightarrow> rec \<Rightarrow> server \<Rightarrow> reply \<times> server" where
  "pane_finish w body_ok r s = (if \<not> body_ok then (Fail 400 ''read body'', s)
     else case Save (sys w) r (files s) of
       (Some _, f) \<Rightarrow> (Fail 500 ''heartbeat failed'', s\<lparr>files := f\<rparr>)
     | (None, f) \<Rightarrow> (Reply 200 (Stop False), s\<lparr>files := f\<rparr>))"

definition handleRemotePane :: "outside \<Rightarrow> bool \<Rightarrow> bytes \<Rightarrow> server \<Rightarrow> reply \<times> server" where
  "handleRemotePane w body_ok i s = (case pane_begin w i s of
     (Inl rep, s1) \<Rightarrow> (rep, s1) | (Inr r, s1) \<Rightarrow> pane_finish w body_ok r s1)"

section \<open>Members\<close>

definition manageable :: "config \<Rightarrow> outside \<Rightarrow> caller \<Rightarrow> bytes \<Rightarrow> server \<Rightarrow> (reply + bytes) \<times> server" where
  "manageable cfg w c i s = (case liveRecord cfg w i s of
     (None, s1) \<Rightarrow> (Inl no_such_session, s1)
   | (Some r, s1) \<Rightarrow>
       let a = ACL (acls s1) (rID r) in
       if \<not> canSee c a then (Inl no_such_session, s1)
       else if \<not> canManage c a then (Inl (Fail 403 ''not your session''), s1)
       else (Inr (rID r), s1))"

definition handleAddMember :: "(nat \<Rightarrow> nat) \<Rightarrow> config \<Rightarrow> outside \<Rightarrow> caller \<Rightarrow> bytes \<Rightarrow> bytes option \<Rightarrow> server \<Rightarrow> reply \<times> server" where
  "handleAddMember ul cfg w c i body s = (case manageable cfg w c i s of
     (Inl rep, s1) \<Rightarrow> (rep, s1)
   | (Inr sid, s1) \<Rightarrow> (case body of
       None \<Rightarrow> (Fail 400 ''invalid body'', s1)
     | Some u \<Rightarrow> let handle = TrimSpace u in
         if handle = [] then (Fail 400 ''user is required'', s1)
         else if \<not> safeHandle handle then (Fail 400 ''invalid user'', s1)
         else case AddMember ul (acl_write w) (time w) sid handle (acls s1) of
             (_, Some _, a) \<Rightarrow> (Fail 500 ''write failed'', s1\<lparr>acls := a\<rparr>)
           | (m, None, a) \<Rightarrow> (Reply 201 (Member (uKey m) (Label m)), s1\<lparr>acls := a\<rparr>)))"

definition handleRemoveMember :: "(nat \<Rightarrow> nat) \<Rightarrow> config \<Rightarrow> outside \<Rightarrow> caller \<Rightarrow> bytes \<Rightarrow> bytes \<Rightarrow> server \<Rightarrow> reply \<times> server" where
  "handleRemoveMember ul cfg w c i key s = (case manageable cfg w c i s of
     (Inl rep, s1) \<Rightarrow> (rep, s1)
   | (Inr sid, s1) \<Rightarrow> (case RemoveMember ul (acl_write w) sid key (acls s1) of
         (Some _, a) \<Rightarrow> (Fail 404 ''remove failed'', s1\<lparr>acls := a\<rparr>)
       | (None, a) \<Rightarrow> (Reply 200 Removed, s1\<lparr>acls := a\<rparr>)))"

definition handleUsers :: "(nat \<Rightarrow> nat) \<Rightarrow> config \<Rightarrow> caller \<Rightarrow> bytes list \<Rightarrow> server \<Rightarrow> reply \<times> server" where
  "handleUsers ul cfg c ks s = (if \<not> c_admin c then (Fail 403 ''admin only'', s)
     else (Reply 200 (Directory (map (\<lambda>u. \<lparr>uvKey = uKey u, uvLabel = Label u, uvEmail = uEmail u, uvName = uName u,
         uvAdmin = adminHandle ul (auth_cfg cfg) (Principals ul (uSub u) (uEmail u) (uUsername u)),
         uvInvited = uInvited u, uvLastSeen = uLastSeen u\<rparr>) (Users ul ks (acls s)))), s))"

section \<open>Creating\<close>

record createRequest =
  crName :: bytes
  crDir :: bytes
  crModel :: bytes
  crThinking :: bytes

definition handleCreate :: "(nat \<Rightarrow> nat) \<Rightarrow> config \<Rightarrow> outside \<Rightarrow> caller \<Rightarrow> createRequest option \<Rightarrow> server \<Rightarrow> reply \<times> server" where
  "handleCreate ul cfg w c body s = (
     if \<not> create_enabled cfg \<or> workspace_root cfg = [] then (Fail 403 ''session creation is disabled'', s)
     else case body of None \<Rightarrow> (Fail 400 ''invalid body'', s)
     | Some q \<Rightarrow>
       let name = TrimSpace (crName q); model = TrimSpace (crModel q); thinking = TrimSpace (crThinking q) in
       if \<not> validateName name then (Fail 400 ''invalid name'', s)
       else if model \<noteq> [] \<and> \<not> safeModel model then (Fail 400 ''invalid model'', s)
       else if thinking \<noteq> [] \<and> thinking \<notin> set thinkingLevels then (Fail 400 ''invalid thinking level'', s)
       else case over_limit cfg w s of
         (True, s) \<Rightarrow> (Fail 429 ''session limit reached'', s)
       | (False, s) \<Rightarrow> (case resolveWorkspaceDir (work_dir w) (workspace_root cfg) name (crDir q) of
           Inl _ \<Rightarrow> (Fail 400 ''invalid directory'', s)
         | Inr dir \<Rightarrow>
             if \<not> mkdir_ok w then (Fail 500 ''create workspace dir'', s)
             else let i = newSessionID w; ow = caller_key ul c;
                      s = (if ow \<noteq> [] then s\<lparr>acls := snd (SetOwner ul (acl_write w) (time w) i ow (acls s))\<rparr> else s);
                      spec = \<lparr>csID = i, csName = name, csDir = dir, csModel = model, csThinking = thinking, csOwner = ow\<rparr>
               in if \<not> launch_ok w
                  then (Fail 500 ''launch failed'', if ow \<noteq> [] then s\<lparr>acls := snd (Drop (acl_write w) i (acls s))\<rparr> else s)
                  else (Reply 201 (Created i name dir model thinking), effect (Launched spec) s)))"


section \<open>Looking a session up\<close>

lemma liveRecord_None: "spool_inv (files s) \<Longrightarrow> liveRecord cfg w i s = (None, s1) \<Longrightarrow>
   \<exists>f. s1 = s\<lparr>files := f\<rparr> \<and> f \<subseteq>\<^sub>m files s"
  by (auto simp: liveRecord_def dest: Live_kept(1) split: prod.splits option.splits)

lemma liveRecord_Some:
  assumes "spool_inv (files s)" and "liveRecord cfg w i s = (Some r, s1)"
  shows "rID r = i" "files s i = Some r" "lives (sys w) (keep_ended cfg) r" "dir_ok (sys w)"
    "s1 = s\<lparr>files := files s1\<rparr>" "files s1 \<subseteq>\<^sub>m files s" "spool_inv (files s1)"
proof -
  obtain l f where l: "Live (sys w) (keep_ended cfg) (files s) = (Some l, f)" "find (\<lambda>r. rID r = i) l = Some r"
      and s1: "s1 = s\<lparr>files := f\<rparr>"
    using assms(2) by (auto simp: liveRecord_def split: prod.splits option.splits)
  then have r: "r \<in> set l" "rID r = i" by (auto simp: find_Some_iff)
  note k = Live_kept [OF assms(1) l(1)]
  show "rID r = i" "files s i = Some r" "lives (sys w) (keep_ended cfg) r"
    using r k(3) [OF refl, of r] by auto
  show "dir_ok (sys w)" using l(1) by (simp add: Live_eq split: if_splits)
  show "s1 = s\<lparr>files := files s1\<rparr>" "files s1 \<subseteq>\<^sub>m files s" "spool_inv (files s1)"
    using s1 k(1,2) by simp_all
qed

lemma visibleRecord_hidden:
  assumes "spool_inv (files s)" and "\<not> canSee c (ACL (acls s) i)"
  shows "\<exists>f. visibleRecord cfg w c i s = (None, s\<lparr>files := f\<rparr>)"
proof (cases "liveRecord cfg w i s")
  case (Pair ro s1)
  show ?thesis
  proof (cases ro)
    case None
    then show ?thesis using Pair liveRecord_None [OF assms(1), of cfg w i s1] by (auto simp: visibleRecord_def)
  next
    case (Some r)
    note l = liveRecord_Some [OF assms(1) Pair [unfolded Some]]
    have "acls s1 = acls s" by (subst l(5)) simp
    then show ?thesis
      using assms(2) l(1) Pair Some l(5) by (auto simp: visibleRecord_def)
  qed
qed

lemma manageable_denied:
  assumes "spool_inv (files s)" and "\<not> canManage c (ACL (acls s) i)"
  shows "\<exists>f rep. manageable cfg w c i s = (Inl rep, s\<lparr>files := f\<rparr>) \<and> f \<subseteq>\<^sub>m files s \<and>
    (\<not> canSee c (ACL (acls s) i) \<longrightarrow> rep = no_such_session)"
proof (cases "liveRecord cfg w i s")
  case (Pair ro s1)
  show ?thesis
  proof (cases ro)
    case None
    then show ?thesis using Pair liveRecord_None [OF assms(1), of cfg w i s1] by (auto simp: manageable_def)
  next
    case (Some r)
    note l = liveRecord_Some [OF assms(1) Pair [unfolded Some]]
    have "acls s1 = acls s" by (subst l(5)) simp
    then show ?thesis
      using assms(2) l(1,6) Pair Some l(5) by (auto simp: manageable_def Let_def intro!: exI [of _ "files s1"])
  qed
qed

lemma handleKill_denied:
  assumes "spool_inv (files s)" and "\<not> canManage c (ACL (acls s) i)"
  shows "\<exists>f rep. handleKill cfg w c i s = (rep, s\<lparr>files := f\<rparr>) \<and> f \<subseteq>\<^sub>m files s \<and>
    (\<not> canSee c (ACL (acls s) i) \<longrightarrow> rep = no_such_session)"
proof (cases "liveRecord cfg w i s")
  case (Pair ro s1)
  show ?thesis
  proof (cases ro)
    case None
    then show ?thesis using Pair liveRecord_None [OF assms(1), of cfg w i s1] by (auto simp: handleKill_def)
  next
    case (Some r)
    note l = liveRecord_Some [OF assms(1) Pair [unfolded Some]]
    have "acls s1 = acls s" by (subst l(5)) simp
    then show ?thesis
      using assms(2) l(1,6) Pair Some l(5) by (auto simp: handleKill_def Let_def intro!: exI [of _ "files s1"])
  qed
qed

lemma manage_see: "canManage c a \<Longrightarrow> canSee c a"
  by (auto simp: canManage_def canSee_def Allows_def list_ex_iff split: if_splits)

section \<open>What a listing depends on\<close>

lemma listing_without: "spool_inv f \<Longrightarrow> listing e (f(i := None)) = filter (\<lambda>r. rID r \<noteq> i) (listing e f)"
proof -
  assume inv: "spool_inv f"
  have "map (\<lambda>k. the ((f(i := None)) k)) (filter (\<lambda>k. (f(i := None)) k \<noteq> None) ks)
      = filter (\<lambda>r. rID r \<noteq> i) (map (\<lambda>k. the (f k)) (filter (\<lambda>k. f k \<noteq> None) ks))" for ks
  proof (induction ks)
    case (Cons k ks)
    show ?case
    proof (cases "f k")
      case None
      then show ?thesis using Cons by simp
    next
      case (Some r)
      then have "rID r = k" using inv by (simp add: spool_inv_def)
      then show ?thesis using Cons Some by simp
    qed
  qed simp
  then show ?thesis unfolding listing_def filter_sort by (simp only:)
qed

lemma Prune_ACL_eq:
  assumes "live i \<longleftrightarrow> live' i"
  shows "ACL (Prune wr live t g ks a) i = ACL (Prune wr live' t g ks a) i"
  using assms by (simp add: ACL_def Prune_sessions stale_def split: option.split)

lemma viewOf_cong:
  assumes "ACL (acls s) (rID r) = ACL (acls s') (rID r)" and "users (acls s) = users (acls s')"
    and "term_hosts s = term_hosts s'"
  shows "viewOf ul w s r c = viewOf ul w s' r c"
  using assms by (simp add: viewOf_def user_label_def Lookup_user_def Members_of_def canWrite_def Let_def)

lemma handleList_eq:
  assumes "Live (sys w) (keep_ended cfg) (files s) = (Some L, f)"
    and "a = Prune (acl_write w) (\<lambda>i. list_ex (\<lambda>r. rID r = i) L) (time w) aclGrace (acl_order w) (acls s)"
  shows "fst (handleList ul cfg w c s) = Reply 200 (Views
    (map (\<lambda>r. viewOf ul w (s\<lparr>files := f, acls := a\<rparr>) r c) (filter (\<lambda>r. canSee c (ACL a (rID r))) L)))"
  unfolding handleList_def assms by (simp add: Let_def)

lemma handleList_without:
  assumes inv: "spool_inv (files s)" and hid: "\<not> canSee c (ACL (acls s) i)"
  shows "fst (handleList ul cfg w c (s\<lparr>files := (files s)(i := None)\<rparr>)) = fst (handleList ul cfg w c s)"
proof (cases "dir_ok (sys w)")
  case False
  then show ?thesis by (simp add: handleList_def Live_eq)
next
  case True
  let ?L = "filter (lives (sys w) (keep_ended cfg)) (listing (sys w) (files s))"
  let ?L' = "filter (\<lambda>r. rID r \<noteq> i) ?L"
  let ?p = "\<lambda>L. Prune (acl_write w) (\<lambda>i. list_ex (\<lambda>r. rID r = i) L) (time w) aclGrace (acl_order w) (acls s)"
  let ?s = "\<lambda>f L. s\<lparr>files := f, acls := ?p L\<rparr>"
  obtain f where f: "Live (sys w) (keep_ended cfg) (files s) = (Some ?L, f)" using True by (simp add: Live_eq)
  obtain f' where "Live (sys w) (keep_ended cfg) ((files s)(i := None)) =
      (Some (filter (lives (sys w) (keep_ended cfg)) (filter (\<lambda>r. rID r \<noteq> i) (listing (sys w) (files s)))), f')"
    using True by (simp add: Live_eq listing_without [OF inv])
  moreover have "filter (lives (sys w) (keep_ended cfg)) (filter (\<lambda>r. rID r \<noteq> i) (listing (sys w) (files s))) = ?L'"
    by (simp add: conj_commute)
  ultimately have f': "Live (sys w) (keep_ended cfg) ((files s)(i := None)) = (Some ?L', f')" by simp
  have acl: "ACL (?p ?L') j = ACL (?p ?L) j" if "j \<noteq> i" for j
    by (rule Prune_ACL_eq) (use that in \<open>auto simp: list_ex_iff\<close>)
  have hid': "\<not> canSee c (ACL (?p ?L) i)"
    using hid Prune_ACL [of "acl_write w" "\<lambda>i. list_ex (\<lambda>r. rID r = i) ?L" "time w" aclGrace "acl_order w" "acls s" i]
    by (auto simp: canSee_def)
  have v: "viewOf ul w (?s f' ?L') r c = viewOf ul w (?s f ?L) r c" if "rID r \<noteq> i" for r
    by (rule viewOf_cong) (use acl that in \<open>simp_all add: frame\<close>)
  have m: "map (\<lambda>r. viewOf ul w (?s f' ?L') r c) (filter (\<lambda>r. canSee c (ACL (?p ?L') (rID r))) (filter (\<lambda>r. rID r \<noteq> i) L))
      = map (\<lambda>r. viewOf ul w (?s f ?L) r c) (filter (\<lambda>r. canSee c (ACL (?p ?L) (rID r))) L)" for L
    by (induction L) (use v acl hid' in \<open>auto\<close>)
  have "fst (handleList ul cfg w c (s\<lparr>files := (files s)(i := None)\<rparr>)) = Reply 200 (Views
      (map (\<lambda>r. viewOf ul w (?s f' ?L') r c) (filter (\<lambda>r. canSee c (ACL (?p ?L') (rID r))) ?L')))"
    using handleList_eq [of w cfg "s\<lparr>files := (files s)(i := None)\<rparr>" ?L' f' "?p ?L'" ul c] f' by simp
  moreover have "fst (handleList ul cfg w c s) = Reply 200 (Views
      (map (\<lambda>r. viewOf ul w (?s f ?L) r c) (filter (\<lambda>r. canSee c (ACL (?p ?L) (rID r))) ?L)))"
    by (rule handleList_eq) (simp_all add: f)
  ultimately show ?thesis by (simp only: m)
qed


section \<open>The server as a machine\<close>

datatype request =
    QList caller | QGet caller bytes | QKill caller bytes | QRegister caller "RegisterRequest option"
  | QPane bool bytes | QAdd caller bytes "bytes option" | QRemove caller bytes bytes
  | QUsers caller "bytes list" | QCreate caller "createRequest option"

fun answer :: "(nat \<Rightarrow> nat) \<Rightarrow> (bytes \<Rightarrow> bytes) \<Rightarrow> config \<Rightarrow> outside \<Rightarrow> request \<Rightarrow> server \<Rightarrow> reply \<times> server" where
  "answer ul sha cfg w (QList c) s = handleList ul cfg w c s"
| "answer ul sha cfg w (QGet c i) s = handleGetOne ul cfg w c i s"
| "answer ul sha cfg w (QKill c i) s = handleKill cfg w c i s"
| "answer ul sha cfg w (QRegister c q) s = handleRegister ul sha cfg w c q s"
| "answer ul sha cfg w (QPane ok i) s = handleRemotePane w ok i s"
| "answer ul sha cfg w (QAdd c i u) s = handleAddMember ul cfg w c i u s"
| "answer ul sha cfg w (QRemove c i k) s = handleRemoveMember ul cfg w c i k s"
| "answer ul sha cfg w (QUsers c ks) s = handleUsers ul cfg c ks s"
| "answer ul sha cfg w (QCreate c q) s = handleCreate ul cfg w c q s"

definition serve :: "(nat \<Rightarrow> nat) \<Rightarrow> (bytes \<Rightarrow> bytes) \<Rightarrow> config \<Rightarrow> server \<Rightarrow> outside \<times> request \<Rightarrow> server" where
  "serve ul sha cfg s e = snd (answer ul sha cfg (fst e) (snd e) s)"

text \<open>A session that was killed at \<open>t0\<close>: its record, if it is still there, has ended, and both its
  names are remembered. A request is admissible while the tombstones last, and unless it
  registers another room under the very same id.\<close>

definition dead :: "nanos \<Rightarrow> bytes \<Rightarrow> bytes \<Rightarrow> server \<Rightarrow> bool" where
  "dead t0 i room s = (spool_inv (files s) \<and> (\<forall>r. files s i = Some r \<longrightarrow> rStatus r = StatusEnded) \<and>
     (\<exists>at\<ge>t0. killed s i = Some at) \<and> (room \<noteq> [] \<longrightarrow> (\<exists>at\<ge>t0. killed s room = Some at)))"

definition while_buried :: "(bytes \<Rightarrow> bytes) \<Rightarrow> nanos \<Rightarrow> bytes \<Rightarrow> bytes \<Rightarrow> outside \<times> request \<Rightarrow> bool" where
  "while_buried sha t0 i room e = (t0 \<le> time (fst e) \<and> time (fst e) \<le> t0 + killedTTL \<and>
     (\<forall>c q. snd e = QRegister c (Some q) \<longrightarrow> qRoomID q = room \<and> room \<noteq> [] \<or> minted sha (fst e) q \<noteq> i))"

lemma dead_cong: "files s' = files s \<Longrightarrow> killed s' = killed s \<Longrightarrow> dead t0 i room s' = dead t0 i room s"
  by (simp add: dead_def)

lemma Save_files: "snd (Save e r f) = f \<or> snd (Save e r f) = f(rID r \<mapsto> r\<lparr>rUpdatedAt := now e\<rparr>)"
  by (simp add: Save_def)

lemma Save_spool_inv: "spool_inv f \<Longrightarrow> spool_inv (snd (Save e r f))"
  using Save_files [of e r f] by (auto simp: spool_inv_def split: if_splits)

lemma dead_Live: "dead t0 i room s \<Longrightarrow> Live e keep (files s) = (x, f) \<Longrightarrow> dead t0 i room (s\<lparr>files := f\<rparr>)"
  using Live_kept(1,2) [of "files s" e keep x f] by (auto simp: dead_def map_le_def dom_def)

lemma dead_Save: "dead t0 i room s \<Longrightarrow> rID r = i \<longrightarrow> rStatus r = StatusEnded \<Longrightarrow>
   dead t0 i room (s\<lparr>files := snd (Save e r (files s))\<rparr>)"
  using Save_files [of e r "files s"] Save_spool_inv [of "files s" e r] by (auto simp: dead_def split: if_splits)

lemma bury_all: "foldl (\<lambda>k key. bury t key k) k ks x = (if x \<in> set ks \<and> x \<noteq> [] then Some t else k x)"
  by (induction ks arbitrary: k) (auto simp: bury_def)

lemma remember_eq: "remember t ks k x = (if x \<in> set ks \<and> x \<noteq> [] then Some t else
   case k x of None \<Rightarrow> None | Some at \<Rightarrow> if t - at > killedTTL then None else Some at)"
  by (simp add: remember_def bury_all)

lemma dead_remember: "dead t0 i room s \<Longrightarrow> t0 \<le> t \<Longrightarrow> t \<le> t0 + killedTTL \<Longrightarrow>
   dead t0 i room (s\<lparr>killed := remember t ks (killed s)\<rparr>)"
  by (auto simp: dead_def remember_eq)

lemma was_killed_eq: "was_killed t key k =
   (key \<noteq> [] \<and> (\<exists>at. k key = Some at \<and> t - at \<le> killedTTL),
    if key \<noteq> [] \<and> (\<exists>at. k key = Some at \<and> t - at > killedTTL) then k(key := None) else k)"
  by (auto simp: was_killed_def split: option.split)

lemma dead_was_killed: "dead t0 i room s \<Longrightarrow> t \<le> t0 + killedTTL \<Longrightarrow>
   dead t0 i room (s\<lparr>killed := snd (was_killed t key (killed s))\<rparr>)"
  by (auto simp: dead_def was_killed_eq)

lemma dead_liveRecord: "dead t0 i room s \<Longrightarrow> liveRecord cfg w j s = (ro, s1) \<Longrightarrow> dead t0 i room s1"
  by (auto simp: liveRecord_def dead_Live split: prod.splits option.splits)

lemma stop_process_frame: "files (stop_process w r s) = files s" "killed (stop_process w r s) = killed s"
  "acls (stop_process w r s) = acls s" "term_hosts (stop_process w r s) = term_hosts s"
  by (simp_all add: stop_process_def effect_def Let_def split: option.split)

lemma dropTermHost_frame: "files (dropTermHost i s) = files s" "killed (dropTermHost i s) = killed s"
  "acls (dropTermHost i s) = acls s"
  by (simp_all add: dropTermHost_def effect_def)

lemma kill_record_fields:
  "files (kill_record w r s) = snd (Save (sys w) (r\<lparr>rStatus := StatusEnded\<rparr>) (files s))"
  "killed (kill_record w r s) = remember (time w) [rID r, rRoomID r] (killed s)"
  "acls (kill_record w r s) = acls s"
  by (simp_all add: kill_record_def Let_def stop_process_frame dropTermHost_frame)

lemma dead_kill_record:
  assumes "dead t0 i room s" "t0 \<le> time w" "time w \<le> t0 + killedTTL"
  shows "dead t0 i room (kill_record w r s)"
proof -
  have "dead t0 i room (s\<lparr>killed := remember (time w) [rID r, rRoomID r] (killed s),
      files := snd (Save (sys w) (r\<lparr>rStatus := StatusEnded\<rparr>) (files s))\<rparr>)"
    using dead_Save [OF dead_remember [OF assms, of "[rID r, rRoomID r]"], of "r\<lparr>rStatus := StatusEnded\<rparr>" "sys w"] by simp
  then show ?thesis by (simp add: dead_def kill_record_fields)
qed

lemma dead_over_limit: "dead t0 i room s \<Longrightarrow> over_limit cfg w s = (b, s1) \<Longrightarrow> dead t0 i room s1"
  by (auto simp: over_limit_def dead_Live split: prod.splits if_splits)

lemma dead_manageable: "dead t0 i room s \<Longrightarrow> manageable cfg w c j s = (x, s1) \<Longrightarrow> dead t0 i room s1"
  using dead_liveRecord by (fastforce simp: manageable_def Let_def split: prod.splits option.splits if_splits)

lemma dead_acls [simp]: "dead t0 i room (s\<lparr>acls := a\<rparr>) = dead t0 i room s"
  by (rule dead_cong) simp_all

lemma dead_effect [simp]: "dead t0 i room (effect x s) = dead t0 i room s"
  by (rule dead_cong) (simp_all add: effect_def)

lemma dead_register_save:
  "dead t0 i room s \<Longrightarrow> rID r \<noteq> i \<Longrightarrow> dead t0 i room (snd (register_save ul w c r s))"
  using dead_Save [of t0 i room s r "sys w"] by (auto simp: register_save_def split: prod.split option.split)

lemma dead_register:
  assumes d: "dead t0 i room s" and t: "t0 \<le> time w" "time w \<le> t0 + killedTTL"
    and q: "\<And>q. body = Some q \<Longrightarrow> qRoomID q = room \<and> room \<noteq> [] \<or> minted sha w q \<noteq> i"
  shows "dead t0 i room (snd (handleRegister ul sha cfg w c body s))"
proof (cases body)
  case None
  then show ?thesis using d by (simp add: handleRegister_def)
next
  case (Some q)
  obtain b k where bk: "was_killed (time w) (qRoomID q) (killed s) = (b, k)"
    by (cases "was_killed (time w) (qRoomID q) (killed s)")
  let ?s = "s\<lparr>killed := k\<rparr>"
  have d1: "dead t0 i room ?s" using dead_was_killed [OF d t(2), of "qRoomID q"] bk by simp
  show ?thesis
  proof (cases "b \<or> register_refusal q \<noteq> None")
    case True
    then show ?thesis using d1 Some bk by (auto simp: handleRegister_def Let_def split: option.split)
  next
    case False
    then have "\<not> (qRoomID q = room \<and> room \<noteq> [])"
      using bk d t by (auto simp: was_killed_eq dead_def)
    then have m: "minted sha w q \<noteq> i" using q [OF Some] by blast
    let ?lim = "if Load (minted sha w q) (files s) = None then over_limit cfg w ?s else (False, ?s)"
    obtain full s2 where lim: "?lim = (full, s2)" by (cases ?lim)
    then have "dead t0 i room s2" using d1 dead_over_limit [OF d1] by (auto split: if_splits)
    then have "dead t0 i room (snd (register_save ul w c (registered (minted sha w q) x q) s2))" for x
      using m by (simp add: dead_register_save registered_def)
    then show ?thesis
      using False Some bk lim \<open>dead t0 i room s2\<close> by (simp add: handleRegister_def Let_def)
  qed
qed

lemma dead_pane:
  assumes d: "dead t0 i room s" and t: "t0 \<le> time w" "time w \<le> t0 + killedTTL"
  shows "dead t0 i room (snd (handleRemotePane w ok j s))"
proof (cases "pane_begin w j s")
  case (Pair x s1)
  have d1: "dead t0 i room s1"
    using Pair d dead_was_killed [OF d t(2), of j]
    by (auto simp: pane_begin_def split: option.splits if_splits prod.splits bool.splits)
  show ?thesis
  proof (cases x)
    case (Inl rep)
    then show ?thesis using Pair d1 by (simp add: handleRemotePane_def)
  next
    case (Inr r)
    then have "files s j = Some r \<and> rStatus r \<noteq> StatusEnded" and "s1 = s"
      using Pair by (auto simp: pane_begin_def Load_def split: option.splits if_splits prod.splits bool.splits)
    then have "rID r \<noteq> i" using d by (auto simp: dead_def spool_inv_def)
    then have "dead t0 i room (s1\<lparr>files := snd (Save (sys w) r (files s1))\<rparr>)" using dead_Save [OF d1] by simp
    then show ?thesis
      using Pair Inr d1 by (auto simp: handleRemotePane_def pane_finish_def split: prod.split option.split)
  qed
qed

lemma dead_create: "dead t0 i room s \<Longrightarrow> dead t0 i room (snd (handleCreate ul cfg w c body s))"
proof -
  assume d: "dead t0 i room s"
  obtain full s1 where l: "over_limit cfg w s = (full, s1)" by (cases "over_limit cfg w s")
  have "dead t0 i room s1" using dead_over_limit [OF d l] .
  then show ?thesis
    using d l by (cases full) (auto simp: handleCreate_def Let_def split: option.split sum.split)
qed

lemma dead_serve:
  assumes d: "dead t0 i room s" and a: "while_buried sha t0 i room e"
  shows "dead t0 i room (serve ul sha cfg s e)"
proof -
  obtain w q where e: "e = (w, q)" by (cases e)
  have t: "t0 \<le> time w" "time w \<le> t0 + killedTTL" using a e by (simp_all add: while_buried_def)
  have "dead t0 i room (snd (answer ul sha cfg w q s))"
  proof (cases q)
    case (QList c)
    then show ?thesis using dead_Live [OF d, of "sys w" "keep_ended cfg"]
      by (auto simp: handleList_def Let_def split: prod.split option.split)
  next
    case (QGet c j)
    then show ?thesis using dead_liveRecord [OF d, of cfg w j]
      by (auto simp: handleGetOne_def visibleRecord_def split: prod.splits option.splits if_splits)
  next
    case (QKill c j)
    then show ?thesis using dead_liveRecord [OF d, of cfg w j] dead_kill_record [OF _ t]
      by (auto simp: handleKill_def Let_def split: prod.splits option.splits if_splits)
  next
    case (QRegister c body)
    have "qRoomID q' = room \<and> room \<noteq> [] \<or> minted sha w q' \<noteq> i" if "body = Some q'" for q'
      using a e QRegister that by (simp add: while_buried_def)
    then show ?thesis using dead_register [OF d t] QRegister by simp
  next
    case (QPane ok j)
    then show ?thesis using dead_pane [OF d t] by simp
  next
    case (QAdd c j u)
    then show ?thesis using dead_manageable [OF d, of cfg w c j]
      by (auto simp: handleAddMember_def Let_def split: prod.splits option.splits sum.splits if_splits)
  next
    case (QRemove c j u)
    then show ?thesis using dead_manageable [OF d, of cfg w c j]
      by (auto simp: handleRemoveMember_def Let_def split: prod.splits option.splits sum.splits if_splits)
  next
    case (QUsers c ks)
    then show ?thesis using d by (simp add: handleUsers_def)
  next
    case (QCreate c body)
    then show ?thesis using dead_create [OF d] by simp
  qed
  then show ?thesis using e by (simp add: serve_def)
qed

interpretation buried: machine "serve ul sha cfg" "while_buried sha t0 i room" "dead t0 i room"
  by unfold_locales (rule dead_serve)


lemma kill_done:
  assumes "spool_inv (files s)" and "handleKill cfg w c i s = (Reply n p, s1)" and "files s i = Some r"
  shows "\<exists>f. s1 = kill_record w r (s\<lparr>files := f\<rparr>) \<and> f \<subseteq>\<^sub>m files s \<and> spool_inv f" "rID r = i"
proof -
  obtain s0 r0 where l: "liveRecord cfg w i s = (Some r0, s0)" and k: "s1 = kill_record w r0 s0"
    using assms(2) by (auto simp: handleKill_def no_such_session_def Let_def split: prod.splits option.splits if_splits)
  note f = liveRecord_Some [OF assms(1) l]
  have "r0 = r" using f(2) assms(3) by simp
  then show "\<exists>f. s1 = kill_record w r (s\<lparr>files := f\<rparr>) \<and> f \<subseteq>\<^sub>m files s \<and> spool_inv f" "rID r = i"
    using k f(1,6,7) by (subst (asm) f(5), auto)+
qed

lemma killed_dead:
  assumes "spool_inv (files s)" and "handleKill cfg w c i s = (Reply n p, s1)" and "files s i = Some r"
    and "i \<noteq> []" and "write_ok (sys w)"
  shows "dead (time w) i (rRoomID r) s1"
proof -
  obtain f where f: "s1 = kill_record w r (s\<lparr>files := f\<rparr>)" "spool_inv f" and i: "rID r = i"
    using kill_done [OF assms(1-3)] by blast
  have "snd (Save (sys w) (r\<lparr>rStatus := StatusEnded\<rparr>) f) = f(i \<mapsto> r\<lparr>rStatus := StatusEnded, rUpdatedAt := time w\<rparr>)"
    using assms(4,5) i by (simp add: Save_def)
  then show ?thesis
    using Save_spool_inv [OF f(2), of "sys w" "r\<lparr>rStatus := StatusEnded\<rparr>"] assms(4) i
    by (auto simp: dead_def f(1) kill_record_fields remember_eq)
qed

lemma dead_answers:
  assumes "dead t0 i room s" and "t0 \<le> time w" and "time w \<le> t0 + killedTTL" and "i \<noteq> []"
  shows "fst (handleRemotePane w ok i s) = Reply 200 (Stop True)"
    and "room \<noteq> [] \<Longrightarrow> qRoomID q = room \<Longrightarrow>
      fst (handleRegister ul sha cfg w c (Some q) s) = Fail 410 ''session was killed''"
proof -
  obtain at where at: "killed s i = Some at" "t0 \<le> at" using assms(1) by (auto simp: dead_def)
  then have "was_killed (time w) i (killed s) = (True, killed s)"
    using assms(3,4) by (auto simp: was_killed_eq)
  then show "fst (handleRemotePane w ok i s) = Reply 200 (Stop True)"
    using assms(1) by (auto simp: handleRemotePane_def pane_begin_def Load_def dead_def split: option.split)
  show "fst (handleRegister ul sha cfg w c (Some q) s) = Fail 410 ''session was killed''"
    if r: "room \<noteq> []" "qRoomID q = room"
  proof -
    obtain at where "killed s room = Some at" "t0 \<le> at" using assms(1) r by (auto simp: dead_def)
    then have "was_killed (time w) (qRoomID q) (killed s) = (True, killed s)"
      using assms(3) r by (auto simp: was_killed_eq)
    then show ?thesis by (simp add: handleRegister_def)
  qed
qed

lemma over_limit_frame: "over_limit cfg w s = (b, s1) \<Longrightarrow> \<exists>f. s1 = s\<lparr>files := f\<rparr> \<and> (spool_inv (files s) \<longrightarrow> f \<subseteq>\<^sub>m files s)"
proof (cases "max_sessions cfg > 0")
  case False
  then show "over_limit cfg w s = (b, s1) \<Longrightarrow> ?thesis"
    by (auto simp: over_limit_def intro!: exI [of _ "files s"])
qed (auto simp: over_limit_def dest: Live_kept(1) split: prod.splits)

lemma registered_result:
  assumes "handleRegister ul sha cfg w c (Some q) s = (Reply n (Registered i), s')" and "spool_inv (files s)"
  shows "i = minted sha w q"
    and "acls s' = (if c_user c \<noteq> [] then snd (SetOwner ul (acl_write w) (time w) i (c_user c) (acls s)) else acls s)"
    and "files s' i = Some ((registered i (case files s i of Some r \<Rightarrow> if rStartedAt r \<noteq> 0 then rStartedAt r else time w
            | None \<Rightarrow> time w) q)\<lparr>rUpdatedAt := time w\<rparr>)"
    and "\<And>j. j \<noteq> i \<Longrightarrow> files s' j = files s j \<or> files s' j = None"
    and "n = 201" and "i \<noteq> []"
    and "files s i = None \<Longrightarrow> \<not> fst (over_limit cfg w (s\<lparr>killed := snd (was_killed (time w) (qRoomID q) (killed s))\<rparr>))"
proof -
  obtain b k where bk: "was_killed (time w) (qRoomID q) (killed s) = (b, k)"
    by (cases "was_killed (time w) (qRoomID q) (killed s)")
  let ?s = "s\<lparr>killed := k\<rparr>" and ?i = "minted sha w q"
  let ?st = "case files s ?i of Some r \<Rightarrow> if rStartedAt r \<noteq> 0 then rStartedAt r else time w | None \<Rightarrow> time w"
  let ?lim = "if files s ?i = None then over_limit cfg w ?s else (False, ?s)"
  obtain full s2 where lim: "?lim = (full, s2)" by (cases ?lim)
  then obtain f where s2: "s2 = ?s\<lparr>files := f\<rparr>" and f: "f \<subseteq>\<^sub>m files s" "files s ?i = None \<or> f = files s"
    using over_limit_frame [of cfg w ?s full s2] assms(2)
    by (auto split: if_splits)
  have h: "handleRegister ul sha cfg w c (Some q) s = (if b then (Fail 410 ''session was killed'', ?s)
      else case register_refusal q of Some rep \<Rightarrow> (rep, ?s)
        | None \<Rightarrow> if full then (Fail 429 ''session limit reached'', s2)
                  else register_save ul w c (registered ?i ?st q) s2)"
    using bk lim by (cases "register_refusal q") (simp_all add: handleRegister_def Let_def Load_def)
  have nr: "register_refusal q \<noteq> Some (Reply n' p)" for n' p
    by (simp add: register_refusal_def)
  have sv: "register_save ul w c (registered ?i ?st q) s2 = (Reply n (Registered i), s')" and nf: "\<not> full"
    using h assms(1) nr by (auto split: if_splits option.splits)
  have ok: "Save (sys w) (registered ?i ?st q) f = (None, f(?i \<mapsto> (registered ?i ?st q)\<lparr>rUpdatedAt := time w\<rparr>))"
    using sv s2 by (auto simp: register_save_def Save_def registered_def split: if_splits)
  show i: "i = ?i" and "n = 201"
    using sv s2 ok by (auto simp: register_save_def registered_def)
  show "i \<noteq> []" using i by (simp add: minted_def sessionIDForRoom_def newSessionID_def)
  show "acls s' = (if c_user c \<noteq> [] then snd (SetOwner ul (acl_write w) (time w) i (c_user c) (acls s)) else acls s)"
    using sv s2 ok i by (auto simp: register_save_def registered_def)
  show "files s' i = Some ((registered i (case files s i of Some r \<Rightarrow> if rStartedAt r \<noteq> 0 then rStartedAt r else time w
            | None \<Rightarrow> time w) q)\<lparr>rUpdatedAt := time w\<rparr>)"
    using sv s2 ok i by (auto simp: register_save_def)
  show "files s' j = files s j \<or> files s' j = None" if "j \<noteq> i" for j
  proof -
    have "files s' j = f j" using sv s2 ok i that by (auto simp: register_save_def)
    then show ?thesis using f(1) by (cases "f j") (auto simp: map_le_def dom_def)
  qed
  show "\<not> fst (over_limit cfg w (s\<lparr>killed := snd (was_killed (time w) (qRoomID q) (killed s))\<rparr>))" if "files s i = None"
    using that i lim nf bk by simp
qed


section \<open>Sample data\<close>

definition sample_rec :: rec where
  "sample_rec = registered ''covibe-1'' 3 \<lparr>qName = ''demo'', qDir = [], qModel = [], qThinking = [], qHost = [],
     qRelay = [], qJoinLink = [], qBrowserURL = [], qRoomID = ''room-000001'', qViewOnly = True\<rparr>"

definition sample_acls :: store where
  "sample_acls = fresh_store\<lparr>sessions := [''covibe-1'' \<mapsto> \<lparr>owner = ''amy'', members = [''bob''], addedAt = 3\<rparr>]\<rparr>"

definition sample_server :: server where
  "sample_server = \<lparr>files = [''covibe-1'' \<mapsto> sample_rec\<lparr>rUpdatedAt := 5\<rparr>], acls = sample_acls, killed = (\<lambda>_. None),
     term_hosts = (\<lambda>_. False), effects = []\<rparr>"

definition at_time :: "nanos \<Rightarrow> outside" where
  "at_time t = \<lparr>sys = \<lparr>now = t, probe = (\<lambda>_. False), dir_ok = True, write_ok = True, dir_order = [''covibe-1'']\<rparr>,
     tmux_cmd = (\<lambda>_. None), room_live = (\<lambda>_. False), acl_write = None, acl_order = [''covibe-1''],
     random8 = ''12345678'', work_dir = ''/'', mkdir_ok = True, launch_ok = True\<rparr>"

definition sample_cfg :: config where
  "sample_cfg = \<lparr>auth_cfg = \<lparr>NoAuth = False, Admins = [], AllowedEmails = [], AllowedDomains = [], AllowedSubs = []\<rparr>,
     api_key_set = no_keys, keep_ended = 20, max_sessions = 0, workspace_root = [], create_enabled = False\<rparr>"

definition as_user :: "bytes \<Rightarrow> caller" where
  "as_user u = nobody\<lparr>c_machine := True, c_user := u, c_principals := [u]\<rparr>"

lemma sample_fields [simp]: "rID sample_rec = ''covibe-1''" "rStatus sample_rec = StatusStarting" "rRemote sample_rec"
  "rRoomID sample_rec = ''room-000001''" "rViewOnly sample_rec" "rStartedAt sample_rec = 3" "rPID sample_rec = 0"
  by (simp_all add: sample_rec_def registered_def)

lemma at_time_fields [simp]: "time (at_time t) = t" "dir_ok (sys (at_time t))" "write_ok (sys (at_time t))"
  "dir_order (sys (at_time t)) = [''covibe-1'']" "acl_write (at_time t) = None"
  by (simp_all add: at_time_def)

lemma sample_files [simp]: "files sample_server = [''covibe-1'' \<mapsto> sample_rec\<lparr>rUpdatedAt := 5\<rparr>]"
  "killed sample_server = (\<lambda>_. None)" "acls sample_server = sample_acls" "keep_ended sample_cfg = 20"
  by (simp_all add: sample_server_def sample_cfg_def)

lemma sample_inv: "spool_inv (files sample_server)"
  by (simp add: spool_inv_def)

lemma sample_ACL [simp]: "ACL sample_acls ''covibe-1'' = \<lparr>owner = ''amy'', members = [''bob''], addedAt = 3\<rparr>"
  by (simp add: ACL_def sample_acls_def)

lemma sample_kill: "t < 6 \<Longrightarrow> fst (handleKill sample_cfg (at_time t) (as_user ''amy'') ''covibe-1'' sample_server)
   = Reply 200 (Killed ''covibe-1'')"
  by (simp add: handleKill_def liveRecord_def Live_eq listing_def lives_def Alive_def RemoteTTL_def seconds_def
      canSee_def canManage_def as_user_def nobody_def Allows_def Let_def)

section \<open>Properties\<close>





text \<open>C8: A kill sticks. After a session was killed, and whatever requests the server answers while
  the tombstone lasts (listings that prune the record, other kills, registrations, heartbeats,
  creations), every heartbeat of the session is told to stop, also once its record is gone, and
  no wrapper can register its room again.\<close>

theorem kill_sticks:
  assumes "spool_inv (files s)" and "files s i = Some r" and "i \<noteq> []" and "write_ok (sys w)"
    and "handleKill cfg w c i s = (Reply n p, s1)"
    and "list_all (while_buried sha (time w) i (rRoomID r)) es"
    and "time w \<le> time w'" and "time w' \<le> time w + killedTTL"
  shows "fst (handleRemotePane w' ok i (run (serve ul sha cfg) s1 es)) = Reply 200 (Stop True) \<and>
    (rRoomID r \<noteq> [] \<longrightarrow> qRoomID q = rRoomID r \<longrightarrow>
      fst (handleRegister ul sha cfg w' c' (Some q) (run (serve ul sha cfg) s1 es)) = Fail 410 ''session was killed'')"
proof -
  have "dead (time w) i (rRoomID r) (run (serve ul sha cfg) s1 es)"
    by (rule buried.run_inv [OF killed_dead [OF assms(1,5,2,3,4)] assms(6)])
  from dead_answers [OF this assms(7,8,3)] show ?thesis by blast
qed

theorem kill_sticks_witness:
  "fst (handleRemotePane (at_time (seconds 60)) True ''covibe-1'' (run (serve ascii_ul (\<lambda>x. x) sample_cfg)
      (snd (handleKill sample_cfg (at_time 5) (as_user ''amy'') ''covibe-1'' sample_server))
      [(at_time 6, QPane True ''covibe-1''), (at_time 40, QList (as_user ''bob''))])) = Reply 200 (Stop True)"
proof -
  obtain s1 where k: "handleKill sample_cfg (at_time 5) (as_user ''amy'') ''covibe-1'' sample_server = (Reply 200 (Killed ''covibe-1''), s1)"
    using sample_kill [of 5] by (cases "handleKill sample_cfg (at_time 5) (as_user ''amy'') ''covibe-1'' sample_server") auto
  have f: "files sample_server ''covibe-1'' = Some (sample_rec\<lparr>rUpdatedAt := 5\<rparr>)" by simp
  have "fst (handleRemotePane (at_time (seconds 60)) True ''covibe-1'' (run (serve ascii_ul (\<lambda>x. x) sample_cfg) s1
      [(at_time 6, QPane True ''covibe-1''), (at_time 40, QList (as_user ''bob''))])) = Reply 200 (Stop True)"
    by (rule conjunct1 [OF kill_sticks [OF sample_inv f _ _ k, of "\<lambda>x. x"]])
      (simp_all add: while_buried_def killedTTL_def seconds_def)
  then show ?thesis by (simp add: k)
qed

text \<open>C36: A slow heartbeat undoes a kill. If a kill lands between the two steps of a heartbeat, while
  its body is still being read, the heartbeat writes the old record back: the wrapper is told to
  go on, the record has its old status again, and every later heartbeat is answered the same way,
  the tombstones notwithstanding.\<close>

theorem slow_heartbeat_undoes_kill:
  assumes "spool_inv (files s)" and "files s i = Some r" and "i \<noteq> []"
    and "rRemote r" and "rStatus r \<noteq> StatusEnded"
    and "handleKill cfg w c i s = (Reply n p, s1)" and "write_ok (sys w2)" and "write_ok (sys w3)"
  shows "pane_begin w1 i s = (Inr r, s) \<and>
    (let (rep, s2) = pane_finish w2 True r s1 in
       rep = Reply 200 (Stop False) \<and> files s2 i = Some (r\<lparr>rUpdatedAt := time w2\<rparr>) \<and>
       fst (handleRemotePane w3 True i s2) = Reply 200 (Stop False))"
proof -
  have b: "pane_begin w i s = (Inr r, s)" if "files s i = Some r" "rRemote r" "rStatus r \<noteq> StatusEnded" for w s r
    using that by (simp add: pane_begin_def Load_def)
  have i: "rID r = i" by (rule kill_done(2) [OF assms(1,6,2)])
  have p: "pane_finish w True r' s = (Reply 200 (Stop False), s\<lparr>files := (files s)(i \<mapsto> r'\<lparr>rUpdatedAt := time w\<rparr>)\<rparr>)"
    if "rID r' = i" "write_ok (sys w)" for w s r'
    using that assms(3) by (simp add: pane_finish_def Save_def)
  let ?s2 = "s1\<lparr>files := (files s1)(i \<mapsto> r\<lparr>rUpdatedAt := time w2\<rparr>)\<rparr>"
  have "pane_begin w3 i ?s2 = (Inr (r\<lparr>rUpdatedAt := time w2\<rparr>), ?s2)" by (rule b) (simp_all add: assms)
  then show ?thesis
    using b [OF assms(2,4,5)] p [OF i assms(7), of s1] p [of "r\<lparr>rUpdatedAt := time w2\<rparr>" w3 ?s2] i assms(8)
    by (simp add: handleRemotePane_def)
qed

theorem slow_heartbeat_undoes_kill_witness:
  "fst (pane_finish (at_time 6) True (sample_rec\<lparr>rUpdatedAt := 5\<rparr>)
      (snd (handleKill sample_cfg (at_time 5) (as_user ''amy'') ''covibe-1'' sample_server))) = Reply 200 (Stop False)"
proof -
  obtain s1 where k: "handleKill sample_cfg (at_time 5) (as_user ''amy'') ''covibe-1'' sample_server = (Reply 200 (Killed ''covibe-1''), s1)"
    using sample_kill [of 5] by (cases "handleKill sample_cfg (at_time 5) (as_user ''amy'') ''covibe-1'' sample_server") auto
  have f: "files sample_server ''covibe-1'' = Some (sample_rec\<lparr>rUpdatedAt := 5\<rparr>)" by simp
  have "let (rep, s2) = pane_finish (at_time 6) True (sample_rec\<lparr>rUpdatedAt := 5\<rparr>) s1 in
      rep = Reply 200 (Stop False) \<and> files s2 ''covibe-1'' = Some (sample_rec\<lparr>rUpdatedAt := 5, rUpdatedAt := time (at_time 6)\<rparr>) \<and>
      fst (handleRemotePane (at_time 7) True ''covibe-1'' s2) = Reply 200 (Stop False)"
    by (rule conjunct2 [OF slow_heartbeat_undoes_kill [OF sample_inv f _ _ _ k]]) simp_all
  then show ?thesis by (auto simp: k split: prod.splits)
qed


text \<open>A wrapper that registers again gets its session back. A registration of a room always
  lands on the same id, whatever was forgotten in between; its member list is untouched, its
  owner too unless the wrapper brings a user key, its start time is kept while the record is
  there, no other record changes, and only a session without a record counts against the limit.\<close>

theorem same_room_same_session:
  assumes "handleRegister ul sha cfg w c (Some q) s = (Reply n (Registered i), s')" and "spool_inv (files s)"
    and "qRoomID q \<noteq> []"
  shows "i = sessionIDForRoom sha (qRoomID q) \<and> members (ACL (acls s') i) = members (ACL (acls s) i) \<and>
    (c_user c = [] \<longrightarrow> acls s' = acls s) \<and> (\<forall>j. j \<noteq> i \<longrightarrow> ACL (acls s') j = ACL (acls s) j \<and> files s' j \<in> {files s j, None}) \<and>
    (\<exists>r. files s' i = Some r \<and> rRoomID r = qRoomID q \<and> rStatus r = StatusStarting \<and>
      (\<forall>r0. files s i = Some r0 \<longrightarrow> rStartedAt r0 \<noteq> 0 \<longrightarrow> rStartedAt r = rStartedAt r0)) \<and>
    (files s i = None \<longrightarrow> max_sessions cfg > 0 \<longrightarrow> dir_ok (sys w) \<longrightarrow>
      int (length (filter (lives (sys w) (keep_ended cfg)) (listing (sys w) (files s)))) < max_sessions cfg)"
proof -
  note res = registered_result [OF assms(1,2)]
  have i: "i = sessionIDForRoom sha (qRoomID q)" using res(1) assms(3) by (simp add: minted_def)
  have a: "members (ACL (acls s') i) = members (ACL (acls s) i)" "c_user c = [] \<longrightarrow> acls s' = acls s"
    "\<forall>j. j \<noteq> i \<longrightarrow> ACL (acls s') j = ACL (acls s) j"
    using res(2) by (simp_all add: SetOwner_ACL)
  have f: "\<forall>j. j \<noteq> i \<longrightarrow> files s' j \<in> {files s j, None}" using res(4) by blast
  have r: "\<exists>r. files s' i = Some r \<and> rRoomID r = qRoomID q \<and> rStatus r = StatusStarting \<and>
      (\<forall>r0. files s i = Some r0 \<longrightarrow> rStartedAt r0 \<noteq> 0 \<longrightarrow> rStartedAt r = rStartedAt r0)"
    unfolding res(3) by (simp add: registered_def)
  have "int (length (filter (lives (sys w) (keep_ended cfg)) (listing (sys w) (files s)))) < max_sessions cfg"
    if "files s i = None" "max_sessions cfg > 0" "dir_ok (sys w)"
    using res(7) [OF that(1)] that(2,3) by (simp add: over_limit_def Live_eq)
  with i a f r show ?thesis by blast
qed

definition sample_request :: RegisterRequest where
  "sample_request = \<lparr>qName = ''demo'', qDir = [], qModel = [], qThinking = [], qHost = [],
     qRelay = [], qJoinLink = [], qBrowserURL = [], qRoomID = ''room-000001'', qViewOnly = False\<rparr>"

definition sample_sha :: "bytes \<Rightarrow> bytes" where
  "sample_sha x = map char_of [1, 2, 3, 4, 5, 6, 7, 8, 9 :: nat]"

lemma sample_request_ok: "register_refusal sample_request = None"
proof -
  have "TrimSpace ''demo'' = ''demo''" by (simp add: TrimSpace_ascii ascii_def space_rune_def)
  then show ?thesis
    by (simp add: register_refusal_def sample_request_def validateName_def safeName_def matches_def alnum_char_def safeRoomID_def)
qed

lemma sample_register: "killed s = (\<lambda>_. None) \<Longrightarrow>
   \<exists>s'. handleRegister ascii_ul sample_sha sample_cfg (at_time t) c (Some sample_request) s
     = (Reply 201 (Registered (sessionIDForRoom sample_sha ''room-000001'')), s')"
proof -
  have room: "qRoomID sample_request = ''room-000001''" by (simp add: sample_request_def)
  have lim: "over_limit sample_cfg (at_time t) s = (False, s)" for s
    by (simp add: over_limit_def sample_cfg_def)
  have ne: "sessionIDForRoom sample_sha ''room-000001'' \<noteq> []" by (simp add: sessionIDForRoom_def)
  assume k: "killed s = (\<lambda>_. None)"
  show ?thesis
    using ne by (simp add: handleRegister_def was_killed_def k room sample_request_ok minted_def lim Let_def
        register_save_def Save_def registered_def split: option.split)
qed

theorem same_room_same_session_witness:
  "\<exists>s' r. handleRegister ascii_ul sample_sha sample_cfg (at_time 9) nobody (Some sample_request) sample_server
     = (Reply 201 (Registered (sessionIDForRoom sample_sha ''room-000001'')), s') \<and>
     files s' (sessionIDForRoom sample_sha ''room-000001'') = Some r \<and> acls s' = sample_acls"
proof -
  obtain s' where s': "handleRegister ascii_ul sample_sha sample_cfg (at_time 9) nobody (Some sample_request) sample_server
     = (Reply 201 (Registered (sessionIDForRoom sample_sha ''room-000001'')), s')"
    using sample_register [of sample_server] by auto
  have "qRoomID sample_request \<noteq> []" by (simp add: sample_request_def)
  from same_room_same_session [OF s' sample_inv this] show ?thesis
    using s' by (auto simp: nobody_def)
qed

text \<open>Whoever knows a session's room can take the session over. Registering the room of a session
  with a user key makes that key's user its owner, whoever owned it before: the new owner may
  kill it and change its members, and the old one, unless an admin, may not any more. The room id
  is part of every join link.\<close>

theorem room_key_takes_over:
  assumes "handleRegister ul sha cfg w c (Some q) s = (Reply n (Registered i), s')" and "spool_inv (files s)"
    and "c_user c \<noteq> []" and "Key ul (c_user c) = c_user c" and "c_user c \<in> set (c_principals c)"
    and "canManage old (ACL (acls s) i)" and "\<not> c_admin old" and "c_user c \<notin> set (c_principals old)"
  shows "canManage c (ACL (acls s') i) \<and> \<not> canManage old (ACL (acls s') i)"
proof -
  note res = registered_result [OF assms(1,2)]
  have "owner (ACL (acls s') i) = c_user c"
    using res(2,6) assms(3,4) by (simp add: SetOwner_ACL)
  then show ?thesis using assms(3,5,7,8) by (auto simp: canManage_def list_ex_iff)
qed

theorem room_key_takes_over_witness:
  "\<exists>s s'. owner (ACL (acls s) (sessionIDForRoom sample_sha ''room-000001'')) = ''amy'' \<and>
     handleRegister ascii_ul sample_sha sample_cfg (at_time 9) (as_user ''bob'') (Some sample_request) s
       = (Reply 201 (Registered (sessionIDForRoom sample_sha ''room-000001'')), s') \<and>
     canManage (as_user ''bob'') (ACL (acls s') (sessionIDForRoom sample_sha ''room-000001'')) \<and>
     \<not> canManage (as_user ''amy'') (ACL (acls s') (sessionIDForRoom sample_sha ''room-000001''))"
proof -
  let ?i = "sessionIDForRoom sample_sha ''room-000001''"
  let ?s = "sample_server\<lparr>acls := sample_acls\<lparr>sessions := [?i \<mapsto> \<lparr>owner = ''amy'', members = [''bob''], addedAt = 3\<rparr>]\<rparr>\<rparr>"
  obtain s' where s': "handleRegister ascii_ul sample_sha sample_cfg (at_time 9) (as_user ''bob'') (Some sample_request) ?s
       = (Reply 201 (Registered ?i), s')"
    using sample_register [of ?s] by auto
  have inv: "spool_inv (files ?s)" using sample_inv by simp
  have o: "owner (ACL (acls ?s) ?i) = ''amy''" by (simp add: ACL_def)
  have k: "Key ascii_ul ''bob'' = ''bob''"
    by (simp add: Key_def TrimSpace_ascii ascii_def space_rune_def ToLower_ascii lower_char_def)
  have "canManage (as_user ''bob'') (ACL (acls s') ?i) \<and> \<not> canManage (as_user ''amy'') (ACL (acls s') ?i)"
    by (rule room_key_takes_over [OF s' inv])
      (use o k in \<open>simp_all add: as_user_def nobody_def canManage_def del: sample_files\<close>)
  then show ?thesis using s' o by blast
qed

end
