(* ===== verification/Frames.thy ===== *)
theory Frames
  imports Base64
begin

text \<open>
  What the transports of a terminal share (\<open>dashboard/terminal.go\<close>, \<open>session/termhost.go\<close>,
  \<open>session/p2pterm.go\<close>): the clamp on sizes, the screen with carriage returns, the control frames
  in either direction, the \<open>termSource\<close> interface, and the loop that applies a peer's frames to a
  source. The loop takes the source's methods as arguments, as the Go code takes the interface.
\<close>

section \<open>Sizes\<close>

definition termSize :: "int \<Rightarrow> int \<Rightarrow> int \<times> int" where
  "termSize cols rows = (if cols < 20 \<or> cols > 500 then 120 else cols, if rows < 5 \<or> rows > 200 then 40 else rows)"

definition clampTermSize :: "int \<Rightarrow> int \<Rightarrow> int \<times> int" where
  "clampTermSize cols rows = (if cols < 20 \<or> cols > 500 then 120 else cols, if rows < 5 \<or> rows > 200 then 40 else rows)"

definition pane_size :: "int \<times> int \<Rightarrow> bool" where
  "pane_size z = (20 \<le> fst z \<and> fst z \<le> 500 \<and> 5 \<le> snd z \<and> snd z \<le> 200)"

lemma sizes_ok [simp]: "pane_size (termSize x y)" "pane_size (clampTermSize x y)"
  by (simp_all add: pane_size_def termSize_def clampTermSize_def)

lemma sizes_agree: "clampTermSize x y = termSize x y" "pane_size (x, y) \<Longrightarrow> termSize x y = (x, y)"
  by (auto simp: pane_size_def termSize_def clampTermSize_def)

section \<open>Screens\<close>

text \<open>The loop of \<open>screenCRLF\<close> and of its twin \<open>screenToCRLF\<close>; the first argument is the byte before.\<close>

fun crlf_from :: "char option \<Rightarrow> bytes \<Rightarrow> bytes" where
  "crlf_from prev [] = []"
| "crlf_from prev (b # s) =
     (if b = newline \<and> prev \<noteq> Some carriage then carriage # b # crlf_from (Some b) s
      else b # crlf_from (Some b) s)"

definition screenCRLF :: "bytes \<Rightarrow> bytes" where "screenCRLF s = crlf_from None s"
definition screenToCRLF :: "bytes \<Rightarrow> bytes" where "screenToCRLF s = crlf_from None s"

text \<open>A terminal paints a text without a staircase if every line feed follows a carriage return.\<close>

fun no_staircase :: "char option \<Rightarrow> bytes \<Rightarrow> bool" where
  "no_staircase prev [] = True"
| "no_staircase prev (b # s) = ((b = newline \<longrightarrow> prev = Some carriage) \<and> no_staircase (Some b) s)"

lemma newline_carriage [simp]: "newline \<noteq> carriage" "carriage \<noteq> newline"
  by (simp_all add: newline_def carriage_def)

lemma crlf_clean: "no_staircase prev (crlf_from prev s)"
  by (induction prev s rule: crlf_from.induct) auto

lemma crlf_of_clean: "no_staircase prev s \<Longrightarrow> crlf_from prev s = s"
  by (induction prev s rule: crlf_from.induct) auto

lemma crlf_idem: "crlf_from prev (crlf_from prev s) = crlf_from prev s"
  by (rule crlf_of_clean) (rule crlf_clean)

lemma crlf_same_lines: "filter (\<lambda>c. c \<noteq> carriage) (crlf_from prev s) = filter (\<lambda>c. c \<noteq> carriage) s"
  by (induction prev s rule: crlf_from.induct) auto

section \<open>Control frames\<close>

text \<open>A frame as it was read: terminal bytes, or text, which is \<open>None\<close> when it is no JSON of a frame.\<close>

datatype term_msg = MInput bytes | MResize int int | MSnapshot | MOther

datatype term_frame = TBinary bytes | TText "term_msg option"

definition clear_home :: bytes where
  "clear_home = CHR 0x1B # ''[2J'' @ CHR 0x1B # ''[H''"

text \<open>One frame against a source with its \<open>snapshot\<close>, \<open>send\<close> and \<open>resize\<close>; the second component
  is what goes back to the peer.\<close>

definition apply_frame :: "('s \<Rightarrow> bytes) \<Rightarrow> (bytes \<Rightarrow> 's \<Rightarrow> 's) \<Rightarrow> (int \<Rightarrow> int \<Rightarrow> 's \<Rightarrow> 's) \<Rightarrow> bool
    \<Rightarrow> 's \<times> bytes list \<Rightarrow> term_frame \<Rightarrow> 's \<times> bytes list" where
  "apply_frame snap send resize write st f = (case f of
     TText (Some MSnapshot) \<Rightarrow> (fst st, snd st @ [clear_home @ snap (fst st)])
   | TText (Some (MInput p)) \<Rightarrow>
       if \<not> write then st
       else (case std_decode p of None \<Rightarrow> st | Some raw \<Rightarrow> (send raw (fst st), snd st))
   | TText (Some (MResize x y)) \<Rightarrow>
       if \<not> write then st
       else (case clampTermSize x y of (cols, rows) \<Rightarrow> (resize cols rows (fst st), snd st))
   | _ \<Rightarrow> st)"

definition readLoop :: "('s \<Rightarrow> bytes) \<Rightarrow> (bytes \<Rightarrow> 's \<Rightarrow> 's) \<Rightarrow> (int \<Rightarrow> int \<Rightarrow> 's \<Rightarrow> 's) \<Rightarrow> bool
    \<Rightarrow> term_frame list \<Rightarrow> 's \<Rightarrow> 's \<times> bytes list" where
  "readLoop snap send resize write fs s = foldl (apply_frame snap send resize write) (s, []) fs"

text \<open>The bytes a list of frames types.\<close>

fun frame_input :: "term_frame \<Rightarrow> bytes list" where
  "frame_input (TText (Some (MInput p))) = (case std_decode p of None \<Rightarrow> [] | Some raw \<Rightarrow> [raw])"
| "frame_input _ = []"

section \<open>The source interface\<close>

text \<open>
  What the loops rely on: a source in use (\<open>ok\<close>) stays in use, its screen paints cleanly, what it
  is sent arrives at the program unchanged and in order (\<open>typed\<close> is all the program was given,
  \<open>fits\<close> says which pieces the source takes at all), and a resize types nothing.
\<close>

locale term_source =
  fixes snap :: "'s \<Rightarrow> bytes"
    and send :: "bytes \<Rightarrow> 's \<Rightarrow> 's"
    and resize :: "int \<Rightarrow> int \<Rightarrow> 's \<Rightarrow> 's"
    and ok :: "'s \<Rightarrow> bool"
    and fits :: "bytes \<Rightarrow> bool"
    and typed :: "'s \<Rightarrow> bytes"
  assumes snap_clean: "no_staircase None (snap s)"
    and send_ok: "ok s \<Longrightarrow> ok (send b s)"
    and resize_ok: "ok s \<Longrightarrow> pane_size (x, y) \<Longrightarrow> ok (resize x y s)"
    and send_typed: "ok s \<Longrightarrow> typed (send b s) = typed s @ (if fits b then b else [])"
    and resize_typed: "ok s \<Longrightarrow> pane_size (x, y) \<Longrightarrow> typed (resize x y s) = typed s"
begin

lemma frame_typed:
  assumes "ok (fst st)"
  shows "ok (fst (apply_frame snap send resize write st f)) \<and>
    typed (fst (apply_frame snap send resize write st f)) =
      typed (fst st) @ (if write then concat (filter fits (frame_input f)) else [])"
proof -
  show ?thesis
  proof (cases "\<exists>x y. f = TText (Some (MResize x y))")
    case True
    then obtain x y where f: "f = TText (Some (MResize x y))" by blast
    obtain a b where ab: "clampTermSize x y = (a, b)" by (cases "clampTermSize x y")
    then have "pane_size (a, b)" using sizes_ok(2) [of x y] by simp
    then show ?thesis using assms f ab resize_ok resize_typed by (simp add: apply_frame_def)
  next
    case False
    then show ?thesis
      using assms send_ok send_typed
      by (cases f) (auto simp: apply_frame_def split: option.split term_msg.split)
  qed
qed

lemma loop_typed:
  "ok (fst st) \<Longrightarrow> ok (fst (foldl (apply_frame snap send resize write) st fs)) \<and>
    typed (fst (foldl (apply_frame snap send resize write) st fs)) =
      typed (fst st) @ (if write then concat (filter fits (concat (map frame_input fs))) else [])"
proof (induction fs arbitrary: st)
  case (Cons f fs)
  then show ?case using frame_typed [OF Cons.prems, of "write" f] by simp
qed simp

lemma viewer_powerless: "fst (foldl (apply_frame snap send resize False) st fs) = fst st"
proof (induction fs arbitrary: st)
  case (Cons f fs)
  have "fst (apply_frame snap send resize False st f) = fst st"
    by (auto simp: apply_frame_def split: term_frame.split option.split term_msg.split)
  then show ?case using Cons by simp
qed simp

lemma repaints_clean: "(\<And>p. p \<in> set (snd st) \<Longrightarrow> \<exists>s. p = clear_home @ snap s) \<Longrightarrow>
   p \<in> set (snd (foldl (apply_frame snap send resize write) st fs)) \<Longrightarrow>
   \<exists>t. p = clear_home @ t \<and> no_staircase None t"
proof (induction fs arbitrary: st)
  case Nil
  then show ?case using snap_clean by fastforce
next
  case (Cons f fs)
  have "\<exists>s. q = clear_home @ snap s" if "q \<in> set (snd (apply_frame snap send resize write st f))" for q
    using that Cons.prems(1)
    by (auto simp: apply_frame_def split: term_frame.splits option.splits term_msg.splits prod.splits if_splits)
  then show ?case by (rule Cons.IH) (use Cons.prems(2) in simp_all)
qed

end

end
