(* ===== verification/Terminal.thy ===== *)
theory Terminal
  imports Server Frames
begin

text \<open>
  The terminal of a session on the dashboard's own host (\<open>dashboard/terminal.go\<close>): reading the
  screen, typing over REST, and the browser's socket, whose loop drives a tmux control client
  (\<open>Tmuxctl.client\<close>). A handler that types also returns the tmux commands it ran, in order.
\<close>

definition terminalTarget :: "config \<Rightarrow> outside \<Rightarrow> caller \<Rightarrow> bytes \<Rightarrow> server \<Rightarrow> (reply + rec \<times> tmux_server) \<times> server" where
  "terminalTarget cfg w c i s = (case visibleRecord cfg w c i s of
     (None, s1) \<Rightarrow> (Inl no_such_session, s1)
   | (Some r, s1) \<Rightarrow> (case terminalServer r of
         None \<Rightarrow> (Inl (Fail 409 ''session has no covibe-driven terminal''), s1)
       | Some srv \<Rightarrow> (Inr (r, srv), s1)))"

section \<open>Screens\<close>

definition screenLimit :: int where "screenLimit = 5000"

definition parseSGR :: "bytes \<Rightarrow> bytes list" where
  "parseSGR params = filter (\<lambda>p. \<not> (p = [] \<or> p = ''0'')) (Split params CHR '';'')"

text \<open>One escape sequence at the start of a text: its parameters and what follows.\<close>

definition sgr_param :: "char \<Rightarrow> bool" where
  "sgr_param c = (is_digit c \<or> c = CHR '';'')"

definition sgr_at :: "bytes \<Rightarrow> (bytes \<times> bytes) option" where
  "sgr_at s = (if HasPrefix s (CHR 0x1B # ''['')
     then let r = drop 2 s in
       (case dropWhile sgr_param r of c # rest \<Rightarrow> if c = CHR ''m'' then Some (takeWhile sgr_param r, rest) else None
        | [] \<Rightarrow> None)
     else None)"

lemma sgr_at_shorter: "sgr_at s = Some (p, r) \<Longrightarrow> length r < length s"
proof -
  assume a: "sgr_at s = Some (p, r)"
  then have "dropWhile sgr_param (drop 2 s) = CHR ''m'' # r"
    by (auto simp: sgr_at_def Let_def split: if_splits list.splits)
  then have "length (CHR ''m'' # r) \<le> length (drop 2 s)" by (metis length_dropWhile_le)
  then show ?thesis by simp
qed

definition flush :: "bytes \<Rightarrow> bytes list \<Rightarrow> (bytes \<times> bytes list) list" where
  "flush text sgr = (if text = [] then [] else [(text, sgr)])"

function sgr_runs :: "bytes \<Rightarrow> bytes list \<Rightarrow> bytes \<Rightarrow> (bytes \<times> bytes list) list" where
  "sgr_runs text sgr line = (case sgr_at line of
     Some (params, rest) \<Rightarrow> flush text sgr @ sgr_runs [] (parseSGR params) rest
   | None \<Rightarrow> (case line of [] \<Rightarrow> flush text sgr | b # rest \<Rightarrow> sgr_runs (text @ [b]) sgr rest))"
  by pat_completeness auto
termination
  by (relation "measure (\<lambda>(text, sgr, line). length line)") (auto dest: sgr_at_shorter)

declare sgr_runs.simps [simp del]

definition sgrRows :: "bytes \<Rightarrow> (bytes \<times> bytes list) list list" where
  "sgrRows screen = map (sgr_runs [] []) (Split (TrimRight screen [newline]) newline)"

definition handleScreen :: "config \<Rightarrow> outside \<Rightarrow> caller \<Rightarrow> bytes \<Rightarrow> bytes \<Rightarrow> bytes \<Rightarrow> bytes \<Rightarrow> server \<Rightarrow> reply \<times> server" where
  "handleScreen cfg w c i format n alt s = (case terminalTarget cfg w c i s of
     (Inl rep, s1) \<Rightarrow> (rep, s1)
   | (Inr (r, srv), s1) \<Rightarrow>
       let format = (if format = [] then ''text'' else format);
           n = Atoi n; n = (if n < 0 \<or> n > screenLimit then screenLimit else n)
       in case Capture (tmux_cmd w) srv (tmuxTarget w srv r)
             \<lparr>Escapes = (format \<noteq> ''text''), Lines = n, Alt = (alt = ''1'')\<rparr> of
           None \<Rightarrow> (Fail 503 ''screen unavailable'', s1)
         | Some out \<Rightarrow>
             if format = ''text'' \<or> format = ''ansi'' then (Reply 200 (Screen format out), s1)
             else if format = ''cells'' then (Reply 200 (Cells (sgrRows out)), s1)
             else (Fail 400 ''format must be text, ansi or cells'', s1))"

section \<open>Typing over REST\<close>

text \<open>The keys in order, up to the first that fails.\<close>

fun send_named :: "tmux_exec \<Rightarrow> tmux_server \<Rightarrow> bytes \<Rightarrow> bytes list \<Rightarrow> tmux_error option \<times> bytes list list" where
  "send_named tmux srv tgt [] = (None, [])"
| "send_named tmux srv tgt (k # ks) = (case SendNamedKey tmux srv tgt k of
     Some e \<Rightarrow> (Some e, if safeKeyName k then [argv srv [''send-keys'', ''-t'', paneTarget tgt, k]] else [])
   | None \<Rightarrow> (case send_named tmux srv tgt ks of
       (e, cmds) \<Rightarrow> (e, argv srv [''send-keys'', ''-t'', paneTarget tgt, k] # cmds)))"

definition text_commands :: "tmux_server \<Rightarrow> bytes \<Rightarrow> bytes \<Rightarrow> bytes list list" where
  "text_commands srv tgt t = (if t = [] \<or> length t > maxInput then []
     else [argv srv ([''send-keys'', ''-H'', ''-t'', paneTarget tgt] @ hexBytes t)])"

definition handleInput :: "config \<Rightarrow> outside \<Rightarrow> caller \<Rightarrow> bytes \<Rightarrow> (bytes \<times> bytes list) option \<Rightarrow> server
    \<Rightarrow> reply \<times> bytes list list \<times> server" where
  "handleInput cfg w c i body s = (case terminalTarget cfg w c i s of
     (Inl rep, s1) \<Rightarrow> (rep, [], s1)
   | (Inr (r, srv), s1) \<Rightarrow>
       if \<not> canWrite s1 r c then (Fail 403 ''session is view-only'', [], s1)
       else case body of None \<Rightarrow> (Fail 400 ''invalid JSON body'', [], s1)
       | Some (t, ks) \<Rightarrow>
         let tgt = tmuxTarget w srv r in
         if t = [] \<and> ks = [] then (Fail 400 ''text or keys required'', [], s1)
         else if t \<noteq> [] \<and> SendKeys (tmux_cmd w) srv tgt t \<noteq> None
         then (Fail 503 ''send failed'', text_commands srv tgt t, s1)
         else case send_named (tmux_cmd w) srv tgt ks of
             (Some e, cmds) \<Rightarrow> (Fail 400 ''invalid key'', text_commands srv tgt t @ cmds, s1)
           | (None, cmds) \<Rightarrow> (Reply 200 Typed, text_commands srv tgt t @ cmds, s1))"

section \<open>The browser's socket\<close>

text \<open>What opening the socket comes to: a reply instead, the relay to a wrapper, or a control client
  for a tmux session at a size, with the right to type or not.\<close>

datatype ws_open = WsRefused reply | WsRemote rec bool | WsLocal tmux_server bytes "int \<times> int" bool

definition handleTerminalWS :: "config \<Rightarrow> outside \<Rightarrow> caller \<Rightarrow> bytes \<Rightarrow> bytes \<Rightarrow> bytes \<Rightarrow> server \<Rightarrow> ws_open \<times> server" where
  "handleTerminalWS cfg w c i cols rows s = (case visibleRecord cfg w c i s of
     (None, s1) \<Rightarrow> (WsRefused no_such_session, s1)
   | (Some r, s1) \<Rightarrow>
       let wr = canWrite s1 r c in
       if rRemote r then (WsRemote r wr, s1)
       else case terminalServer r of
           None \<Rightarrow> (WsRefused (Fail 409 ''session has no covibe-driven terminal''), s1)
         | Some srv \<Rightarrow> (WsLocal srv (tmuxTarget w srv r) (termSize (Atoi cols) (Atoi rows)) wr, s1))"

text \<open>The first binary frame of a local socket, when the capture works.\<close>

definition first_paint :: "tmux_exec \<Rightarrow> tmux_server \<Rightarrow> bytes \<Rightarrow> bytes option" where
  "first_paint tmux srv tgt = map_option (\<lambda>snap. clear_home @ screenCRLF snap)
     (Capture tmux srv tgt \<lparr>Escapes = True, Lines = 0, Alt = False\<rparr>)"

definition termReadLoop_frame :: "bool \<Rightarrow> client \<Rightarrow> term_frame \<Rightarrow> client" where
  "termReadLoop_frame write cl f = (case f of
     TText (Some (MInput p)) \<Rightarrow>
       if \<not> write then cl else (case std_decode p of None \<Rightarrow> cl | Some raw \<Rightarrow> snd (Send raw cl))
   | TText (Some (MResize x y)) \<Rightarrow> (case termSize x y of (cols, rows) \<Rightarrow> snd (Resize cols rows cl))
   | _ \<Rightarrow> cl)"

definition termReadLoop :: "bool \<Rightarrow> term_frame list \<Rightarrow> client \<Rightarrow> client" where
  "termReadLoop write fs cl = foldl (termReadLoop_frame write) cl fs"

section \<open>Facts\<close>

text \<open>The structured screen loses no text: the texts of a row's runs are the row without its escape
  sequences. It does lose styling: a zero among the parameters of one sequence is dropped with the
  resets it is mistaken for.\<close>

function sgr_strip :: "bytes \<Rightarrow> bytes" where
  "sgr_strip line = (case sgr_at line of Some (params, rest) \<Rightarrow> sgr_strip rest
     | None \<Rightarrow> (case line of [] \<Rightarrow> [] | b # rest \<Rightarrow> b # sgr_strip rest))"
  by pat_completeness auto
termination
  by (relation "measure length") (auto dest: sgr_at_shorter)

declare sgr_strip.simps [simp del]

lemma sgr_runs_text: "concat (map fst (sgr_runs text sgr line)) = text @ sgr_strip line"
proof (induction "text" sgr line rule: sgr_runs.induct)
  case (1 t sgr line)
  show ?case
  proof (cases "sgr_at line")
    case (Some x)
    obtain p r where x: "x = (p, r)" by (cases x)
    show ?thesis
      using 1(2) [OF Some x [symmetric]] Some x
      by (subst sgr_runs.simps, subst sgr_strip.simps) (simp add: flush_def)
  next
    case None
    then show ?thesis
      using 1(1) [OF None]
      by (subst sgr_runs.simps, subst sgr_strip.simps) (cases line; simp add: flush_def)
  qed
qed

lemma sgr_zero_lost: "parseSGR ''38;5;0'' = [''38'', ''5'']"
  by (simp add: parseSGR_def)

text \<open>Who may not write types nothing.\<close>

lemma handleInput_refused:
  assumes "spool_inv (files s)" and "files s i = Some r" and "\<not> canWrite s r c"
  shows "fst (snd (handleInput cfg w c i body s)) = []"
proof (cases "visibleRecord cfg w c i s")
  case (Pair ro s1)
  show ?thesis
  proof (cases ro)
    case None
    then show ?thesis using Pair by (simp add: handleInput_def terminalTarget_def)
  next
    case (Some r0)
    then have l: "liveRecord cfg w i s = (Some r0, s1)"
      using Pair by (auto simp: visibleRecord_def split: prod.splits option.splits if_splits)
    note f = liveRecord_Some [OF assms(1) l]
    have "r0 = r" "acls s1 = acls s" using f(2) assms(2) by (simp, subst f(5), simp)
    then have "\<not> canWrite s1 r0 c" using assms(3) by (simp add: canWrite_def split: if_splits)
    then show ?thesis using Pair Some
      by (simp add: handleInput_def terminalTarget_def split: option.split)
  qed
qed

lemma termReadLoop_viewer:
  "termReadLoop False fs cl = termReadLoop wr (filter (\<lambda>f. \<nexists>p. f = TText (Some (MInput p))) fs) cl"
proof (induction fs arbitrary: cl)
  case (Cons f fs)
  then show ?case
    by (auto simp: termReadLoop_def termReadLoop_frame_def split: term_frame.split option.split term_msg.split prod.split)
qed (simp add: termReadLoop_def)

end
