(* ===== verification/Pages.thy ===== *)
theory Pages
  imports Terminal
begin

text \<open>
  What the dashboard serves to a browser besides the API: the embedded assets (\<open>dashboard/assets.go\<close>), the
  model list of the create form (\<open>models.go\<close>), and the two pages with their content security policy and
  the data their templates are given (\<open>server.go\<close>, \<open>terminal.go\<close>). Rendering a template and drawing a QR
  code are left out.
\<close>

section \<open>Assets\<close>

record asset =
  aBody :: bytes
  aType :: bytes
  aEtag :: bytes
  aCache :: bytes

definition cacheImmutable :: bytes where "cacheImmutable = ''public, max-age=31536000, immutable''"
definition cacheRevalidate :: bytes where "cacheRevalidate = ''public, max-age=300, must-revalidate''"

text \<open>\<open>path.Ext\<close>: from the last dot on, unless a slash follows it.\<close>

definition Ext :: "bytes \<Rightarrow> bytes" where
  "Ext p = (let t = takeWhile (\<lambda>c. c \<noteq> CHR ''.'' \<and> c \<noteq> CHR ''/'') (rev p); r = drop (length t) (rev p) in
     case r of [] \<Rightarrow> [] | c # _ \<Rightarrow> if c = CHR ''.'' then c # rev t else [])"

definition contentType :: "bytes \<Rightarrow> bytes" where
  "contentType name = (let e = Ext name in
     if e = ''.js'' then ''application/javascript; charset=utf-8''
     else if e = ''.css'' then ''text/css; charset=utf-8'' else ''application/octet-stream'')"

definition asset_of :: "(bytes \<Rightarrow> bytes) \<Rightarrow> bytes \<Rightarrow> bytes \<Rightarrow> asset" where
  "asset_of sha name body = \<lparr>aBody = body, aType = contentType name,
     aEtag = [CHR 0x22] @ EncodeToString (sha body) @ [CHR 0x22],
     aCache = (if name = ''terminal.js'' then cacheRevalidate else cacheImmutable)\<rparr>"

definition loadAssets :: "(bytes \<Rightarrow> bytes) \<Rightarrow> (bytes \<times> bytes) list \<Rightarrow> bytes \<rightharpoonup> asset" where
  "loadAssets sha embedded = map_of (map (\<lambda>e. (fst e, asset_of sha (fst e) (snd e))) (rev embedded))"

datatype asset_reply = AssetMethodNotAllowed | AssetNotFound | AssetServed asset

definition assetHandler :: "(bytes \<rightharpoonup> asset) \<Rightarrow> bytes \<Rightarrow> bytes \<Rightarrow> asset_reply" where
  "assetHandler assets method url = (
     if method \<noteq> ''GET'' \<and> method \<noteq> ''HEAD'' then AssetMethodNotAllowed
     else case assets (TrimPrefix url ''/assets/'') of None \<Rightarrow> AssetNotFound | Some a \<Rightarrow> AssetServed a)"

section \<open>The model list\<close>

record model_option =
  moSelector :: bytes
  moName :: bytes
  moProvider :: bytes
  moThinking :: "bytes list"

definition modelsTTL :: nanos where "modelsTTL = seconds (5 * 60)"

record models_cache =
  models :: "model_option list option"      \<comment> \<open>\<open>None\<close> is the nil slice it starts as\<close>
  modelsAt :: nanos

text \<open>\<open>listed\<close> is what \<open>omp models --json\<close> printed, or \<open>None\<close> when it failed or printed something
  else. The two clocks are read before and after it ran. Ties of the sort, which is not stable, are left in
  their order.\<close>

definition enumerateModels :: "nanos \<Rightarrow> nanos \<Rightarrow> model_option list option \<Rightarrow> models_cache \<Rightarrow> model_option list \<times> models_cache" where
  "enumerateModels t t' listed c = (
     if models c \<noteq> None \<and> t - modelsAt c < modelsTTL then (the (models c), c)
     else case listed of
       None \<Rightarrow> (case models c of None \<Rightarrow> [] | Some l \<Rightarrow> l, c)
     | Some ms \<Rightarrow> let opts = sort_key (\<lambda>q. (moProvider q, moName q)) (filter (\<lambda>q. moSelector q \<noteq> []) ms)
         in (opts, \<lparr>models = Some opts, modelsAt = t'\<rparr>))"

definition by_selector :: "model_option list \<Rightarrow> bytes \<rightharpoonup> model_option" where
  "by_selector all = map_of (rev (map (\<lambda>q. (moSelector q, q)) all))"

definition modelOptions :: "bytes list \<Rightarrow> nanos \<Rightarrow> nanos \<Rightarrow> model_option list option \<Rightarrow> models_cache \<Rightarrow> model_option list \<times> models_cache" where
  "modelOptions curated t t' listed c = (case enumerateModels t t' listed c of (all, c') \<Rightarrow>
     (if curated = [] then all
      else map (\<lambda>sel. case by_selector all sel of Some q \<Rightarrow> q
         | None \<Rightarrow> \<lparr>moSelector = sel, moName = sel, moProvider = ''configured'', moThinking = []\<rparr>) curated, c'))"

section \<open>The pages\<close>

definition quote :: char where "quote = CHR 0x27"

definition csp :: "bytes \<Rightarrow> bytes" where
  "csp nonce = ''default-src '' @ [quote] @ ''self'' @ [quote] @ ''; script-src '' @ [quote] @ ''nonce-'' @ nonce @ [quote] @ '' '' @
     [quote] @ ''self'' @ [quote] @ ''; style-src '' @ [quote] @ ''nonce-'' @ nonce @ [quote] @ '' '' @ [quote] @ ''self'' @ [quote] @ ''; '' @
     ''style-src-attr '' @ [quote] @ ''unsafe-inline'' @ [quote] @ ''; img-src '' @ [quote] @ ''self'' @ [quote] @ '' data:; connect-src '' @
     [quote] @ ''self'' @ [quote] @ '' ws: wss:; '' @ ''base-uri '' @ [quote] @ ''none'' @ [quote] @ ''; frame-ancestors '' @ [quote] @ ''none'' @
     [quote] @ ''; object-src '' @ [quote] @ ''none'' @ [quote] @ ''; form-action '' @ [quote] @ ''self'' @ [quote]"

definition randToken :: "bytes \<Rightarrow> bytes" where
  "randToken random24 = rawurl_encode random24"

record index_page =
  ipUser :: identity
  ipAdmin :: bool
  ipRelay :: bytes
  ipCanCreate :: bool
  ipModels :: "bytes list"
  ipNonce :: bytes

record terminal_page =
  tpID :: bytes
  tpName :: bytes
  tpDir :: bytes
  tpCanWrite :: bool
  tpNonce :: bytes

definition handleIndex :: "(nat \<Rightarrow> nat) \<Rightarrow> config \<Rightarrow> bytes \<Rightarrow> bytes list \<Rightarrow> identity option \<Rightarrow> bytes \<Rightarrow> bytes
    \<Rightarrow> (index_page \<times> bytes) option" where
  "handleIndex ul cfg relay curated cur random24 url = (if url \<noteq> ''/'' then None
     else let i = (case cur of None \<Rightarrow> zero_identity | Some i \<Rightarrow> i); nonce = randToken random24
       in Some (\<lparr>ipUser = i, ipAdmin = IsAdmin ul (auth_cfg cfg) i, ipRelay = relay,
          ipCanCreate = (create_enabled cfg \<and> workspace_root cfg \<noteq> []), ipModels = curated, ipNonce = nonce\<rparr>, csp nonce))"

definition handleTerminalPage :: "config \<Rightarrow> outside \<Rightarrow> caller \<Rightarrow> bytes \<Rightarrow> bytes \<Rightarrow> server
    \<Rightarrow> (terminal_page \<times> bytes) option \<times> server" where
  "handleTerminalPage cfg w c random24 i s = (case liveRecord cfg w i s of
     (None, s1) \<Rightarrow> (None, s1)
   | (Some r, s1) \<Rightarrow>
       if \<not> canSee c (ACL (acls s1) (rID r)) then (None, s1)
       else let nonce = randToken random24
         in (Some (\<lparr>tpID = rID r, tpName = orDefault (rName r) (rID r), tpDir = rDir r,
              tpCanWrite = canWrite s1 r c, tpNonce = nonce\<rparr>, csp nonce), s1))"

text \<open>\<open>handleQR\<close> up to the drawing: the text to draw and its size in pixels.\<close>

definition handleQR :: "bytes \<Rightarrow> bytes \<Rightarrow> (bytes \<times> int) option" where
  "handleQR text_arg size_arg = (if text_arg = [] then None
     else let n = Atoi size_arg in Some (text_arg, if n \<le> 0 then 256 else n))"

section \<open>The nonce on its way to the styles\<close>

text \<open>What a browser makes of a policy: the sources of one directive.\<close>

definition words :: "bytes \<Rightarrow> bytes list" where
  "words d = filter (\<lambda>t. t \<noteq> []) (Split d CHR '' '')"

definition directive :: "bytes \<Rightarrow> bytes \<Rightarrow> bytes list" where
  "directive name policy = (case find (\<lambda>d. d \<noteq> [] \<and> hd d = name) (map words (Split policy CHR '';'')) of
     None \<Rightarrow> [] | Some d \<Rightarrow> tl d)"

lemma Split_prefix: "c \<notin> set a \<Longrightarrow> Split (a @ b) c = (a @ hd (Split b c)) # tl (Split b c)"
  by (induction a) (auto split: list.split)

lemma csp_styles:
  assumes "CHR '';'' \<notin> set n" and "CHR '' '' \<notin> set n"
  shows "directive ''style-src'' (csp n) = [[quote] @ ''nonce-'' @ n @ [quote], [quote] @ ''self'' @ [quote]]"
  using assms by (simp add: directive_def words_def csp_def quote_def Split_prefix)

section \<open>Assets and models\<close>

text \<open>Only what is embedded is served, under its exact name: no path reaches further. What may be cached
  for a year is everything except the one script that changes between builds.\<close>

theorem assets_flat:
  "(assetHandler (loadAssets sha embedded) method url = AssetServed a \<longrightarrow>
      (method = ''GET'' \<or> method = ''HEAD'') \<and> (\<exists>name body. (name, body) \<in> set embedded \<and>
        name = TrimPrefix url ''/assets/'' \<and> aBody a = body \<and> (aCache a = cacheRevalidate \<longleftrightarrow> name = ''terminal.js'')))"
proof
  assume s: "assetHandler (loadAssets sha embedded) method url = AssetServed a"
  then have m: "method = ''GET'' \<or> method = ''HEAD''" and l: "loadAssets sha embedded (TrimPrefix url ''/assets/'') = Some a"
    by (auto simp: assetHandler_def split: if_splits option.splits)
  from l obtain body where b: "(TrimPrefix url ''/assets/'', body) \<in> set embedded"
      "a = asset_of sha (TrimPrefix url ''/assets/'') body"
    by (auto simp: loadAssets_def dest!: map_of_SomeD)
  have "cacheImmutable \<noteq> cacheRevalidate" by (simp add: cacheImmutable_def cacheRevalidate_def)
  then have "aBody a = body" "aCache a = cacheRevalidate \<longleftrightarrow> TrimPrefix url ''/assets/'' = ''terminal.js''"
    using b(2) by (simp_all add: asset_of_def)
  then show "(method = ''GET'' \<or> method = ''HEAD'') \<and> (\<exists>name body. (name, body) \<in> set embedded \<and>
        name = TrimPrefix url ''/assets/'' \<and> aBody a = body \<and> (aCache a = cacheRevalidate \<longleftrightarrow> name = ''terminal.js''))"
    using m b(1) by blast
qed

text \<open>The create form offers exactly the curated models, in their order, when there are any; otherwise all
  that have a selector, sorted by provider and name. A failing \<open>omp\<close> leaves the list it offered before.\<close>

lemma by_selector_Some: "by_selector all sel = Some q \<Longrightarrow> moSelector q = sel \<and> q \<in> set all"
  by (auto simp: by_selector_def dest!: map_of_SomeD)

theorem models_offered:
  "let (opts, c') = modelOptions curated t t' listed c in
     (curated \<noteq> [] \<longrightarrow> map moSelector opts = curated) \<and>
     (curated = [] \<and> models c = None \<and> listed = Some ms \<longrightarrow>
        set opts = {q \<in> set ms. moSelector q \<noteq> []} \<and> sorted (map (\<lambda>q. (moProvider q, moName q)) opts)) \<and>
     (listed = None \<longrightarrow> c' = c)"
proof -
  obtain all c' where e: "enumerateModels t t' listed c = (all, c')" by fastforce
  have "map (\<lambda>sel. moSelector (case by_selector all sel of Some q \<Rightarrow> q
      | None \<Rightarrow> \<lparr>moSelector = sel, moName = sel, moProvider = ''configured'', moThinking = []\<rparr>)) cs = cs" for cs
    by (induction cs) (auto dest: by_selector_Some split: option.split)
  moreover have "set all = {q \<in> set ms. moSelector q \<noteq> []} \<and> sorted (map (\<lambda>q. (moProvider q, moName q)) all)"
    if "models c = None" "listed = Some ms"
    using e that by (auto simp: enumerateModels_def Let_def)
  moreover have "listed = None \<Longrightarrow> c' = c" using e by (simp add: enumerateModels_def split: if_splits)
  ultimately show ?thesis using e by (simp add: modelOptions_def comp_def)
qed

end
