(* ===== verification/FitAddon.thy ===== *)
theory FitAddon
  imports Complex_Main JsText
begin

text \<open>
  The fit addon (\<open>assets/addon-fit.js\<close>) and the two facts of the terminal it relies on: the
  grid size to adopt is the parent's content box divided by the cell size, rounded down, at
  least 2 by 1. Sizes in CSS pixels are rationals; \<open>parseInt\<close> of a computed style is an
  integer, or \<open>None\<close> for \<open>NaN\<close>.
\<close>

record layout =
  attached :: bool        \<comment> \<open>the terminal has an element and the element a parent\<close>
  cell_w :: rat           \<comment> \<open>\<open>_renderService.dimensions.css.cell\<close>\<close>
  cell_h :: rat
  scrollback :: int       \<comment> \<open>\<open>options.scrollback\<close>\<close>
  scrollbar_w :: int      \<comment> \<open>\<open>viewport.scrollBarWidth\<close>\<close>
  parent_h :: "int option"
  parent_w :: "int option"
  pad_top :: "int option"
  pad_bottom :: "int option"
  pad_left :: "int option"
  pad_right :: "int option"

definition lift2 :: "('a \<Rightarrow> 'a \<Rightarrow> 'b) \<Rightarrow> 'a option \<Rightarrow> 'a option \<Rightarrow> 'b option" where
  "lift2 f a b = (case (a, b) of (Some x, Some y) \<Rightarrow> Some (f x y) | _ \<Rightarrow> None)"

text \<open>\<open>None\<close> is the \<open>undefined\<close> of an early return; a component \<open>None\<close> is \<open>NaN\<close>.\<close>

definition proposeDimensions :: "layout \<Rightarrow> (int option \<times> int option) option" where
  "proposeDimensions l = (
     if \<not> attached l then None
     else if cell_w l = 0 \<or> cell_h l = 0 then None
     else let bar = (if scrollback l = 0 then 0 else scrollbar_w l);
              h = lift2 (-) (parent_h l) (lift2 (+) (pad_top l) (pad_bottom l));
              w = map_option (\<lambda>x. x - bar)
                    (lift2 (-) (map_option (max 0) (parent_w l)) (lift2 (+) (pad_right l) (pad_left l)))
          in Some (map_option (\<lambda>x. max 2 \<lfloor>of_int x / cell_w l\<rfloor>) w,
                   map_option (\<lambda>x. max 1 \<lfloor>of_int x / cell_h l\<rfloor>) h))"

text \<open>\<open>Terminal.resize\<close> of the vendored build, for integer arguments: both sizes are raised to
  the grid's minimum of 2 by 1.\<close>

definition term_resize :: "int \<Rightarrow> int \<Rightarrow> int \<times> int" where
  "term_resize c r = (max c 2, max r 1)"

definition fit :: "layout \<Rightarrow> int \<times> int \<Rightarrow> int \<times> int" where
  "fit l cur = (case proposeDimensions l of
     Some (Some c, Some r) \<Rightarrow>
       if snd cur = r \<and> fst cur = c then cur else term_resize c r
   | _ \<Rightarrow> cur)"

lemma proposeDimensions_min:
  "proposeDimensions l = Some (Some c, Some r) \<Longrightarrow> 2 \<le> c \<and> 1 \<le> r"
  by (auto simp: proposeDimensions_def Let_def split: if_splits)

text \<open>The addon never proposes a grid the terminal would have to raise: what it asks for is what
  the terminal then has.\<close>

lemma fit_adopts: "proposeDimensions l = Some (Some c, Some r) \<Longrightarrow> fit l cur = (c, r)"
  using proposeDimensions_min [of l c r]
  by (auto simp: fit_def term_resize_def)

lemma fit_unmeasured: "proposeDimensions l = None \<Longrightarrow> fit l cur = cur"
  by (simp add: fit_def)

lemma fit_min: "2 \<le> fst cur \<Longrightarrow> 1 \<le> snd cur \<Longrightarrow> 2 \<le> fst (fit l cur) \<and> 1 \<le> snd (fit l cur)"
  by (auto simp: fit_def term_resize_def split: option.splits prod.splits)

lemma fit_idem: "fit l (fit l cur) = fit l cur"
  using proposeDimensions_min [of l]
  by (auto simp: fit_def term_resize_def split: option.splits prod.splits)

end
