(* ===== verification/TerminalJs.thy ===== *)
theory TerminalJs
  imports FitAddon
begin

text \<open>
  The browser terminal (\<open>assets/terminal.js\<close>): one \<open>covibeTerminal\<close> instance is a record
  of the variables its closures share, and every callback it installs (socket messages and
  close, the resize observer and its debounce timer, the terminal's input listener, the two
  methods it returns) is one event of a step function. Server frames are the ones the wire
  contract has: bytes, or a JSON object whose fields may be absent; \<open>Text None\<close> is a text
  frame \<open>JSON.parse\<close> rejects. \<open>limit\<close> is the engine's bound on call arguments, \<open>optw\<close> the
  \<open>write\<close> option of the page, and the layout (or \<open>None\<close>, when \<open>fit()\<close> throws) comes with
  the event that measures it.
\<close>

section \<open>Data\<close>

datatype ready = CONNECTING | OPEN | CLOSING | CLOSED

record server_msg =
  mt :: bytes
  mwrite :: "bool option"
  mcols :: "int option"
  mrows :: "int option"
  mmsg :: "jstring option"

datatype server_frame = Binary bytes | Text "server_msg option"

datatype client_frame = JsInput bytes | JsResize int int

datatype written = Raw bytes | Styled jstring

record ui =
  cols :: int
  rows :: int
  disableStdin :: bool
  writes :: "written list"     \<comment> \<open>every \<open>term.write\<close>, in order\<close>
  focused :: nat
  disposed :: bool
  listeners :: "nat list"      \<comment> \<open>the terminal's live data listeners\<close>
  next_listener :: nat
  ws :: bool                   \<comment> \<open>the variable \<open>ws\<close> is not null\<close>
  ready_state :: ready         \<comment> \<open>of the socket object, which outlives the variable\<close>
  handlers :: bool             \<comment> \<open>its \<open>onmessage\<close> and \<open>onclose\<close> are set\<close>
  sent :: "client_frame list"
  on_data :: "nat option"      \<comment> \<open>the variable \<open>onData\<close>\<close>
  observing :: bool
  fit_timer :: bool
  is_closed :: bool            \<comment> \<open>the variable \<open>closed\<close>\<close>
  note_texts :: "jstring list"

section \<open>The nonce hook\<close>

text \<open>\<open>pageNonce\<close> reads the first script element that carries a nonce, from its property or, where a
  browser has no such property, from its attribute.\<close>

record script_element =
  nonce_property :: "bytes option"
  nonce_attribute :: "bytes option"

definition truthy :: "bytes option \<Rightarrow> bytes option" where
  "truthy v = (case v of None \<Rightarrow> None | Some t \<Rightarrow> if t = [] then None else Some t)"

definition pageNonce :: "script_element option \<Rightarrow> bytes" where
  "pageNonce s = (case s of None \<Rightarrow> []
     | Some e \<Rightarrow> (case truthy (nonce_property e) of Some n \<Rightarrow> n
         | None \<Rightarrow> (case truthy (nonce_attribute e) of Some n \<Rightarrow> n | None \<Rightarrow> [])))"

text \<open>\<open>withNonce\<close> replaces \<open>document.createElement\<close> while \<open>fn\<close> runs. \<open>fn\<close> gets the document
  and gives back a result or an exception (\<open>Inl\<close>).\<close>

record element =
  tag :: bytes
  nonce_attr :: "bytes option"

record document =
  createElement :: "bytes \<Rightarrow> element"

definition withNonce :: "bytes \<Rightarrow> (document \<Rightarrow> ('e + 'a) \<times> document) \<Rightarrow> document \<Rightarrow> ('e + 'a) \<times> document" where
  "withNonce nonce fn d = (if nonce = [] then fn d
     else let orig = createElement d;
              stamp = (\<lambda>t. let el = orig t in
                if map lower_char t = ''style'' then el\<lparr>nonce_attr := Some nonce\<rparr> else el);
              (r, d') = fn (d\<lparr>createElement := stamp\<rparr>)
          in (r, d'\<lparr>createElement := orig\<rparr>))"

section \<open>The helpers\<close>

definition safeFit :: "layout option \<Rightarrow> ui \<Rightarrow> ui" where
  "safeFit m u = (case m of None \<Rightarrow> u
     | Some l \<Rightarrow> u\<lparr>cols := fst (fit l (cols u, rows u)), rows := snd (fit l (cols u, rows u))\<rparr>)"

definition send :: "client_frame \<Rightarrow> ui \<Rightarrow> ui" where
  "send obj u = (if \<not> ws u \<or> ready_state u \<noteq> OPEN then u else u\<lparr>sent := sent u @ [obj]\<rparr>)"

definition add_note :: "bytes \<Rightarrow> ui \<Rightarrow> ui" where
  "add_note text u = u\<lparr>note_texts := note_texts u @ [js text]\<rparr>"

definition esc_seq :: "bytes \<Rightarrow> jstring" where
  "esc_seq s = 27 # js s"

definition dim :: "jstring \<Rightarrow> ui \<Rightarrow> ui" where
  "dim text u = u\<lparr>writes := writes u @
     [Styled ([13, 10] @ esc_seq ''[2m'' @ text @ esc_seq ''[0m'' @ [13, 10])]\<rparr>"

definition shutdown :: "ui \<Rightarrow> ui" where
  "shutdown u = (let
     u1 = (if ws u then u\<lparr>handlers := False,
             ready_state := (if ready_state u = CLOSED then CLOSED else CLOSING), ws := False\<rparr> else u)
     in case on_data u1 of None \<Rightarrow> u1
        | Some i \<Rightarrow> u1\<lparr>listeners := filter (\<lambda>j. j \<noteq> i) (listeners u1), on_data := None\<rparr>)"

definition term_url :: "bytes \<Rightarrow> jstring \<Rightarrow> int \<Rightarrow> int \<Rightarrow> bytes option" where
  "term_url origin sid c r = map_option (\<lambda>e.
     (if HasPrefix origin ''http'' then ''ws'' @ drop 4 origin else origin) @
     ''/api/v1/sessions/'' @ e @ ''/terminal?cols='' @ Itoa c @ ''&rows='' @ Itoa r)
     (encodeURIComponent sid)"

section \<open>The callbacks\<close>

text \<open>Construction: the terminal has its default 80 by 24 grid, is fitted once while it opens,
  and the socket starts connecting.\<close>

definition covibeTerminal :: "layout option \<Rightarrow> ui" where
  "covibeTerminal m = (safeFit m \<lparr>cols = 80, rows = 24, disableStdin = False, writes = [], focused = 0,
     disposed = False, listeners = [], next_listener = 0, ws = False, ready_state = CONNECTING,
     handlers = False, sent = [], on_data = None, observing = False, fit_timer = False,
     is_closed = False, note_texts = []\<rparr>)\<lparr>ws := True, handlers := True, observing := True\<rparr>"

text \<open>What the fit addon's script left in \<open>window.FitAddon\<close>: nothing, the constructor, or a module that
  may hold it. \<open>None\<close> is the \<open>TypeError\<close> of \<open>new\<close> on what is no constructor.\<close>

datatype 'c fit_global = NoGlobal | Constructor 'c | Module "'c option"

definition fitCtor :: "'c fit_global \<Rightarrow> 'c option" where
  "fitCtor f = (case f of NoGlobal \<Rightarrow> None | Constructor c \<Rightarrow> Some c | Module m \<Rightarrow> m)"

definition open_terminal :: "'c fit_global \<Rightarrow> layout option \<Rightarrow> ui option" where
  "open_terminal f m = map_option (\<lambda>_. covibeTerminal m) (fitCtor f)"

definition on_hello :: "bool option \<Rightarrow> server_msg \<Rightarrow> ui \<Rightarrow> ui" where
  "on_hello optw m u = (let
     u1 = (case (mcols m, mrows m) of
             (Some c, Some r) \<Rightarrow>
               if c > 0 \<and> r > 0 \<and> (c \<noteq> cols u \<or> r \<noteq> rows u)
               then u\<lparr>cols := fst (term_resize c r), rows := snd (term_resize c r)\<rparr> else u
           | _ \<Rightarrow> u)
     in if mwrite m = Some True \<and> optw \<noteq> Some False
        then u1\<lparr>on_data := Some (next_listener u1), listeners := listeners u1 @ [next_listener u1],
               next_listener := Suc (next_listener u1), focused := Suc (focused u1)\<rparr>
        else add_note ''read-only'' (u1\<lparr>disableStdin := True\<rparr>))"

definition onmessage :: "bool option \<Rightarrow> server_frame \<Rightarrow> ui \<Rightarrow> ui" where
  "onmessage optw f u = (case f of
     Binary d \<Rightarrow> u\<lparr>writes := writes u @ [Raw d]\<rparr>
   | Text None \<Rightarrow> u
   | Text (Some m) \<Rightarrow>
       if mt m = ''hello'' then on_hello optw m u
       else if mt m = ''exit'' then shutdown (dim (js ''[session ended]'') u)
       else if mt m = ''error'' then shutdown (dim (js ''[error: '' @
              (case mmsg m of Some t \<Rightarrow> if t = [] then js ''terminal unavailable'' else t
                            | None \<Rightarrow> js ''terminal unavailable'') @ js '']'') u)
       else u)"

definition onclose :: "ui \<Rightarrow> ui" where
  "onclose u = shutdown (if is_closed u then u else dim (js ''[disconnected]'') u)"

text \<open>The debounced fit: a resize frame goes out only when the grid changed. The code compares
  the two grids as \<open>COLSxROWS\<close> strings.\<close>

definition grid_text :: "ui \<Rightarrow> bytes" where
  "grid_text u = Itoa (cols u) @ ''x'' @ Itoa (rows u)"

definition on_timer :: "layout option \<Rightarrow> ui \<Rightarrow> ui" where
  "on_timer m u = (let u1 = safeFit m (u\<lparr>fit_timer := False\<rparr>)
     in if grid_text u \<noteq> grid_text u1 then send (JsResize (cols u1) (rows u1)) u1 else u1)"

text \<open>Typed text reaches every live listener unless the terminal's input is disabled.\<close>

definition on_typed :: "nat \<Rightarrow> jstring \<Rightarrow> ui \<Rightarrow> ui" where
  "on_typed limit d u = (if disableStdin u then u
     else foldl (\<lambda>v _. case b64 limit d of None \<Rightarrow> v | Some p \<Rightarrow> send (JsInput p) v) u (listeners u))"

definition close_ui :: "ui \<Rightarrow> ui" where
  "close_ui u = (if is_closed u then u
     else (shutdown (u\<lparr>is_closed := True, fit_timer := False, observing := False\<rparr>))\<lparr>disposed := True, listeners := []\<rparr>)"

datatype ui_event =
    Opened                              \<comment> \<open>the browser finished the handshake\<close>
  | Message server_frame
  | SocketClosed                        \<comment> \<open>the socket died or the handshake failed\<close>
  | Observed                            \<comment> \<open>the resize observer fired\<close>
  | TimerFired "layout option"
  | Typed jstring
  | Focus
  | Close

text \<open>A callback runs only while it is installed: messages while the socket is open and has its
  handler, the observer until it is disconnected, the timer while one is pending.\<close>

fun ui_step :: "bool option \<Rightarrow> nat \<Rightarrow> ui \<Rightarrow> ui_event \<Rightarrow> ui" where
  "ui_step optw limit u Opened = (if ready_state u = CONNECTING then u\<lparr>ready_state := OPEN\<rparr> else u)"
| "ui_step optw limit u (Message f) =
     (if handlers u \<and> ready_state u = OPEN then onmessage optw f u else u)"
| "ui_step optw limit u SocketClosed = (let u1 = u\<lparr>ready_state := CLOSED\<rparr> in
     if handlers u then onclose u1 else u1)"
| "ui_step optw limit u Observed = (if observing u then u\<lparr>fit_timer := True\<rparr> else u)"
| "ui_step optw limit u (TimerFired m) = (if fit_timer u then on_timer m u else u)"
| "ui_step optw limit u (Typed d) = on_typed limit d u"
| "ui_step optw limit u Focus = u\<lparr>focused := Suc (focused u)\<rparr>"
| "ui_step optw limit u Close = close_ui u"

abbreviation ui_run :: "bool option \<Rightarrow> nat \<Rightarrow> ui \<Rightarrow> ui_event list \<Rightarrow> ui" where
  "ui_run optw limit \<equiv> run (ui_step optw limit)"

section \<open>One step at a time\<close>

text \<open>What each helper leaves alone.\<close>

lemma safeFit_frame [simp]:
  "ws (safeFit m u) = ws u" "ready_state (safeFit m u) = ready_state u"
  "handlers (safeFit m u) = handlers u" "sent (safeFit m u) = sent u"
  "listeners (safeFit m u) = listeners u" "disableStdin (safeFit m u) = disableStdin u"
  "is_closed (safeFit m u) = is_closed u" "writes (safeFit m u) = writes u"
  "observing (safeFit m u) = observing u" "fit_timer (safeFit m u) = fit_timer u"
  "on_data (safeFit m u) = on_data u" "disposed (safeFit m u) = disposed u"
  "note_texts (safeFit m u) = note_texts u"
  by (simp_all add: safeFit_def split: option.split)

lemma send_frame [simp]:
  "ws (send x u) = ws u" "ready_state (send x u) = ready_state u"
  "handlers (send x u) = handlers u" "listeners (send x u) = listeners u"
  "disableStdin (send x u) = disableStdin u" "is_closed (send x u) = is_closed u"
  "cols (send x u) = cols u" "rows (send x u) = rows u"
  "observing (send x u) = observing u" "fit_timer (send x u) = fit_timer u"
  "writes (send x u) = writes u" "note_texts (send x u) = note_texts u"
  by (simp_all add: send_def)

lemma dim_frame [simp]:
  "ws (dim t u) = ws u" "handlers (dim t u) = handlers u" "sent (dim t u) = sent u"
  "listeners (dim t u) = listeners u" "ready_state (dim t u) = ready_state u"
  "on_data (dim t u) = on_data u" "is_closed (dim t u) = is_closed u"
  "cols (dim t u) = cols u" "rows (dim t u) = rows u"
  by (simp_all add: dim_def)

lemma shutdown_frame [simp]:
  "sent (shutdown u) = sent u" "is_closed (shutdown u) = is_closed u"
  "cols (shutdown u) = cols u" "rows (shutdown u) = rows u" "writes (shutdown u) = writes u"
  "observing (shutdown u) = observing u" "fit_timer (shutdown u) = fit_timer u"
  "disableStdin (shutdown u) = disableStdin u" "note_texts (shutdown u) = note_texts u"
  by (simp_all add: shutdown_def Let_def split: option.split)

lemma shutdown_off [simp]: "\<not> ws (shutdown u)" "on_data (shutdown u) = None"
  and shutdown_handlers: "(ws u \<longleftrightarrow> handlers u) \<Longrightarrow> \<not> handlers (shutdown u)"
  and shutdown_listeners: "length (listeners (shutdown u)) \<le> length (listeners u)"
  and shutdown_listeners_Nil [simp]: "listeners u = [] \<Longrightarrow> listeners (shutdown u) = []"
  by (auto simp: shutdown_def Let_def split: option.split)

lemma on_hello_frame [simp]:
  "ws (on_hello p m u) = ws u" "handlers (on_hello p m u) = handlers u"
  "sent (on_hello p m u) = sent u" "ready_state (on_hello p m u) = ready_state u"
  "is_closed (on_hello p m u) = is_closed u"
  by (auto simp: on_hello_def Let_def add_note_def split: option.splits)

lemma on_typed_frame [simp]:
  "ws (on_typed limit d u) = ws u" "handlers (on_typed limit d u) = handlers u"
  "ready_state (on_typed limit d u) = ready_state u" "listeners (on_typed limit d u) = listeners u"
  "is_closed (on_typed limit d u) = is_closed u" "writes (on_typed limit d u) = writes u"
  "observing (on_typed limit d u) = observing u" "fit_timer (on_typed limit d u) = fit_timer u"
proof -
  have f: "P (foldl (\<lambda>v _. case b64 limit d of None \<Rightarrow> v | Some p \<Rightarrow> send (JsInput p) v) u ls) = P u"
    if "\<And>x v. P (send x v) = P v" for P :: "ui \<Rightarrow> 'b" and ls :: "nat list"
    using that by (induction ls arbitrary: u) (auto split: option.split)
  show "ws (on_typed limit d u) = ws u" "handlers (on_typed limit d u) = handlers u"
    "ready_state (on_typed limit d u) = ready_state u" "listeners (on_typed limit d u) = listeners u"
    "is_closed (on_typed limit d u) = is_closed u" "writes (on_typed limit d u) = writes u"
    "observing (on_typed limit d u) = observing u" "fit_timer (on_typed limit d u) = fit_timer u"
    by (simp_all add: on_typed_def f)
qed

text \<open>The frames typed text adds: one per live listener, while the socket is open.\<close>

lemma sent_on_typed:
  assumes "CHUNK \<le> limit"
  shows "sent (on_typed limit d u) = sent u @
    (if disableStdin u \<or> \<not> ws u \<or> ready_state u \<noteq> OPEN then []
     else replicate (length (listeners u)) (JsInput (std_encode (text_encode d))))"
proof -
  let ?f = "JsInput (std_encode (text_encode d))"
  have g: "sent (foldl (\<lambda>v _. case b64 limit d of None \<Rightarrow> v | Some p \<Rightarrow> send (JsInput p) v) v ls) =
     sent v @ (if \<not> ws v \<or> ready_state v \<noteq> OPEN then [] else replicate (length ls) ?f)" for v ls
  proof (induction ls arbitrary: v)
    case (Cons a ls)
    then show ?case by (auto simp: b64_eq [OF assms] send_def)
  qed simp
  show ?thesis by (simp add: on_typed_def g)
qed

lemma ui_step_ws: "\<not> ws u \<Longrightarrow> \<not> ws (ui_step p l u e)"
  by (cases e) (auto simp: onmessage_def onclose_def on_timer_def close_ui_def Let_def
     split: server_frame.splits option.splits)

lemma sent_off: "\<not> ws u \<Longrightarrow> sent (on_typed l d u) = sent u"
proof -
  assume "\<not> ws u"
  then have "sent (foldl (\<lambda>v _. case b64 l d of None \<Rightarrow> v | Some p \<Rightarrow> send (JsInput p) v) u ls) = sent u" for ls :: "nat list"
    by (induction ls) (auto simp: send_def split: option.split)
  then show ?thesis by (simp add: on_typed_def)
qed

lemma ui_step_sent_off: "\<not> ws u \<Longrightarrow> sent (ui_step p l u e) = sent u"
  by (cases e) (auto simp: onmessage_def onclose_def on_timer_def close_ui_def Let_def sent_off
     send_def split: server_frame.splits option.splits)

section \<open>Invariants over whole runs\<close>

text \<open>The socket is gone and nothing was sent since.\<close>

interpretation silent: machine "ui_step p l" "\<lambda>_. True" "\<lambda>u. \<not> ws u \<and> sent u = S"
  by unfold_locales (simp add: ui_step_ws ui_step_sent_off)

lemma silent_run: "\<not> ws u \<Longrightarrow> sent (ui_run p l u es) = sent u"
  using silent.run_inv [of u "sent u" es p l] by (simp add: list_all_iff)

text \<open>The variable and its handlers are set together, from construction on.\<close>

lemma ws_handlers_step: "(ws u \<longleftrightarrow> handlers u) \<Longrightarrow> (ws (ui_step p l u e) \<longleftrightarrow> handlers (ui_step p l u e))"
  by (cases e) (auto simp: onmessage_def onclose_def on_timer_def close_ui_def Let_def
     shutdown_handlers split: server_frame.splits option.splits)

interpretation paired: machine "ui_step p l" "\<lambda>_. True" "\<lambda>u. ws u \<longleftrightarrow> handlers u"
  by unfold_locales (rule ws_handlers_step)

text \<open>A frame that lets the page type.\<close>

definition grants :: "bool option \<Rightarrow> ui_event \<Rightarrow> bool" where
  "grants optw e = (case e of
     Message (Text (Some m)) \<Rightarrow> mt m = ''hello'' \<and> mwrite m = Some True \<and> optw \<noteq> Some False
   | _ \<Rightarrow> False)"

definition no_input :: "ui \<Rightarrow> bool" where
  "no_input u = (listeners u = [] \<and> (\<forall>p. JsInput p \<notin> set (sent u)))"

lemma no_input_step: "no_input u \<Longrightarrow> \<not> grants p e \<Longrightarrow> no_input (ui_step p l u e)"
proof (cases e)
  case (Typed d)
  moreover assume "no_input u"
  ultimately show ?thesis by (auto simp: no_input_def on_typed_def)
qed (auto simp: no_input_def grants_def onmessage_def onclose_def on_timer_def close_ui_def
       on_hello_def add_note_def dim_def send_def Let_def
     split: server_frame.splits option.splits if_splits)

interpretation watch_only: machine "ui_step p l" "\<lambda>e. \<not> grants p e" no_input
  by unfold_locales (rule no_input_step)

text \<open>One listener per hello at most.\<close>

definition is_hello :: "ui_event \<Rightarrow> bool" where
  "is_hello e = (case e of Message (Text (Some m)) \<Rightarrow> mt m = ''hello'' | _ \<Rightarrow> False)"

lemma listeners_step:
  "length (listeners (ui_step p l u e)) \<le> length (listeners u) + (if is_hello e then 1 else 0)"
proof (cases e)
  case (Message f)
  have s: "length (listeners (shutdown v)) \<le> length (listeners u)" if "listeners v = listeners u" for v
    using shutdown_listeners [of v] that by simp
  show ?thesis
    by (auto simp: Message onmessage_def is_hello_def on_hello_def add_note_def Let_def intro!: s
       split: server_frame.splits option.splits)
next
  case SocketClosed
  have s: "length (listeners (shutdown v)) \<le> length (listeners u)" if "listeners v = listeners u" for v
    using shutdown_listeners [of v] that by simp
  show ?thesis by (auto simp: SocketClosed onclose_def is_hello_def Let_def intro!: s)
qed (auto simp: on_timer_def close_ui_def is_hello_def Let_def)

lemma listeners_run:
  "length (listeners (ui_run p l u es)) \<le> length (listeners u) + length (filter is_hello es)"
proof (induction es arbitrary: u)
  case (Cons e es)
  have "length (listeners (ui_run p l (ui_step p l u e) es))
      \<le> length (listeners (ui_step p l u e)) + length (filter is_hello es)"
    by (rule Cons.IH)
  with listeners_step [of p l u e] show ?case by (auto split: if_splits)
qed simp

text \<open>A terminal the page closed: no handler, timer, observer or listener is left.\<close>

definition torn_down :: "ui \<Rightarrow> bool" where
  "torn_down u = (is_closed u \<and> disposed u \<and> \<not> ws u \<and> \<not> handlers u \<and> \<not> observing u \<and>
     \<not> fit_timer u \<and> listeners u = [] \<and> on_data u = None)"

lemma torn_down_step:
  assumes "torn_down u"
  shows "torn_down (ui_step p l u e) \<and> writes (ui_step p l u e) = writes u \<and>
    sent (ui_step p l u e) = sent u \<and> note_texts (ui_step p l u e) = note_texts u \<and>
    cols (ui_step p l u e) = cols u \<and> rows (ui_step p l u e) = rows u"
  using assms by (cases e) (auto simp: torn_down_def on_typed_def close_ui_def Let_def)

definition frozen_as :: "ui \<Rightarrow> ui \<Rightarrow> bool" where
  "frozen_as v u = (torn_down u \<and> writes u = writes v \<and> sent u = sent v \<and>
     note_texts u = note_texts v \<and> cols u = cols v \<and> rows u = rows v)"

interpretation frozen: machine "ui_step p l" "\<lambda>_. True" "frozen_as v"
  by unfold_locales (simp add: frozen_as_def torn_down_step)

lemma close_torn_down: "(ws u \<longleftrightarrow> handlers u) \<Longrightarrow> \<not> is_closed u \<Longrightarrow> torn_down (close_ui u)"
  by (simp add: close_ui_def torn_down_def shutdown_handlers)

section \<open>Text of the grid, and of the socket's URL\<close>

lemma grid_text_eq: "grid_text u = grid_text v \<longleftrightarrow> cols u = cols v \<and> rows u = rows v"
  unfolding grid_text_def using Itoa_pair_inj [of "CHR ''x''"] by (simp add: is_digit_def)

lemma covibeTerminal_paired: "ws (covibeTerminal m) \<longleftrightarrow> handlers (covibeTerminal m)"
  by (simp add: covibeTerminal_def)

lemma covibeTerminal_start [simp]:
  "listeners (covibeTerminal m) = []" "sent (covibeTerminal m) = []"
  "is_closed (covibeTerminal m) = False" "ws (covibeTerminal m)" "handlers (covibeTerminal m)"
  by (simp_all add: covibeTerminal_def)

section \<open>Properties\<close>

text \<open>C2: Typed text survives the trip to the server byte for byte. Whatever the text and
  however long the paste, the chunked conversion of \<open>b64\<close> never hits the engine's argument
  limit, the payload it puts in the \<open>input\<close> frame is accepted by Go's \<open>base64.StdEncoding\<close>,
  and what the server decodes is the text's UTF-8, which reads back as the text's scalar
  values.\<close>

theorem typed_text_reaches_server:
  assumes "CHUNK \<le> limit"
  shows "\<exists>p. b64 limit text = Some p \<and> std_decode p = Some (text_encode text) \<and>
    runes (text_encode text) = scalars text"
  using b64_eq [OF assms] std.dec_enc runes_text_encode by simp

theorem typed_text_reaches_server_witness:
  "std_decode (the (b64 40000 [0x68, 0xD83D, 0xDE00])) = Some (map char_of [0x68, 0xF0, 0x9F, 0x98, 0x80::nat])
   \<and> runes (text_encode [0x68, 0xD83D, 0xDE00]) = [0x68, 0x1F600]"
proof -
  have c: "CHUNK \<le> 40000" by (simp add: CHUNK_def)
  have "text_encode [0x68, 0xD83D, 0xDE00] = map char_of [0x68, 0xF0, 0x9F, 0x98, 0x80::nat]"
    by (simp add: text_encode_def high_surrogate_def low_surrogate_def encode_rune_def utf8_nats_def scalar_def)
  moreover have "scalars [0x68, 0xD83D, 0xDE00] = [0x68, 0x1F600]"
    by (simp add: high_surrogate_def low_surrogate_def)
  ultimately show ?thesis
    using typed_text_reaches_server [OF c, of "[0x68, 0xD83D, 0xDE00]"] by auto
qed

text \<open>C5: A viewer cannot type. If no \<open>hello\<close> in the run both grants write access and is
  allowed to by the page (\<open>opts.write\<close>), then no \<open>input\<close> frame is ever sent, whatever the user
  types and whatever else the server sends, and no input listener is installed.\<close>

theorem viewer_never_types:
  assumes "list_all (\<lambda>e. \<not> grants optw e) es"
  shows "JsInput p \<notin> set (sent (ui_run optw limit (covibeTerminal m) es)) \<and>
    listeners (ui_run optw limit (covibeTerminal m) es) = []"
  using watch_only.run_inv [of "covibeTerminal m" optw es limit] assms
  by (simp_all add: no_input_def)

theorem viewer_never_types_witness:
  "JsInput [] \<notin> set (sent (ui_run None 40000 (covibeTerminal None)
     [Opened, Message (Text (Some \<lparr>mt = ''hello'', mwrite = Some False, mcols = Some 100, mrows = Some 30, mmsg = None\<rparr>)),
      Typed [0x6C, 0x73], Observed, TimerFired None]))"
proof -
  let ?es = "[Opened, Message (Text (Some \<lparr>mt = ''hello'', mwrite = Some False, mcols = Some 100, mrows = Some 30, mmsg = None\<rparr>)),
      Typed [0x6C, 0x73], Observed, TimerFired None]"
  have h: "list_all (\<lambda>e. \<not> grants None e) ?es" by (simp add: grants_def)
  show ?thesis using viewer_never_types [OF h, of "[]" 40000 None] by (rule conjunct1)
qed

text \<open>C17: Once the session is over for the page (it closed the terminal, the socket died, or the
  server sent \<open>exit\<close> or \<open>error\<close>), the page sends nothing more, whatever happens later: late
  messages, typed text, a resize timer that was still pending, a second close.\<close>

theorem ended_terminal_is_silent:
  assumes "ws u \<longleftrightarrow> handlers u" and "ws u" and "\<not> is_closed u"
    and "e = Close \<or> e = SocketClosed \<or>
      ready_state u = OPEN \<and> (\<exists>x. e = Message (Text (Some x)) \<and> mt x \<in> {''exit'', ''error''})"
  shows "sent (ui_run optw limit (ui_step optw limit u e) es) = sent u"
proof -
  have "\<not> ws (ui_step optw limit u e) \<and> sent (ui_step optw limit u e) = sent u"
    using assms by (auto simp: close_ui_def onclose_def onmessage_def Let_def split: option.split)
  then show ?thesis using silent_run by metis
qed

theorem ended_terminal_is_silent_witness:
  "sent (ui_run None 40000 (ui_step None 40000 (covibeTerminal None) Close)
     [Typed [0x6C], Observed, TimerFired None, Close]) = []"
proof -
  have s: "sent (covibeTerminal None) = []" by simp
  have "sent (ui_run None 40000 (ui_step None 40000 (covibeTerminal None) Close)
     [Typed [0x6C], Observed, TimerFired None, Close]) = sent (covibeTerminal None)"
    by (rule ended_terminal_is_silent) simp_all
  then show ?thesis using s by simp
qed

text \<open>C18: Closing is final. After \<open>close()\<close> no later event changes the screen, the notes, the grid
  or the frames sent: the observer, the timer, the input listener and the socket handlers are
  all gone, and a second \<open>close()\<close> does nothing.\<close>

theorem close_is_final:
  assumes "ws u \<longleftrightarrow> handlers u" and "\<not> is_closed u"
  shows "frozen_as (close_ui u) (ui_run optw limit (close_ui u) es)"
proof (rule frozen.run_inv)
  show "frozen_as (close_ui u) (close_ui u)"
    using close_torn_down [OF assms] by (simp add: frozen_as_def)
qed (simp add: list_all_iff)

theorem close_is_final_witness:
  "writes (ui_run None 40000 (close_ui (covibeTerminal None)) [SocketClosed, Message (Binary ''x''), Observed]) = []"
proof -
  have "frozen_as (close_ui (covibeTerminal None))
      (ui_run None 40000 (close_ui (covibeTerminal None)) [SocketClosed, Message (Binary ''x''), Observed])"
    by (rule close_is_final) simp_all
  moreover have "writes (close_ui (covibeTerminal None)) = []"
    by (simp add: close_ui_def covibeTerminal_def safeFit_def)
  ultimately show ?thesis by (simp add: frozen_as_def)
qed

text \<open>C39: The debounced fit reports exactly the changes. When the resize timer fires, the terminal
  takes the grid that fits, and one \<open>resize\<close> frame with that very grid goes out if and only if
  the grid differs from the one before and the socket is open; comparing the two grids as
  \<open>COLSxROWS\<close> text loses nothing.\<close>

theorem resize_sent_iff_changed:
  assumes "fit_timer u"
  shows "sent (ui_step optw limit u (TimerFired m)) = sent u @
     (let v = safeFit m u in
      if ws u \<and> ready_state u = OPEN \<and> (cols v, rows v) \<noteq> (cols u, rows u)
      then [JsResize (cols v) (rows v)] else []) \<and>
    (cols (ui_step optw limit u (TimerFired m)), rows (ui_step optw limit u (TimerFired m)))
      = (case m of None \<Rightarrow> (cols u, rows u) | Some l \<Rightarrow> fit l (cols u, rows u))"
proof (intro conjI)
  have g: "cols (safeFit m (u\<lparr>fit_timer := False\<rparr>)) = cols (safeFit m u)"
    "rows (safeFit m (u\<lparr>fit_timer := False\<rparr>)) = rows (safeFit m u)"
    by (simp_all add: safeFit_def split: option.split)
  show "sent (ui_step optw limit u (TimerFired m)) = sent u @
     (let v = safeFit m u in
      if ws u \<and> ready_state u = OPEN \<and> (cols v, rows v) \<noteq> (cols u, rows u)
      then [JsResize (cols v) (rows v)] else [])"
    using assms by (auto simp: on_timer_def Let_def grid_text_eq g send_def)
  show "(cols (ui_step optw limit u (TimerFired m)), rows (ui_step optw limit u (TimerFired m)))
      = (case m of None \<Rightarrow> (cols u, rows u) | Some l \<Rightarrow> fit l (cols u, rows u))"
    using assms by (auto simp: on_timer_def Let_def safeFit_def split: option.split)
qed

definition sample_layout :: layout where
  "sample_layout = \<lparr>attached = True, cell_w = 10, cell_h = 20, scrollback = 5000, scrollbar_w = 15,
     parent_h = Some 600, parent_w = Some 1000, pad_top = Some 0, pad_bottom = Some 0,
     pad_left = Some 0, pad_right = Some 0\<rparr>"

lemma sample_fit: "fit sample_layout (80, 24) = (98, 30)"
  proof -
  have "\<lfloor>197 / 2 :: rat\<rfloor> = 98" by (simp add: floor_eq_iff)
  then show ?thesis
    by (simp add: fit_def proposeDimensions_def sample_layout_def lift2_def term_resize_def Let_def)
qed

theorem resize_sent_iff_changed_witness:
  "sent (ui_step None 40000 (ui_run None 40000 (covibeTerminal None) [Opened, Observed])
      (TimerFired (Some sample_layout))) = [JsResize 98 30]"
proof -
  let ?u = "ui_run None 40000 (covibeTerminal None) [Opened, Observed]"
  have u: "fit_timer ?u" "cols ?u = 80" "rows ?u = 24" "ws ?u" "ready_state ?u = OPEN" "sent ?u = []"
    by (simp_all add: covibeTerminal_def safeFit_def)
  show ?thesis
    using resize_sent_iff_changed [OF u(1), of None 40000 "Some sample_layout"] u sample_fit
    by (simp add: safeFit_def Let_def)
qed

text \<open>Each keystroke is sent once. With at most one \<open>hello\<close> in the run, which is what the
  server sends, a piece of typed text adds exactly one \<open>input\<close> frame with its payload when a
  listener is installed and the socket is open, and nothing otherwise.\<close>

theorem keystroke_sent_once:
  assumes "length (filter is_hello es) \<le> 1" and "CHUNK \<le> limit"
    and "u = ui_run optw limit (covibeTerminal m) es"
  shows "sent (ui_step optw limit u (Typed d)) = sent u @
    (if listeners u \<noteq> [] \<and> \<not> disableStdin u \<and> ws u \<and> ready_state u = OPEN
     then [JsInput (std_encode (text_encode d))] else [])"
proof -
  have "length (listeners u) \<le> 1"
    using listeners_run [of optw limit "covibeTerminal m" es] assms(1,3) by simp
  then have "listeners u = [] \<or> (\<exists>i. listeners u = [i])"
    by (cases "listeners u") auto
  then show ?thesis
    using sent_on_typed [OF assms(2), of d u] by (auto split: if_splits)
qed

theorem keystroke_sent_once_witness:
  "sent (ui_step None 40000 (ui_run None 40000 (covibeTerminal None)
     [Opened, Message (Text (Some \<lparr>mt = ''hello'', mwrite = Some True, mcols = Some 100, mrows = Some 30, mmsg = None\<rparr>))])
     (Typed [0x6C])) = [JsInput (std_encode (text_encode [0x6C]))]"
proof -
  let ?es = "[Opened, Message (Text (Some \<lparr>mt = ''hello'', mwrite = Some True, mcols = Some 100, mrows = Some 30, mmsg = None\<rparr>))]"
  let ?u = "ui_run None 40000 (covibeTerminal None) ?es"
  have h: "length (filter is_hello ?es) \<le> 1" by (simp add: is_hello_def)
  have c: "CHUNK \<le> 40000" by (simp add: CHUNK_def)
  have u: "listeners ?u = [0]" "\<not> disableStdin ?u" "ws ?u" "ready_state ?u = OPEN" "sent ?u = []"
    by (simp_all add: covibeTerminal_def safeFit_def onmessage_def on_hello_def term_resize_def Let_def)
  show ?thesis using keystroke_sent_once [OF h c refl, of None None "[0x6C]"] u by simp
qed

text \<open>The nonce hook leaves no trace. Whatever \<open>fn\<close> does, and also when it throws,
  \<open>document.createElement\<close> is the original again afterwards; while \<open>fn\<close> runs it sees the
  original elements with the page nonce on exactly the \<open>style\<close> ones.\<close>

theorem nonce_hook_restored:
  assumes "nonce \<noteq> []"
  shows "createElement (snd (withNonce nonce fn d)) = createElement d \<and>
    fst (withNonce nonce fn d) = fst (fn (d\<lparr>createElement := (\<lambda>t.
          if map lower_char t = ''style'' then (createElement d t)\<lparr>nonce_attr := Some nonce\<rparr>
          else createElement d t)\<rparr>))"
  using assms by (simp_all add: withNonce_def Let_def split: prod.split)

theorem nonce_hook_restored_witness:
  "fst (withNonce ''n1'' (\<lambda>d. (Inl (createElement d ''STYLE'', createElement d ''div''), d) :: ((element \<times> element) + unit) \<times> document)
      \<lparr>createElement = (\<lambda>t. \<lparr>tag = t, nonce_attr = None\<rparr>)\<rparr>)
   = Inl (\<lparr>tag = ''STYLE'', nonce_attr = Some ''n1''\<rparr>, \<lparr>tag = ''div'', nonce_attr = None\<rparr>)"
proof -
  have n: "''n1'' \<noteq> []" by simp
  show ?thesis unfolding conjunct2 [OF nonce_hook_restored [OF n]] by (simp add: lower_char_def char_of_eq_iff)
qed

text \<open>The session id cannot leave its place in the URL. The socket URL the page builds has the
  id as one path segment, which the server's router splits off and unescapes to exactly the
  UTF-8 of the id, whatever characters it holds; the grid is the query.\<close>

theorem terminal_url_segments:
  assumes "term_url origin sid c r = Some u"
  shows "\<exists>base path. u = base @ path @ ''?cols='' @ Itoa c @ ''&rows='' @ Itoa r \<and>
     base = (if HasPrefix origin ''http'' then ''ws'' @ drop 4 origin else origin) \<and>
     CHR ''?'' \<notin> set path \<and>
     (\<exists>seg. Split path CHR ''/'' = [[], ''api'', ''v1'', ''sessions'', seg, ''terminal''] \<and>
        PathUnescape seg = Some (text_encode sid))"
proof -
  let ?base = "if HasPrefix origin ''http'' then ''ws'' @ drop 4 origin else origin"
  let ?seg = "encode_component (text_encode sid)"
  let ?path = "''/api/v1/sessions/'' @ ?seg @ ''/terminal''"
  have u: "u = ?base @ ?path @ ''?cols='' @ Itoa c @ ''&rows='' @ Itoa r"
    using assms by (auto simp: term_url_def encodeURIComponent_def split: if_splits)
  have q: "CHR ''?'' \<notin> set ?path" using encode_component_no_delim [of "CHR ''?''"] by simp
  have "CHR ''/'' \<notin> set ?seg" by (rule encode_component_no_delim) simp
  then have "Split ?path CHR ''/'' = [[], ''api'', ''v1'', ''sessions'', ?seg, ''terminal'']"
    using Split_append [of "CHR ''/''" ?seg "''terminal''"] by simp
  then show ?thesis using u q component.dec_enc by blast
qed

theorem terminal_url_segments_witness:
  "term_url ''https://c.example'' (js ''a/b?c'') 80 24
     = Some ''wss://c.example/api/v1/sessions/a%2Fb%3Fc/terminal?cols=80&rows=24''
   \<and> (\<exists>base path. ''wss://c.example/api/v1/sessions/a%2Fb%3Fc/terminal?cols=80&rows=24''
        = base @ path @ ''?cols='' @ Itoa 80 @ ''&rows='' @ Itoa 24 \<and> CHR ''?'' \<notin> set path)"
proof -
  have t: "term_url ''https://c.example'' (js ''a/b?c'') 80 24
     = Some ''wss://c.example/api/v1/sessions/a%2Fb%3Fc/terminal?cols=80&rows=24''"
    by (simp add: term_url_def encodeURIComponent_def js_def high_surrogate_def low_surrogate_def
        text_encode_def encode_rune_def utf8_nats_def scalar_def encode_component_def uri_unreserved_def
        alnum_def percent_def hex_digit_def Itoa_def digits10.simps char_of_eq_iff)
  then show ?thesis using terminal_url_segments [OF t] by blast
qed

end
