(* ===== verification/Channels.thy ===== *)
theory Channels
  imports Prelude "HOL-Library.Sublist"
begin

text \<open>
  Go's buffered channels of byte slices, as the terminal's fan-outs use them: a send inside
  \<open>select\<close> with a \<open>default\<close>, a receive, a close. Sending on a closed channel and closing one twice
  panic, which is \<open>None\<close> here. \<open>got\<close> is what the receiver took, so \<open>stream\<close> is all that ever
  entered the channel. \<open>fan_out\<close> is the interface of a component that publishes to such channels.
\<close>

record chan =
  buf :: "bytes list"
  shut :: bool
  got :: "bytes list"

definition make_chan :: chan where
  "make_chan = \<lparr>buf = [], shut = False, got = []\<rparr>"

definition put :: "nat \<Rightarrow> bytes \<Rightarrow> chan \<Rightarrow> chan" where
  "put cap b c = (if length (buf c) < cap then c\<lparr>buf := buf c @ [b]\<rparr> else c)"

definition offer :: "nat \<Rightarrow> bytes \<Rightarrow> chan \<Rightarrow> chan option" where
  "offer cap b c = (if shut c then None else Some (put cap b c))"

definition close_chan :: "chan \<Rightarrow> chan option" where
  "close_chan c = (if shut c then None else Some (c\<lparr>shut := True\<rparr>))"

definition receive :: "chan \<Rightarrow> chan" where
  "receive c = (case buf c of [] \<Rightarrow> c | b # bs \<Rightarrow> c\<lparr>buf := bs, got := got c @ [b]\<rparr>)"

definition stream :: "chan \<Rightarrow> bytes list" where
  "stream c = got c @ buf c"

text \<open>The loop that offers one piece to several channels.\<close>

fun offer_all :: "nat \<Rightarrow> bytes \<Rightarrow> nat list \<Rightarrow> (nat \<Rightarrow> chan) \<Rightarrow> (nat \<Rightarrow> chan) option" where
  "offer_all cap b [] h = Some h"
| "offer_all cap b (i # is) h = (case offer cap b (h i) of None \<Rightarrow> None
     | Some c \<Rightarrow> offer_all cap b is (h(i := c)))"

lemma put_simps [simp]:
  "shut (put cap b c) = shut c"
  "stream (put cap b c) = stream c @ (if length (buf c) < cap then [b] else [])"
  "length (buf (put cap b c)) = (if length (buf c) < cap then Suc (length (buf c)) else length (buf c))"
  by (simp_all add: put_def stream_def)

lemma receive_simps [simp]:
  "shut (receive c) = shut c" "stream (receive c) = stream c" "length (buf (receive c)) = length (buf c) - 1"
  by (simp_all add: receive_def stream_def split: list.split)

lemma make_chan_simps [simp]: "shut make_chan = False" "stream make_chan = []" "buf make_chan = []"
  by (simp_all add: make_chan_def stream_def)

lemma offer_all_open:
  "distinct is \<Longrightarrow> (\<And>i. i \<in> set is \<Longrightarrow> \<not> shut (h i)) \<Longrightarrow>
   offer_all cap b is h = Some (\<lambda>j. if j \<in> set is then put cap b (h j) else h j)"
  by (induction "is" arbitrary: h) (auto simp: offer_def fun_eq_iff)

lemma offer_all_closed:
  "i \<in> set is \<Longrightarrow> shut (h i) \<Longrightarrow> offer_all cap b is h = None"
proof (induction "is" arbitrary: h)
  case (Cons a xs)
  then show ?case
    using Cons.IH [of "h(a := put cap b (h a))"] by (cases "a = i") (auto simp: offer_def)
qed simp

section \<open>The fan-out interface\<close>

locale fan_out =
  fixes publish :: "bytes \<Rightarrow> 's \<Rightarrow> 's"
    and member :: "nat \<Rightarrow> 's \<Rightarrow> bool"
    and free :: "nat \<Rightarrow> 's \<Rightarrow> nat"
    and seen :: "nat \<Rightarrow> 's \<Rightarrow> bytes list"
    and healthy :: "'s \<Rightarrow> bool"
  assumes publish_healthy: "healthy s \<Longrightarrow> healthy (publish b s)"
    and publish_member: "healthy s \<Longrightarrow> member v (publish b s) = member v s"
    and publish_seen: "healthy s \<Longrightarrow>
      seen v (publish b s) = seen v s @ (if member v s \<and> 0 < free v s then [b] else [])"
    and publish_free: "healthy s \<Longrightarrow> free v (publish b s) = free v s - (if member v s then 1 else 0)"
begin

lemma all_healthy: "healthy s \<Longrightarrow> healthy (foldl (\<lambda>s b. publish b s) s bs)"
  by (induction bs arbitrary: s) (simp_all add: publish_healthy)

lemma all_seen:
  "healthy s \<Longrightarrow> seen v (foldl (\<lambda>s b. publish b s) s bs) = seen v s @ (if member v s then take (free v s) bs else [])"
proof (induction bs arbitrary: s)
  case (Cons b bs)
  then show ?case
    using publish_healthy [OF Cons.prems, of b] publish_member [OF Cons.prems, of v b]
      publish_seen [OF Cons.prems, of v b] publish_free [OF Cons.prems, of v b]
    by (simp add: take_Cons')
qed simp

lemma all_delivered:
  "healthy s \<Longrightarrow> member v s \<Longrightarrow> length bs \<le> free v s \<Longrightarrow> seen v (foldl (\<lambda>s b. publish b s) s bs) = seen v s @ bs"
  by (simp add: all_seen)

end

end
