(* ===== verification/Session.thy ===== *)
theory Session
  imports Tmuxctl Frames Channels
begin

text \<open>
  The wrapper's side of a terminal (\<open>session/session.go\<close>, \<open>session/termhost.go\<close>,
  \<open>session/p2pterm.go\<close>): the ring of recent output, the fan-out the pty is teed into, the two
  implementations of \<open>termSource\<close>, and the loop that redials the dashboard.
\<close>

section \<open>The ring of recent output\<close>

record paneBuffer =
  pane_buf :: bytes
  pane_max :: nat

definition new_pane :: paneBuffer where
  "new_pane = \<lparr>pane_buf = [], pane_max = 64 * 2 ^ 10\<rparr>"

definition pane_Write :: "bytes \<Rightarrow> paneBuffer \<Rightarrow> paneBuffer" where
  "pane_Write b p = (let q = pane_buf p @ b in
     p\<lparr>pane_buf := (if length q > pane_max p then drop (length q - pane_max p) q else q)\<rparr>)"

definition pane_snapshot :: "paneBuffer \<Rightarrow> bytes" where
  "pane_snapshot p = pane_buf p"

lemma pane_writes:
  "pane_max (foldl (\<lambda>p b. pane_Write b p) p bs) = pane_max p \<and>
   (length (pane_buf p) \<le> pane_max p \<longrightarrow>
    pane_buf (foldl (\<lambda>p b. pane_Write b p) p bs) = keep_last (pane_max p) (pane_buf p @ concat bs))"
proof (induction bs arbitrary: p)
  case (Cons b bs)
  have k: "pane_buf (pane_Write b p) = keep_last (pane_max p) (pane_buf p @ b)"
    by (simp add: pane_Write_def Let_def keep_last_def)
  have m: "pane_max (pane_Write b p) = pane_max p" by (simp add: pane_Write_def Let_def)
  show ?case
    using Cons.IH [of "pane_Write b p"] keep_last_append_keep_last [of "pane_max p" "pane_buf p @ b" "concat bs"]
    by (simp add: k m)
qed (simp)

section \<open>The fan-out\<close>

text \<open>Channels are numbered in the order they are made. The order of \<open>subs\<close> stands for the map's
  iteration order, which no result depends on (\<open>offer_all_open\<close>). \<open>panicked\<close> records a send on a
  closed channel.\<close>

definition termHostQueue :: nat where "termHostQueue = 256"

record fanout =
  subs :: "nat list"
  chans :: "nat \<Rightarrow> chan"
  made :: nat
  fan_panicked :: bool

definition newFanout :: fanout where
  "newFanout = \<lparr>subs = [], chans = (\<lambda>_. make_chan), made = 0, fan_panicked = False\<rparr>"

definition fan_Write :: "bytes \<Rightarrow> fanout \<Rightarrow> fanout" where
  "fan_Write b f = (case offer_all termHostQueue b (subs f) (chans f) of
     None \<Rightarrow> f\<lparr>fan_panicked := True\<rparr> | Some h \<Rightarrow> f\<lparr>chans := h\<rparr>)"

definition fan_subscribe :: "fanout \<Rightarrow> nat \<times> fanout" where
  "fan_subscribe f = (made f, f\<lparr>subs := subs f @ [made f], chans := (chans f)(made f := make_chan), made := Suc (made f)\<rparr>)"

definition fan_unsubscribe :: "nat \<Rightarrow> fanout \<Rightarrow> fanout" where
  "fan_unsubscribe ch f = (if ch \<in> set (subs f)
     then (case close_chan (chans f ch) of None \<Rightarrow> f\<lparr>fan_panicked := True\<rparr>
       | Some c \<Rightarrow> f\<lparr>subs := remove1 ch (subs f), chans := (chans f)(ch := c)\<rparr>)
     else f)"

datatype fan_event = FWrite bytes | FSubscribe | FUnsubscribe nat | FReceive nat

fun fan_step :: "fanout \<Rightarrow> fan_event \<Rightarrow> fanout" where
  "fan_step f (FWrite b) = fan_Write b f"
| "fan_step f FSubscribe = snd (fan_subscribe f)"
| "fan_step f (FUnsubscribe ch) = fan_unsubscribe ch f"
| "fan_step f (FReceive ch) = f\<lparr>chans := (chans f)(ch := receive (chans f ch))\<rparr>"

text \<open>Exactly the subscribed channels are open, among those that were made.\<close>

definition fan_inv :: "fanout \<Rightarrow> bool" where
  "fan_inv f = (\<not> fan_panicked f \<and> distinct (subs f) \<and>
     (\<forall>i. i \<in> set (subs f) \<longleftrightarrow> i < made f \<and> \<not> shut (chans f i)) \<and>
     (\<forall>i. made f \<le> i \<longrightarrow> chans f i = make_chan))"

lemma fan_Write_open:
  "fan_inv f \<Longrightarrow> fan_Write b f = f\<lparr>chans := (\<lambda>j. if j \<in> set (subs f) then put termHostQueue b (chans f j) else chans f j)\<rparr>"
  using offer_all_open [of "subs f" "chans f" termHostQueue b] by (simp add: fan_Write_def fan_inv_def)

lemma fan_inv_new: "fan_inv newFanout"
  by (simp add: fan_inv_def newFanout_def)

lemma fan_step_inv: "fan_inv f \<Longrightarrow> fan_inv (fan_step f e)"
proof (cases e)
  case (FWrite b)
  assume i: "fan_inv f"
  then have "j \<notin> set (subs f)" if "made f \<le> j" for j using that unfolding fan_inv_def by (meson leD)
  with i show ?thesis using FWrite fan_Write_open [of f b] by (simp add: fan_inv_def)
next
  case FSubscribe
  assume i: "fan_inv f"
  then have n: "made f \<notin> set (subs f)" unfolding fan_inv_def by blast
  have "(j \<in> set (subs f @ [made f])) = (j < Suc (made f) \<and> \<not> shut (((chans f)(made f := make_chan)) j))" for j
    using i unfolding fan_inv_def by (cases "j = made f") (auto simp: less_Suc_eq)
  moreover have "\<not> fan_panicked f" "distinct (subs f @ [made f])" "\<forall>j. Suc (made f) \<le> j \<longrightarrow> chans f j = make_chan"
    using i n by (simp_all add: fan_inv_def)
  ultimately show ?thesis unfolding FSubscribe fan_inv_def by (simp add: fan_subscribe_def)
next
  case (FUnsubscribe ch)
  assume i: "fan_inv f"
  show ?thesis
  proof (cases "ch \<in> set (subs f)")
    case True
    then have "\<not> shut (chans f ch)" "ch < made f" using i unfolding fan_inv_def by blast+
    with True have "fan_unsubscribe ch f =
        f\<lparr>subs := remove1 ch (subs f), chans := (chans f)(ch := chans f ch\<lparr>shut := True\<rparr>)\<rparr>"
      by (simp add: fan_unsubscribe_def close_chan_def)
    with \<open>ch < made f\<close> show ?thesis using i FUnsubscribe by (simp add: fan_inv_def set_remove1_eq)
  qed (use i FUnsubscribe in \<open>simp add: fan_unsubscribe_def\<close>)
next
  case (FReceive ch)
  assume "fan_inv f"
  then show ?thesis
    using FReceive receive_simps(1) [of "chans f ch"] by (auto simp: fan_inv_def receive_def [of make_chan])
qed

interpretation fan: machine fan_step "\<lambda>_. True" fan_inv
  by unfold_locales (rule fan_step_inv)

interpretation teed: fan_out fan_Write "\<lambda>v f. v \<in> set (subs f)" "\<lambda>v f. termHostQueue - length (buf (chans f v))"
    "\<lambda>v f. stream (chans f v)" fan_inv
proof
  fix f b v
  assume i: "fan_inv f"
  show "fan_inv (fan_Write b f)" using fan_step_inv [OF i, of "FWrite b"] by simp
  show "(v \<in> set (subs (fan_Write b f))) = (v \<in> set (subs f))"
    "stream (chans (fan_Write b f) v) = stream (chans f v) @
       (if v \<in> set (subs f) \<and> 0 < termHostQueue - length (buf (chans f v)) then [b] else [])"
    "termHostQueue - length (buf (chans (fan_Write b f) v)) =
       termHostQueue - length (buf (chans f v)) - (if v \<in> set (subs f) then 1 else 0)"
    using fan_Write_open [OF i, of b] by (simp_all add: zero_less_diff)
qed

text \<open>What was written while a channel was subscribed.\<close>

fun heard :: "nat \<Rightarrow> fanout \<Rightarrow> fan_event list \<Rightarrow> bytes list" where
  "heard v f [] = []"
| "heard v f (e # es) = (case e of FWrite b \<Rightarrow> if v \<in> set (subs f) then [b] else [] | _ \<Rightarrow> []) @ heard v (fan_step f e) es"

lemma fan_stream:
  "fan_inv f \<Longrightarrow> \<exists>xs. stream (chans (run fan_step f es) v) = stream (chans f v) @ xs \<and> subseq xs (heard v f es) \<and>
     (length (buf (chans f v)) + length (heard v f es) \<le> termHostQueue \<longrightarrow> xs = heard v f es)"
proof (induction es arbitrary: f)
  case (Cons e es)
  let ?g = "fan_step f e"
  let ?n = "if \<exists>b. e = FWrite b \<and> v \<in> set (subs f) then Suc 0 else 0"
  obtain xs where xs: "stream (chans (run fan_step ?g es) v) = stream (chans ?g v) @ xs" "subseq xs (heard v ?g es)"
      "length (buf (chans ?g v)) + length (heard v ?g es) \<le> termHostQueue \<longrightarrow> xs = heard v ?g es"
    using Cons.IH [OF fan_step_inv [OF Cons.prems]] by blast
  have open_chan: "\<not> shut (chans f c)" if "c \<in> set (subs f)" for c
    using that Cons.prems unfolding fan_inv_def by blast
  have fresh: "chans f (made f) = make_chan" using Cons.prems unfolding fan_inv_def by blast
  show ?case
  proof (cases "\<exists>b. e = FWrite b \<and> v \<in> set (subs f)")
    case True
    then obtain b where b: "e = FWrite b" "v \<in> set (subs f)" by blast
    then have g: "chans ?g v = put termHostQueue b (chans f v)" using fan_Write_open [OF Cons.prems, of b] by simp
    show ?thesis
    proof (cases "length (buf (chans f v)) < termHostQueue")
      case True
      then show ?thesis using xs b g by (intro exI [of _ "b # xs"]) auto
    next
      case False
      then show ?thesis using xs b g by (intro exI [of _ xs]) (auto intro: subseq_Cons')
    qed
  next
    case False
    then have h: "heard v f (e # es) = heard v ?g es" by (cases e) auto
    have s: "stream (chans ?g v) = stream (chans f v) \<and> length (buf (chans ?g v)) \<le> length (buf (chans f v))"
    proof (cases e)
      case (FWrite b)
      then show ?thesis using False fan_Write_open [OF Cons.prems, of b] by simp
    next
      case FSubscribe
      then show ?thesis using fresh by (simp add: fan_subscribe_def)
    next
      case (FUnsubscribe ch)
      then show ?thesis using open_chan [of ch] by (auto simp: fan_unsubscribe_def close_chan_def stream_def)
    next
      case (FReceive ch)
      then show ?thesis by simp
    qed
    show ?thesis using xs s h by (intro exI [of _ xs]) auto
  qed
qed simp

section \<open>The pty source\<close>

record ptySource =
  ptmx_in :: bytes                       \<comment> \<open>everything written to the pty\<close>
  winsize :: "16 word \<times> 16 word"      \<comment> \<open>its columns and rows\<close>
  stdin_tty :: bool                      \<comment> \<open>somebody sits at the wrapper's own terminal\<close>
  pane :: paneBuffer
  fan :: fanout
  sub :: "nat option"

definition ptySource_start :: "ptySource \<Rightarrow> nat \<times> ptySource" where
  "ptySource_start p = (case fan_subscribe (fan p) of (ch, f) \<Rightarrow> (ch, p\<lparr>fan := f, sub := Some ch\<rparr>))"

definition ptySource_stop :: "ptySource \<Rightarrow> ptySource" where
  "ptySource_stop p = (case sub p of None \<Rightarrow> p
     | Some ch \<Rightarrow> p\<lparr>sub := None, fan := fan_unsubscribe ch (fan p)\<rparr>)"

definition ptySource_snapshot :: "ptySource \<Rightarrow> bytes" where
  "ptySource_snapshot p = screenToCRLF (pane_snapshot (pane p))"

definition ptySource_send :: "bytes \<Rightarrow> ptySource \<Rightarrow> ptySource" where
  "ptySource_send b p = p\<lparr>ptmx_in := ptmx_in p @ b\<rparr>"

definition ptySource_resize :: "int \<Rightarrow> int \<Rightarrow> ptySource \<Rightarrow> ptySource" where
  "ptySource_resize cols rows p = (if stdin_tty p then p else p\<lparr>winsize := (of_int cols, of_int rows)\<rparr>)"

text \<open>The wrapper's one reader of the pty writes to the ring and, if a source took one, the fan-out.\<close>

definition tee :: "bool \<Rightarrow> bytes \<Rightarrow> ptySource \<Rightarrow> ptySource" where
  "tee fanned b p = (let p = p\<lparr>pane := pane_Write b (pane p)\<rparr> in if fanned then p\<lparr>fan := fan_Write b (fan p)\<rparr> else p)"

lemma screenToCRLF_clean: "no_staircase None (screenToCRLF s)"
  by (simp add: screenToCRLF_def crlf_clean)

interpretation pty: term_source ptySource_snapshot ptySource_send ptySource_resize "\<lambda>_. True" "\<lambda>_. True" ptmx_in
  by unfold_locales (simp_all add: ptySource_snapshot_def screenToCRLF_clean ptySource_send_def ptySource_resize_def)

text \<open>A size the loop passes on survives the conversion to the kernel's 16 bits.\<close>

lemma pane_size_word:
  "pane_size (x, y) \<Longrightarrow> uint (of_int x :: 16 word) = x \<and> uint (of_int y :: 16 word) = y"
  by (simp add: pane_size_def uint_word_of_int)

section \<open>The tmux source\<close>

record tmuxSource =
  t_srv :: tmux_server
  t_session :: bytes
  t_client :: "client option"

definition tmuxSource_start :: "bool \<Rightarrow> int \<Rightarrow> int \<Rightarrow> tmuxSource \<Rightarrow> tmux_error option \<times> tmuxSource" where
  "tmuxSource_start started cols rows t = (case Attach started (t_session t) cols rows of
     Inl e \<Rightarrow> (Some e, t) | Inr c \<Rightarrow> (None, t\<lparr>t_client := Some c\<rparr>))"

text \<open>The first component is the client it closed, which goes on existing until its reader ends.\<close>

definition tmuxSource_stop :: "tmuxSource \<Rightarrow> client option \<times> tmuxSource" where
  "tmuxSource_stop t = (map_option Close_client (t_client t), t\<lparr>t_client := None\<rparr>)"

definition tmuxSource_snapshot :: "tmux_exec \<Rightarrow> tmuxSource \<Rightarrow> bytes" where
  "tmuxSource_snapshot tmux t = (case Capture tmux (t_srv t) (t_session t) \<lparr>Escapes = True, Lines = 0, Alt = False\<rparr> of
     None \<Rightarrow> [] | Some screen \<Rightarrow> screenToCRLF screen)"

definition tmuxSource_send :: "bytes \<Rightarrow> tmuxSource \<Rightarrow> tmuxSource" where
  "tmuxSource_send b t = (case t_client t of None \<Rightarrow> t | Some c \<Rightarrow> t\<lparr>t_client := Some (snd (Send b c))\<rparr>)"

definition tmuxSource_resize :: "int \<Rightarrow> int \<Rightarrow> tmuxSource \<Rightarrow> tmuxSource" where
  "tmuxSource_resize cols rows t = (case t_client t of None \<Rightarrow> t | Some c \<Rightarrow> t\<lparr>t_client := Some (snd (Resize cols rows c))\<rparr>)"

text \<open>What the command pipe types: the bytes that the words of its \<open>send-keys -H\<close> lines stand for.\<close>

definition line_keys :: "bytes \<Rightarrow> bytes" where
  "line_keys l = (case Split l CHR '' '' of
     c # h # t # tgt # ws \<Rightarrow>
       if c = ''send-keys'' \<and> h = ''-H'' then concat (map (\<lambda>w. case hex_DecodeString w of None \<Rightarrow> [] | Some x \<Rightarrow> x) ws) else []
   | _ \<Rightarrow> [])"

definition pipe_keys :: "bytes \<Rightarrow> bytes" where
  "pipe_keys s = concat (map line_keys (Split s newline))"

lemma decoded_words: "concat (map (\<lambda>w. case hex_DecodeString w of None \<Rightarrow> [] | Some x \<Rightarrow> x) (hexBytes d)) = d"
  by (induction d) (simp_all add: hexBytes_def hex_decode_encode)

lemma line_keys_send:
  "CHR '' '' \<notin> set tgt \<Longrightarrow> d \<noteq> [] \<Longrightarrow> line_keys (''send-keys -H -t '' @ tgt @ '' '' @ Join (hexBytes d) '' '') = d"
  using command_line_words [of tgt d] by (simp only: line_keys_def) (simp add: decoded_words)

lemma line_keys_resize: "line_keys (''refresh-client -C '' @ Itoa x @ ''x'' @ Itoa y) = []"
proof -
  have "Split (''refresh-client -C '' @ r) CHR '' '' = ''refresh-client'' # ''-C'' # Split r CHR '' ''" for r
    using Split_append [of "CHR '' ''" "''refresh-client''"] Split_append [of "CHR '' ''" "''-C''" r] by simp
  then show ?thesis by (simp add: line_keys_def split: list.split)
qed

lemma pipe_keys_lines:
  "list_all (\<lambda>l. newline \<notin> set l) ls \<Longrightarrow> pipe_keys (concat (map (\<lambda>l. l @ [newline]) ls)) = concat (map line_keys ls)"
  by (simp add: pipe_keys_def Split_lines) (simp add: line_keys_def)

text \<open>A client in use for one target types exactly what it is sent.\<close>

definition in_use :: "client \<Rightarrow> bool" where
  "in_use c = (\<not> closed c \<and> stdin_ok c \<and> only_commands c \<and> list_all (\<lambda>x. x \<noteq> CHR '' '' \<and> x \<noteq> newline) (target c))"

definition sendable :: "bytes \<Rightarrow> bool" where
  "sendable b = (length b \<le> maxInput)"

lemma command_typed:
  assumes u: "in_use c" and l: "command_line (target c) l"
  shows "in_use (snd (command l c))" and "pipe_keys (stdin (snd (command l c))) = pipe_keys (stdin c) @ line_keys l"
proof -
  have t: "TrimRight l [carriage, newline] = l"
    using command_line_last [OF l] by (intro TrimRight_id) auto
  have s: "stdin (snd (command l c)) = stdin c @ l @ [newline]"
    using u command_line_last [OF l] by (simp add: in_use_def command_def t Let_def)
  show "in_use (snd (command l c))"
    using u command_only [of c l] l by (simp add: in_use_def)
  obtain ls where ls: "stdin c = concat (map (\<lambda>l. l @ [newline]) ls)" "list_all (command_line (target c)) ls"
    using u by (auto simp: in_use_def only_commands_def)
  have n: "newline \<notin> set (target c)" using u by (auto simp: in_use_def list_all_iff)
  have a: "list_all (\<lambda>l. newline \<notin> set l) (ls @ [l])"
    using ls(2) l command_line_newline [OF n] by (auto simp: list_all_iff)
  have "stdin (snd (command l c)) = concat (map (\<lambda>l. l @ [newline]) (ls @ [l]))" by (simp add: s ls(1))
  then show "pipe_keys (stdin (snd (command l c))) = pipe_keys (stdin c) @ line_keys l"
    using pipe_keys_lines [OF a] pipe_keys_lines [of ls] a by (simp add: ls(1))
qed

lemma Send_in_use:
  assumes "in_use c"
  shows "in_use (snd (Send d c)) \<and> pipe_keys (stdin (snd (Send d c))) = pipe_keys (stdin c) @ (if sendable d then d else [])"
proof -
  have t: "CHR '' '' \<notin> set (target c)" using assms by (auto simp: in_use_def list_all_iff)
  consider "d = []" | "\<not> sendable d" "d \<noteq> []" | "sendable d" "d \<noteq> []" by blast
  then show ?thesis
  proof cases
    case 3
    then have "length d \<le> maxInput" by (simp add: sendable_def)
    with 3 show ?thesis
      using command_typed [OF assms command_lineI(1) [of d "target c"]] line_keys_send [OF t, of d]
      by (simp add: Send_def)
  qed (use assms in \<open>auto simp: Send_def sendable_def\<close>)
qed

lemma Resize_in_use:
  assumes "in_use c"
  shows "in_use (snd (Resize x y c)) \<and> pipe_keys (stdin (snd (Resize x y c))) = pipe_keys (stdin c)"
  using assms command_typed [OF assms command_lineI(2) [of x y "target c"]] line_keys_resize [of x y]
  by (simp add: Resize_def)

definition tmuxSource_ok :: "tmuxSource \<Rightarrow> bool" where
  "tmuxSource_ok t = (case t_client t of None \<Rightarrow> False | Some c \<Rightarrow> in_use c)"

definition tmuxSource_typed :: "tmuxSource \<Rightarrow> bytes" where
  "tmuxSource_typed t = (case t_client t of None \<Rightarrow> [] | Some c \<Rightarrow> pipe_keys (stdin c))"

interpretation tmux: term_source "tmuxSource_snapshot exec" tmuxSource_send tmuxSource_resize tmuxSource_ok sendable tmuxSource_typed
proof
  fix t b
  show "no_staircase None (tmuxSource_snapshot exec t)"
    by (simp add: tmuxSource_snapshot_def screenToCRLF_clean split: option.split)
  assume "tmuxSource_ok t"
  then obtain c where c: "t_client t = Some c" "in_use c" by (auto simp: tmuxSource_ok_def split: option.splits)
  show "tmuxSource_ok (tmuxSource_send b t)"
    "tmuxSource_typed (tmuxSource_send b t) = tmuxSource_typed t @ (if sendable b then b else [])"
    using c Send_in_use [OF c(2), of b] by (simp_all add: tmuxSource_ok_def tmuxSource_typed_def tmuxSource_send_def)
  fix x y
  show "tmuxSource_ok (tmuxSource_resize x y t)" "tmuxSource_typed (tmuxSource_resize x y t) = tmuxSource_typed t"
    using c Resize_in_use [OF c(2), of x y] by (simp_all add: tmuxSource_ok_def tmuxSource_typed_def tmuxSource_resize_def)
qed

section \<open>Redialling\<close>

text \<open>\<open>run\<close> as a function of how its calls of \<open>serve\<close> end: \<open>fatal\<close>, and how long each lasted. The
  result is the waits it makes between them and whether it gave up.\<close>

definition termHostMinBackoff :: nanos where "termHostMinBackoff = seconds 1"
definition termHostMaxBackoff :: nanos where "termHostMaxBackoff = seconds 30"
definition termHostStable :: nanos where "termHostStable = seconds 30"

fun run_host :: "nanos \<Rightarrow> (bool \<times> nanos) list \<Rightarrow> nanos list \<times> bool" where
  "run_host backoff [] = ([], False)"
| "run_host backoff ((fatal, lasted) # rest) = (if fatal then ([], True)
     else let wait = (if lasted \<ge> termHostStable then termHostMinBackoff else backoff);
              next_wait = (if wait * 2 > termHostMaxBackoff then termHostMaxBackoff else wait * 2);
              (waits, gave_up) = run_host next_wait rest
          in (wait # waits, gave_up))"

text \<open>The \<open>k\<close>-th wait after the last stable connection.\<close>

definition nth_wait :: "nat \<Rightarrow> nanos" where
  "nth_wait k = min termHostMaxBackoff (termHostMinBackoff * 2 ^ k)"

fun expected_waits :: "nat \<Rightarrow> (bool \<times> nanos) list \<Rightarrow> nanos list" where
  "expected_waits k [] = []"
| "expected_waits k ((fatal, lasted) # rest) = (if fatal then []
     else let k = (if lasted \<ge> termHostStable then 0 else k) in nth_wait k # expected_waits (Suc k) rest)"

lemma nth_wait_0 [simp]: "nth_wait 0 = termHostMinBackoff"
  by (simp add: nth_wait_def termHostMinBackoff_def termHostMaxBackoff_def seconds_def)

lemma nth_wait_Suc:
  "(if nth_wait k * 2 > termHostMaxBackoff then termHostMaxBackoff else nth_wait k * 2) = nth_wait (Suc k)"
  by (auto simp: nth_wait_def termHostMaxBackoff_def seconds_def min_def)

lemma run_host_waits:
  "run_host (nth_wait k) rs = (expected_waits k rs, list_ex fst rs)"
proof (induction rs arbitrary: k)
  case (Cons r rs)
  obtain f l where r: "r = (f, l)" by (cases r)
  let ?j = "if l \<ge> termHostStable then 0 else k"
  have w: "(if l \<ge> termHostStable then termHostMinBackoff else nth_wait k) = nth_wait ?j" by simp
  show ?case by (simp only: r run_host.simps expected_waits.simps Let_def w nth_wait_Suc Cons.IH) simp
qed simp

lemma expected_waits_bounds:
  "w \<in> set (expected_waits k rs) \<Longrightarrow> seconds 1 \<le> w \<and> w \<le> seconds 30"
proof (induction k rs rule: expected_waits.induct)
  case (2 k f l rs)
  have "seconds 1 \<le> nth_wait j \<and> nth_wait j \<le> seconds 30" for j
  proof -
    have "(1::int) \<le> 2 ^ j" by simp
    then have "seconds 1 * 1 \<le> seconds 1 * 2 ^ j" by (intro mult_left_mono) (simp_all add: seconds_def)
    then show ?thesis by (simp add: nth_wait_def termHostMinBackoff_def termHostMaxBackoff_def seconds_def)
  qed
  note b = this this [of 0, simplified]
  with 2 show ?case by (auto simp: Let_def split: if_splits)
qed simp

section \<open>One connection to the dashboard\<close>

text \<open>\<open>serve\<close> once the dial has worked: the hello, then the goroutines that move the source's output
  and the dashboard's frames, each step of one of them an event. \<open>asked\<close> records every piece
  \<open>enqueue\<close> was called with while the connection lived; a dead one, whose context is cancelled and
  whose socket is being closed, writes nothing more.\<close>

datatype wire_out = HelloFrame int int bool | Piece bytes | ExitFrame

record 's host_conn =
  h_src :: 's
  h_queue :: "bytes list"
  h_wire :: "wire_out list"
  h_live :: bool
  asked :: "bytes list"

definition host_open :: "int \<Rightarrow> int \<Rightarrow> bool \<Rightarrow> 's \<Rightarrow> 's host_conn" where
  "host_open cols rows write src = (case clampTermSize cols rows of (c, r) \<Rightarrow>
     \<lparr>h_src = src, h_queue = [], h_wire = [HelloFrame c r write], h_live = True, asked = []\<rparr>)"

definition enqueue_piece :: "bytes \<Rightarrow> 's host_conn \<Rightarrow> 's host_conn" where
  "enqueue_piece b h = (let h = h\<lparr>asked := asked h @ [b]\<rparr> in
     if length (h_queue h) < termHostQueue then h\<lparr>h_queue := h_queue h @ [b]\<rparr> else h\<lparr>h_live := False\<rparr>)"

datatype host_event = SourcePiece bytes | SourceEnded | HostFrame term_frame | HostWritten | HostWriteFailed

fun host_step :: "('s \<Rightarrow> bytes) \<Rightarrow> (bytes \<Rightarrow> 's \<Rightarrow> 's) \<Rightarrow> (int \<Rightarrow> int \<Rightarrow> 's \<Rightarrow> 's) \<Rightarrow> bool
    \<Rightarrow> 's host_conn \<Rightarrow> host_event \<Rightarrow> 's host_conn" where
  "host_step snap send resize write h (SourcePiece b) = (if h_live h then enqueue_piece b h else h)"
| "host_step snap send resize write h SourceEnded = h\<lparr>h_live := False\<rparr>"
| "host_step snap send resize write h (HostFrame f) = (if h_live h
     then case apply_frame snap send resize write (h_src h, []) f of
       (s, replies) \<Rightarrow> foldl (\<lambda>h b. enqueue_piece b h) (h\<lparr>h_src := s\<rparr>) replies
     else h)"
| "host_step snap send resize write h HostWritten = (if h_live h
     then case h_queue h of [] \<Rightarrow> h | b # q \<Rightarrow> h\<lparr>h_queue := q, h_wire := h_wire h @ [Piece b]\<rparr> else h)"
| "host_step snap send resize write h HostWriteFailed = h\<lparr>h_live := False\<rparr>"

definition host_inv :: "wire_out \<Rightarrow> 's host_conn \<Rightarrow> bool" where
  "host_inv z h = (\<exists>ps lost. h_wire h = z # map Piece ps \<and>
     asked h = ps @ h_queue h @ lost \<and> (h_live h \<longrightarrow> lost = []) \<and> length (h_queue h) \<le> termHostQueue)"

lemma host_inv_open:
  "host_inv (HelloFrame (fst (clampTermSize cols rows)) (snd (clampTermSize cols rows)) wr) (host_open cols rows wr src)"
  by (simp add: host_inv_def host_open_def split: prod.split)

lemma host_inv_dead: "host_inv z h \<Longrightarrow> host_inv z (h\<lparr>h_live := False\<rparr>)"
  unfolding host_inv_def by simp blast

lemma enqueue_piece_inv:
  assumes "host_inv z h" and l: "h_live h"
  shows "host_inv z (enqueue_piece b h)"
proof -
  obtain ps where h: "h_wire h = z # map Piece ps"
      "asked h = ps @ h_queue h" "length (h_queue h) \<le> termHostQueue"
    using assms unfolding host_inv_def by auto
  show ?thesis
  proof (cases "length (h_queue h) < termHostQueue")
    case True
    with h show ?thesis unfolding host_inv_def
      by (intro exI [of _ ps] exI [of _ "[]"]) (simp add: enqueue_piece_def Let_def)
  next
    case False
    with h show ?thesis unfolding host_inv_def
      by (intro exI [of _ ps] exI [of _ "[b]"]) (simp add: enqueue_piece_def Let_def)
  qed
qed

lemma host_inv_src [simp]: "host_inv z (h\<lparr>h_src := s\<rparr>) = host_inv z h"
  by (simp add: host_inv_def)

lemma apply_frame_replies: "length (snd (apply_frame snap send resize wr (s, []) f)) \<le> 1"
  by (auto simp: apply_frame_def split: term_frame.split option.split term_msg.split prod.split)

lemma host_step_inv:
  assumes i: "host_inv z h"
  shows "host_inv z (host_step snap send resize wr h e)"
proof (cases e)
  case (SourcePiece b)
  then show ?thesis using i by (simp add: enqueue_piece_inv)
next
  case (HostFrame f)
  obtain s rs where a: "apply_frame snap send resize wr (h_src h, []) f = (s, rs)" by fastforce
  have "rs = [] \<or> (\<exists>b. rs = [b])"
    using apply_frame_replies [of snap send resize wr "h_src h" f] a by (cases rs) auto
  then show ?thesis using i HostFrame a enqueue_piece_inv [of z "h\<lparr>h_src := s\<rparr>"] by auto
next
  case HostWritten
  obtain ps lost where h: "h_wire h = z # map Piece ps"
      "asked h = ps @ h_queue h @ lost" "h_live h \<longrightarrow> lost = []" "length (h_queue h) \<le> termHostQueue"
    using i unfolding host_inv_def by blast
  show ?thesis
  proof (cases "h_live h \<and> h_queue h \<noteq> []")
    case True
    then obtain b q where q: "h_queue h = b # q" "h_live h" by (cases "h_queue h") auto
    then show ?thesis using h HostWritten unfolding host_inv_def
      by (intro exI [of _ "ps @ [b]"] exI [of _ lost]) simp
  next
    case False
    then have "host_step snap send resize wr h e = h" using HostWritten by (auto split: list.split)
    with i show ?thesis by simp
  qed
qed (use i in \<open>simp_all add: host_inv_dead\<close>)

interpretation hosting: machine "host_step snap send resize wr" "\<lambda>_. True" "host_inv z"
  by unfold_locales (rule host_step_inv)

lemma read_only_source: "h_src (run (host_step snap send resize False) h es) = h_src h"
proof (induction es arbitrary: h)
  case (Cons e es)
  have q: "h_src (enqueue_piece b h) = h_src h" for b and h :: "'a host_conn"
    by (simp add: enqueue_piece_def Let_def)
  have qs: "h_src (foldl (\<lambda>h b. enqueue_piece b h) h bs) = h_src h" for bs and h :: "'a host_conn"
    by (induction bs arbitrary: h) (simp_all add: q)
  have "fst (apply_frame snap send resize False (h_src h, []) f) = h_src h" for f
    by (auto simp: apply_frame_def split: term_frame.split option.split term_msg.split)
  then have "h_src (host_step snap send resize False h e) = h_src h"
    by (cases e) (simp_all add: q qs case_prod_unfold split: list.split)
  then show ?case using Cons by simp
qed simp

section \<open>Properties\<close>

text \<open>The fan-out delivers and never panics. Whatever the wrapper writes, whoever subscribes,
  unsubscribes and reads in whatever order, no send or close hits a closed channel; a channel
  carries, in order and unaltered, pieces written while it was subscribed; it carries every one of
  them unless more than 256 were written; and it is closed exactly when it has been unsubscribed.\<close>

theorem fan_out_delivers:
  "let f = run fan_step newFanout es; h = heard v newFanout es in
    \<not> fan_panicked f \<and> subseq (stream (chans f v)) h \<and>
    (length h \<le> 256 \<longrightarrow> stream (chans f v) = h) \<and>
    (shut (chans f v) \<longleftrightarrow> v < made f \<and> v \<notin> set (subs f))"
proof -
  let ?f = "run fan_step newFanout es"
  have i: "fan_inv ?f" by (rule fan.run_inv [OF fan_inv_new]) (simp add: list_all_iff)
  obtain xs where xs: "stream (chans ?f v) = xs" "subseq xs (heard v newFanout es)"
      "length (heard v newFanout es) \<le> termHostQueue \<longrightarrow> xs = heard v newFanout es"
    using fan_stream [OF fan_inv_new, of es v] by (auto simp: newFanout_def)
  have "shut (chans ?f v) \<longleftrightarrow> v < made ?f \<and> v \<notin> set (subs ?f)"
    using i unfolding fan_inv_def by (metis make_chan_simps(1) not_le)
  with i xs show ?thesis by (simp add: fan_inv_def termHostQueue_def Let_def)
qed

theorem fan_out_delivers_witness:
  "stream (chans (run fan_step newFanout [FWrite ''a'', FSubscribe, FWrite ''b'', FReceive 0, FSubscribe, FWrite ''c'',
      FUnsubscribe 0, FWrite ''d'']) 0) = [''b'', ''c'']"
  using fan_out_delivers [of "[FWrite ''a'', FSubscribe, FWrite ''b'', FReceive 0, FSubscribe, FWrite ''c'',
      FUnsubscribe 0, FWrite ''d'']" 0]
  by (simp add: Let_def fan_Write_def fan_subscribe_def fan_unsubscribe_def newFanout_def offer_def put_def
      close_chan_def receive_def termHostQueue_def make_chan_def)

text \<open>A late browser gets the recent output exactly. However the program's output was cut into
  writes, the snapshot of a pty session is the last 64 KiB of all of it, with every line feed
  preceded by a carriage return and nothing else changed.\<close>

theorem snapshot_is_recent_output:
  "ptySource_snapshot (foldl (\<lambda>p b. tee fanned b p) (p\<lparr>pane := new_pane\<rparr>) bs) =
     screenCRLF (keep_last (64 * 1024) (concat bs)) \<and>
   no_staircase None (screenCRLF (keep_last (64 * 1024) (concat bs))) \<and>
   filter (\<lambda>c. c \<noteq> carriage) (screenCRLF (keep_last (64 * 1024) (concat bs))) =
     filter (\<lambda>c. c \<noteq> carriage) (keep_last (64 * 1024) (concat bs))"
proof -
  have p: "pane (foldl (\<lambda>p b. tee fanned b p) q bs) = foldl (\<lambda>p b. pane_Write b p) (pane q) bs" for q
    by (induction bs arbitrary: q) (simp_all add: tee_def Let_def)
  show ?thesis
    using pane_writes [of new_pane bs]
    by (simp add: p ptySource_snapshot_def pane_snapshot_def screenToCRLF_def screenCRLF_def new_pane_def
        crlf_clean crlf_same_lines)
qed

text \<open>Redialling is bounded and stops where it must. The waits between connections double from
  one second up to thirty, start over after a connection that lasted half a minute, are never
  shorter than a second or longer than thirty, and the wrapper gives up exactly on the first
  authentication failure.\<close>

theorem redial_waits:
  "run_host termHostMinBackoff rs = (expected_waits 0 rs, list_ex fst rs) \<and>
   list_all (\<lambda>w. seconds 1 \<le> w \<and> w \<le> seconds 30) (expected_waits 0 rs) \<and>
   length (expected_waits 0 rs) = length (takeWhile (\<lambda>r. \<not> fst r) rs)"
proof -
  have "length (expected_waits k rs) = length (takeWhile (\<lambda>r. \<not> fst r) rs)" for k
    by (induction k rs rule: expected_waits.induct) (simp_all add: Let_def)
  then show ?thesis
    using run_host_waits [of 0 rs] expected_waits_bounds [of _ 0 rs] by (simp add: list_all_iff)
qed

text \<open>C13: A hosted stream has no gaps. Whatever the source produces, the dashboard sends and the
  socket does, the wire carries the hello with a legal size first and then, in order, a prefix of
  everything queued; nothing is lost while the connection lives, because a full queue drops the
  connection instead of a piece.\<close>

theorem stream_without_gaps:
  "\<exists>ps lost. let h = run (host_step snap send resize wr) (host_open cols rows wr src) es in
     h_wire h = HelloFrame (fst (clampTermSize cols rows)) (snd (clampTermSize cols rows)) wr # map Piece ps \<and>
     pane_size (clampTermSize cols rows) \<and>
     asked h = ps @ h_queue h @ (if h_live h then [] else lost) \<and> length (h_queue h) \<le> 256"
proof -
  have "host_inv (HelloFrame (fst (clampTermSize cols rows)) (snd (clampTermSize cols rows)) wr)
      (run (host_step snap send resize wr) (host_open cols rows wr src) es)"
    by (rule hosting.run_inv [OF host_inv_open]) (simp add: list_all_iff)
  then show ?thesis by (auto simp: host_inv_def Let_def termHostQueue_def split: if_splits)
qed

end
