(* ===== verification/Hosts.thy ===== *)
theory Hosts
  imports Terminal Session
begin

text \<open>
  The dashboard's side of a remote terminal (\<open>dashboard/termhost.go\<close>): the registry of wrappers
  offering their session, the browsers attached to each, and the relay between them. \<open>broadcast\<close> and
  \<open>close\<close> work in two phases, under the lock and after it, so each phase, and each channel operation
  of the second, is a step of its own.
\<close>

section \<open>One hosted terminal\<close>

definition viewerQueue :: nat where "viewerQueue = 256"

datatype go_panic = SendOnClosed | CloseOfClosed

record term_host =
  th_session :: bytes
  th_write :: bool
  th_cols :: int
  th_rows :: int
  th_closed :: bool
  viewers :: "nat list"
  vchan :: "nat \<Rightarrow> chan"
  vmade :: nat
  to_wrapper :: "term_frame list"                 \<comment> \<open>control frames written to the wrapper\<close>
  sending :: "(bytes \<times> nat list) option"     \<comment> \<open>a broadcast past its lock\<close>
  closing :: "nat list"                           \<comment> \<open>channels a close past its lock still has to close\<close>
  th_panics :: "go_panic list"

definition new_host :: "bytes \<Rightarrow> bool \<Rightarrow> int \<Rightarrow> int \<Rightarrow> term_host" where
  "new_host sid w cols rows = (case termSize cols rows of (c, r) \<Rightarrow>
     \<lparr>th_session = sid, th_write = w, th_cols = c, th_rows = r, th_closed = False, viewers = [],
      vchan = (\<lambda>_. make_chan), vmade = 0, to_wrapper = [], sending = None, closing = [], th_panics = []\<rparr>)"

definition th_control :: "term_frame \<Rightarrow> term_host \<Rightarrow> term_host" where
  "th_control f h = (if th_closed h then h else h\<lparr>to_wrapper := to_wrapper h @ [f]\<rparr>)"

definition th_sendInput :: "bytes \<Rightarrow> term_host \<Rightarrow> term_host" where
  "th_sendInput data h = (if \<not> th_write h then h else th_control (TText (Some (MInput (std_encode data)))) h)"

definition th_resize :: "int \<Rightarrow> int \<Rightarrow> term_host \<Rightarrow> term_host" where
  "th_resize cols rows h = th_control (TText (Some (MResize cols rows))) h"

definition th_attach :: "term_host \<Rightarrow> nat option \<times> term_host" where
  "th_attach h = (if th_closed h then (None, h)
     else let v = vmade h;
              h1 = h\<lparr>viewers := viewers h @ [v], vchan := (vchan h)(v := make_chan), vmade := Suc v\<rparr>
          in (Some v, th_control (TText (Some MSnapshot)) h1))"

definition th_close_chan :: "nat \<Rightarrow> term_host \<Rightarrow> term_host" where
  "th_close_chan v h = (case close_chan (vchan h v) of
     None \<Rightarrow> h\<lparr>th_panics := th_panics h @ [CloseOfClosed]\<rparr>
   | Some c \<Rightarrow> h\<lparr>vchan := (vchan h)(v := c)\<rparr>)"

definition th_detach :: "nat \<Rightarrow> term_host \<Rightarrow> term_host" where
  "th_detach v h = (if v \<in> set (viewers h) then th_close_chan v (h\<lparr>viewers := remove1 v (viewers h)\<rparr>) else h)"

definition th_broadcast_copy :: "bytes \<Rightarrow> term_host \<Rightarrow> term_host" where
  "th_broadcast_copy data h = (case sending h of None \<Rightarrow> h\<lparr>sending := Some (data, viewers h)\<rparr> | Some _ \<Rightarrow> h)"

definition th_broadcast_send :: "term_host \<Rightarrow> term_host" where
  "th_broadcast_send h = (case sending h of
     None \<Rightarrow> h
   | Some (data, []) \<Rightarrow> h\<lparr>sending := None\<rparr>
   | Some (data, v # vs) \<Rightarrow> (case offer viewerQueue data (vchan h v) of
         None \<Rightarrow> h\<lparr>sending := None, th_panics := th_panics h @ [SendOnClosed]\<rparr>
       | Some c \<Rightarrow> h\<lparr>vchan := (vchan h)(v := c), sending := Some (data, vs)\<rparr>))"

definition th_close_lock :: "term_host \<Rightarrow> term_host" where
  "th_close_lock h = (if th_closed h then h else h\<lparr>th_closed := True, closing := viewers h, viewers := []\<rparr>)"

definition th_close_next :: "term_host \<Rightarrow> term_host" where
  "th_close_next h = (case closing h of [] \<Rightarrow> h | v # vs \<Rightarrow> th_close_chan v (h\<lparr>closing := vs\<rparr>))"

text \<open>What happens to a host: its wrapper's bytes, and the goroutines of the browsers and of whoever
  closes it.\<close>

datatype th_event =
  TAttach | TDetach nat | TBytes bytes | TSend | TClose | TCloseNext | TReceive nat
| TInput bytes | TResize int int

fun th_step :: "term_host \<Rightarrow> th_event \<Rightarrow> term_host" where
  "th_step h TAttach = snd (th_attach h)"
| "th_step h (TDetach v) = th_detach v h"
| "th_step h (TBytes d) = th_broadcast_copy d h"
| "th_step h TSend = th_broadcast_send h"
| "th_step h TClose = th_close_lock h"
| "th_step h TCloseNext = th_close_next h"
| "th_step h (TReceive v) = h\<lparr>vchan := (vchan h)(v := receive (vchan h v))\<rparr>"
| "th_step h (TInput d) = th_sendInput d h"
| "th_step h (TResize x y) = th_resize x y h"

section \<open>The browser's side\<close>

definition viewer_frame :: "bool \<Rightarrow> term_host \<Rightarrow> term_frame \<Rightarrow> term_host" where
  "viewer_frame can_write h f = (case f of
     TText (Some (MInput p)) \<Rightarrow>
       if \<not> can_write then h else (case std_decode p of None \<Rightarrow> h | Some raw \<Rightarrow> th_sendInput raw h)
   | TText (Some (MResize x y)) \<Rightarrow>
       if can_write then (case termSize x y of (cols, rows) \<Rightarrow> th_resize cols rows h) else h
   | _ \<Rightarrow> h)"

section \<open>The registry\<close>

text \<open>Hosts by the number of their connection. \<open>close_host\<close> is a whole close.\<close>

record term_hosts_reg =
  registry :: "bytes \<rightharpoonup> nat"
  host_of :: "nat \<Rightarrow> term_host option"
  connections :: nat

definition close_host :: "term_host \<Rightarrow> term_host" where
  "close_host h = (let h1 = th_close_lock h in run th_step h1 (replicate (length (closing h1)) TCloseNext))"

definition close_conn :: "nat \<Rightarrow> term_hosts_reg \<Rightarrow> term_hosts_reg" where
  "close_conn n t = t\<lparr>host_of := (host_of t)(n := map_option close_host (host_of t n))\<rparr>"

definition hosts_add :: "term_host \<Rightarrow> term_hosts_reg \<Rightarrow> nat \<times> term_hosts_reg" where
  "hosts_add h t = (let n = connections t; old = registry t (th_session h);
       t1 = t\<lparr>registry := (registry t)(th_session h \<mapsto> n), host_of := (host_of t)(n \<mapsto> h), connections := Suc n\<rparr>
     in (n, case old of None \<Rightarrow> t1 | Some m \<Rightarrow> if m \<noteq> n then close_conn m t1 else t1))"

definition hosts_remove :: "nat \<Rightarrow> term_hosts_reg \<Rightarrow> term_hosts_reg" where
  "hosts_remove n t = (case host_of t n of None \<Rightarrow> t | Some h \<Rightarrow>
     close_conn n (if registry t (th_session h) = Some n then t\<lparr>registry := (registry t)(th_session h := None)\<rparr> else t))"

definition hosts_get :: "bytes \<Rightarrow> term_hosts_reg \<Rightarrow> (nat \<times> term_host) option" where
  "hosts_get sid t = (case registry t sid of None \<Rightarrow> None
     | Some n \<Rightarrow> map_option (Pair n) (host_of t n))"

definition hosts_live :: "bytes \<Rightarrow> term_hosts_reg \<Rightarrow> bool" where
  "hosts_live sid t = (case hosts_get sid t of None \<Rightarrow> False | Some (n, h) \<Rightarrow> \<not> th_closed h)"

definition drop_host :: "bytes \<Rightarrow> term_hosts_reg \<Rightarrow> term_hosts_reg" where
  "drop_host sid t = (case hosts_get sid t of None \<Rightarrow> t | Some (n, _) \<Rightarrow> hosts_remove n t)"

section \<open>The handlers\<close>

text \<open>The hello is \<open>None\<close> when the first frame is no text frame with a hello. The answer is a refusal,
  the socket closed without one, or the host that was registered.\<close>

datatype host_offer = OfferRefused reply | OfferDropped | OfferTaken nat

definition handleTerminalHost :: "config \<Rightarrow> outside \<Rightarrow> caller \<Rightarrow> bytes \<Rightarrow> (int \<times> int \<times> bool) option
    \<Rightarrow> server \<times> term_hosts_reg \<Rightarrow> host_offer \<times> server \<times> term_hosts_reg" where
  "handleTerminalHost cfg w c i hello st = (case st of (s, t) \<Rightarrow>
     if \<not> c_machine c then (OfferRefused (Fail 403 ''terminal hosting requires an API key''), s, t)
     else case liveRecord cfg w i s of
       (None, s1) \<Rightarrow> (OfferRefused no_such_session, s1, t)
     | (Some r, s1) \<Rightarrow>
         let (dead, k) = (if rStatus r = StatusEnded then (True, killed s1) else was_killed (time w) (rRoomID r) (killed s1));
             s2 = s1\<lparr>killed := k\<rparr>
         in if dead then (OfferRefused (Fail 410 ''session ended''), s2, t)
            else if \<not> canSee c (ACL (acls s2) (rID r)) then (OfferRefused no_such_session, s2, t)
            else if \<not> rRemote r then (OfferRefused (Fail 409 ''session is local''), s2, t)
            else case hello of
              None \<Rightarrow> (OfferDropped, s2, t)
            | Some (cols, rows, wr) \<Rightarrow> (case hosts_add (new_host (rID r) wr cols rows) t of
                (n, t1) \<Rightarrow> (OfferTaken n, s2, t1)))"

text \<open>Opening the browser's end: the right to type it is granted, the size it is told, its channel.\<close>

datatype viewer_open = ViewerRefused reply | ViewerExit bool "int \<times> int" | ViewerOn nat bool "int \<times> int" nat

definition serveRemoteTerminal :: "rec \<Rightarrow> bool \<Rightarrow> term_hosts_reg \<Rightarrow> viewer_open \<times> term_hosts_reg" where
  "serveRemoteTerminal r wr t = (case hosts_get (rID r) t of
     None \<Rightarrow> (ViewerRefused (Fail 409 ''no terminal host connected for this session''), t)
   | Some (n, h) \<Rightarrow>
       if th_closed h then (ViewerRefused (Fail 409 ''no terminal host connected for this session''), t)
       else (case th_attach h of
         (None, h1) \<Rightarrow> (ViewerExit (wr \<and> th_write h) (th_cols h, th_rows h), t)
       | (Some v, h1) \<Rightarrow> (ViewerOn n (wr \<and> th_write h) (th_cols h, th_rows h) v, t\<lparr>host_of := (host_of t)(n \<mapsto> h1)\<rparr>)))"

section \<open>One host: facts\<close>

text \<open>Channels still to be closed are open and belong to one owner: the viewers, or the close.\<close>

definition th_inv :: "term_host \<Rightarrow> bool" where
  "th_inv h = (distinct (viewers h @ closing h) \<and> (\<forall>v\<in>set (viewers h @ closing h). v < vmade h \<and> \<not> shut (vchan h v)) \<and>
     (th_closed h \<longrightarrow> viewers h = []) \<and> (\<not> th_closed h \<longrightarrow> closing h = []) \<and> CloseOfClosed \<notin> set (th_panics h))"

lemma th_inv_new: "th_inv (new_host sid w x y)"
  by (simp add: th_inv_def new_host_def split: prod.split)

lemma th_control_frame [simp]:
  "viewers (th_control f h) = viewers h" "closing (th_control f h) = closing h" "vchan (th_control f h) = vchan h"
  "vmade (th_control f h) = vmade h" "th_closed (th_control f h) = th_closed h" "th_panics (th_control f h) = th_panics h"
  "sending (th_control f h) = sending h" "th_session (th_control f h) = th_session h" "th_write (th_control f h) = th_write h"
  "th_inv (th_control f h) = th_inv h"
  by (simp_all add: th_control_def th_inv_def)

lemma th_close_chan_open:
  "\<not> shut (vchan h v) \<Longrightarrow> th_close_chan v h = h\<lparr>vchan := (vchan h)(v := vchan h v\<lparr>shut := True\<rparr>)\<rparr>"
  by (simp add: th_close_chan_def close_chan_def)

lemma th_detach_inv:
  assumes "th_inv h"
  shows "th_inv (th_detach v h)"
proof (cases "v \<in> set (viewers h)")
  case True
  then have o: "\<not> shut (vchan h v)" using assms by (simp add: th_inv_def)
  then have "th_detach v h =
      h\<lparr>viewers := remove1 v (viewers h), vchan := (vchan h)(v := vchan h v\<lparr>shut := True\<rparr>)\<rparr>"
    using True th_close_chan_open [of "h\<lparr>viewers := remove1 v (viewers h)\<rparr>" v] by (simp add: th_detach_def)
  then show ?thesis using assms True by (auto simp: th_inv_def)
qed (simp add: th_detach_def assms)

lemma th_send_inv:
  assumes "th_inv h"
  shows "th_inv (th_broadcast_send h)"
proof (cases "sending h")
  case (Some p)
  obtain d vs where p: "p = (d, vs)" by (cases p)
  show ?thesis
    using assms Some p
    by (cases vs) (auto simp: th_inv_def th_broadcast_send_def offer_def split: option.split)
qed (simp add: th_broadcast_send_def assms)

lemma th_close_next_inv:
  assumes "th_inv h"
  shows "th_inv (th_close_next h)"
proof (cases "closing h")
  case (Cons v vs)
  then have "\<not> shut (vchan h v)" using assms by (simp add: th_inv_def)
  then have "th_close_next h = h\<lparr>closing := vs, vchan := (vchan h)(v := vchan h v\<lparr>shut := True\<rparr>)\<rparr>"
    using Cons th_close_chan_open [of "h\<lparr>closing := vs\<rparr>" v] by (simp add: th_close_next_def)
  then show ?thesis using assms Cons by (auto simp: th_inv_def)
qed (simp add: th_close_next_def assms)

lemma th_attach_inv:
  assumes "th_inv h"
  shows "th_inv (snd (th_attach h))"
proof (cases "th_closed h")
  case False
  let ?h = "h\<lparr>viewers := viewers h @ [vmade h], vchan := (vchan h)(vmade h := make_chan), vmade := Suc (vmade h)\<rparr>"
  have "vmade h \<notin> set (viewers h)" using assms by (auto simp: th_inv_def)
  then have "th_inv ?h" using assms False by (auto simp: th_inv_def less_SucI)
  then show ?thesis using False by (simp add: th_attach_def Let_def)
qed (simp add: th_attach_def assms)

lemma th_step_inv: "th_inv h \<Longrightarrow> th_inv (th_step h e)"
proof (cases e)
  case (TBytes d)
  assume "th_inv h"
  then show ?thesis using TBytes by (simp add: th_broadcast_copy_def th_inv_def split: option.split)
next
  case TClose
  assume "th_inv h"
  then show ?thesis using TClose by (auto simp: th_close_lock_def th_inv_def)
next
  case (TReceive v)
  assume "th_inv h"
  then show ?thesis using TReceive by (simp add: th_inv_def)
qed (simp_all add: th_attach_inv th_detach_inv th_send_inv th_close_next_inv th_sendInput_def th_resize_def)

interpretation hosted: machine th_step "\<lambda>_. True" th_inv
  by unfold_locales (rule th_step_inv)

text \<open>Without a viewer or the host leaving in the middle of a broadcast, nothing panics.\<close>

definition th_calm :: "term_host \<Rightarrow> bool" where
  "th_calm h = (th_inv h \<and> th_panics h = [] \<and>
     (\<forall>d vs. sending h = Some (d, vs) \<longrightarrow> set vs \<subseteq> set (viewers h)))"

definition leaves :: "th_event \<Rightarrow> bool" where
  "leaves e = (case e of TDetach v \<Rightarrow> True | TClose \<Rightarrow> True | _ \<Rightarrow> False)"

fun orderly :: "term_host \<Rightarrow> th_event list \<Rightarrow> bool" where
  "orderly h [] = True"
| "orderly h (e # es) = ((sending h = None \<or> \<not> leaves e) \<and> orderly (th_step h e) es)"

lemma th_step_calm:
  assumes "th_calm h" and "sending h = None \<or> \<not> leaves e"
  shows "th_calm (th_step h e)"
proof -
  have i: "th_inv h" "th_inv (th_step h e)" using assms(1) th_step_inv by (simp_all add: th_calm_def)
  have c: "th_panics h = []" "\<And>d vs. sending h = Some (d, vs) \<Longrightarrow> set vs \<subseteq> set (viewers h)"
    using assms(1) by (simp_all add: th_calm_def)
  show ?thesis
  proof (cases e)
    case TSend
    show ?thesis
    proof (cases "sending h")
      case (Some p)
      obtain d vs where p: "p = (d, vs)" by (cases p)
      show ?thesis
      proof (cases vs)
        case (Cons v ws)
        then have "\<not> shut (vchan h v)" using i(1) c(2) Some p by (simp add: th_inv_def)
        then show ?thesis using Cons i c Some p TSend by (simp add: th_calm_def th_broadcast_send_def offer_def)
      qed (use i c Some p TSend in \<open>simp add: th_calm_def th_broadcast_send_def\<close>)
    qed (use i c TSend in \<open>simp add: th_calm_def th_broadcast_send_def\<close>)
  next
    case (TDetach v)
    then have "sending h = None" using assms(2) by (simp add: leaves_def)
    then show ?thesis
      using i c TDetach th_close_chan_open [of "h\<lparr>viewers := remove1 v (viewers h)\<rparr>" v]
      by (cases "v \<in> set (viewers h)") (auto simp: th_calm_def th_detach_def th_inv_def)
  next
    case TCloseNext
    show ?thesis
    proof (cases "closing h")
      case (Cons v vs)
      then have "\<not> shut (vchan h v)" using i(1) by (simp add: th_inv_def)
      then show ?thesis
        using i c TCloseNext Cons th_close_chan_open [of "h\<lparr>closing := vs\<rparr>" v]
        by (simp add: th_calm_def th_close_next_def split: option.splits prod.splits)
    qed (use i c TCloseNext in \<open>simp add: th_calm_def th_close_next_def\<close>)
  next
    case TClose
    then have "sending h = None" using assms(2) by (simp add: leaves_def)
    then show ?thesis using i c TClose by (simp add: th_calm_def th_close_lock_def)
  next
    case TAttach
    then show ?thesis using i c by (auto simp: th_calm_def th_attach_def Let_def split: option.splits)
  next
    case (TBytes d)
    then show ?thesis using i c by (simp add: th_calm_def th_broadcast_copy_def split: option.splits prod.splits)
  qed (use i c in \<open>simp_all add: th_calm_def th_sendInput_def th_resize_def\<close>)
qed

lemma orderly_calm: "th_calm h \<Longrightarrow> orderly h es \<Longrightarrow> th_calm (run th_step h es)"
  by (induction es arbitrary: h) (simp_all add: th_step_calm)

section \<open>Broadcasting undisturbed\<close>

definition th_broadcast :: "bytes \<Rightarrow> term_host \<Rightarrow> term_host" where
  "th_broadcast d h = run th_step h (TBytes d # replicate (Suc (length (viewers h))) TSend)"

definition th_idle :: "term_host \<Rightarrow> bool" where
  "th_idle h = (th_inv h \<and> sending h = None)"

lemma sends_all:
  "sending h = Some (d, vs) \<Longrightarrow> distinct vs \<Longrightarrow> (\<And>v. v \<in> set vs \<Longrightarrow> \<not> shut (vchan h v)) \<Longrightarrow>
   run th_step h (replicate (Suc (length vs)) TSend) =
     h\<lparr>sending := None, vchan := (\<lambda>v. if v \<in> set vs then put viewerQueue d (vchan h v) else vchan h v)\<rparr>"
proof (induction vs arbitrary: h)
  case Nil
  then show ?case by (simp add: th_broadcast_send_def)
next
  case (Cons v vs)
  let ?g = "h\<lparr>vchan := (vchan h)(v := put viewerQueue d (vchan h v)), sending := Some (d, vs)\<rparr>"
  have g: "th_broadcast_send h = ?g" using Cons.prems by (simp add: th_broadcast_send_def offer_def)
  have "run th_step ?g (replicate (Suc (length vs)) TSend) =
      ?g\<lparr>sending := None, vchan := (\<lambda>w. if w \<in> set vs then put viewerQueue d (vchan ?g w) else vchan ?g w)\<rparr>"
    using Cons.prems by (intro Cons.IH) auto
  moreover have "(\<lambda>w. if w \<in> set vs then put viewerQueue d (vchan ?g w) else vchan ?g w) =
      (\<lambda>w. if w \<in> set (v # vs) then put viewerQueue d (vchan h w) else vchan h w)"
    using Cons.prems(2) by (auto simp: fun_eq_iff)
  ultimately show ?case by (simp add: g)
qed

lemma th_broadcast_eq:
  assumes "th_idle h"
  shows "th_broadcast d h = h\<lparr>vchan := (\<lambda>v. if v \<in> set (viewers h) then put viewerQueue d (vchan h v) else vchan h v)\<rparr>"
proof -
  let ?g = "h\<lparr>sending := Some (d, viewers h)\<rparr>"
  have "th_broadcast d h = run th_step ?g (replicate (Suc (length (viewers h))) TSend)"
    using assms by (simp add: th_broadcast_def th_broadcast_copy_def th_idle_def)
  also have "\<dots> = ?g\<lparr>sending := None, vchan := (\<lambda>v. if v \<in> set (viewers h) then put viewerQueue d (vchan ?g v) else vchan ?g v)\<rparr>"
    using assms by (intro sends_all) (simp_all add: th_idle_def th_inv_def)
  also have "\<dots> = h\<lparr>vchan := (\<lambda>v. if v \<in> set (viewers h) then put viewerQueue d (vchan h v) else vchan h v)\<rparr>"
    using assms by (simp add: th_idle_def cong: if_cong)
  finally show ?thesis .
qed

interpretation viewed: fan_out th_broadcast "\<lambda>v h. v \<in> set (viewers h)"
    "\<lambda>v h. viewerQueue - length (buf (vchan h v))" "\<lambda>v h. stream (vchan h v)" th_idle
proof
  fix h d v
  assume i: "th_idle h"
  show "th_idle (th_broadcast d h)" using i th_broadcast_eq [OF i, of d] by (auto simp: th_idle_def th_inv_def)
  show "(v \<in> set (viewers (th_broadcast d h))) = (v \<in> set (viewers h))"
    "stream (vchan (th_broadcast d h) v) = stream (vchan h v) @
       (if v \<in> set (viewers h) \<and> 0 < viewerQueue - length (buf (vchan h v)) then [d] else [])"
    "viewerQueue - length (buf (vchan (th_broadcast d h) v)) =
       viewerQueue - length (buf (vchan h v)) - (if v \<in> set (viewers h) then 1 else 0)"
    using th_broadcast_eq [OF i, of d] by (simp_all add: zero_less_diff)
qed

section \<open>Leaving in the middle\<close>

lemma sends_until_closed:
  "sending h = Some (d, vs) \<Longrightarrow> v \<in> set vs \<Longrightarrow> shut (vchan h v) \<Longrightarrow>
   SendOnClosed \<in> set (th_panics (run th_step h (replicate (length vs) TSend)))"
proof (induction vs arbitrary: h)
  case (Cons u vs)
  have k: "SendOnClosed \<in> set (th_panics g) \<Longrightarrow> SendOnClosed \<in> set (th_panics (run th_step g (replicate n TSend)))" for g n
    by (induction n arbitrary: g) (auto simp: th_broadcast_send_def split: option.split list.split)
  show ?case
  proof (cases "shut (vchan h u)")
    case True
    then have "SendOnClosed \<in> set (th_panics (th_broadcast_send h))"
      using Cons.prems(1) by (simp add: th_broadcast_send_def offer_def)
    then show ?thesis using k by simp
  next
    case False
    let ?g = "h\<lparr>vchan := (vchan h)(u := put viewerQueue d (vchan h u)), sending := Some (d, vs)\<rparr>"
    have "th_broadcast_send h = ?g" using Cons.prems(1) False by (simp add: th_broadcast_send_def offer_def)
    moreover have "v \<in> set vs" "shut (vchan ?g v)" using Cons.prems False by auto
    ultimately show ?thesis using Cons.IH [of ?g] by simp
  qed
qed simp

lemma detach_shuts: "th_inv h \<Longrightarrow> v \<in> set (viewers h) \<Longrightarrow> shut (vchan (th_detach v h) v) \<and> sending (th_detach v h) = sending h"
  using th_close_chan_open [of "h\<lparr>viewers := remove1 v (viewers h)\<rparr>" v] by (simp add: th_detach_def th_inv_def)

section \<open>Closing and the registry\<close>

lemma close_next_all:
  "th_inv h \<Longrightarrow> run th_step h (replicate (length (closing h)) TCloseNext) =
     h\<lparr>closing := [], vchan := (\<lambda>v. if v \<in> set (closing h) then vchan h v\<lparr>shut := True\<rparr> else vchan h v)\<rparr>"
proof (induction "closing h" arbitrary: h)
  case (Cons v vs)
  let ?g = "h\<lparr>closing := vs, vchan := (vchan h)(v := vchan h v\<lparr>shut := True\<rparr>)\<rparr>"
  have v: "\<not> shut (vchan h v)" "v \<notin> set vs" using Cons.prems Cons.hyps(2) [symmetric] by (auto simp: th_inv_def)
  then have g: "th_close_next h = ?g"
    using Cons.hyps(2) [symmetric] th_close_chan_open [of "h\<lparr>closing := vs\<rparr>" v] by (simp add: th_close_next_def)
  have "th_inv ?g" using th_close_next_inv [OF Cons.prems] g by simp
  then have "run th_step ?g (replicate (length vs) TCloseNext) =
      ?g\<lparr>closing := [], vchan := (\<lambda>w. if w \<in> set vs then vchan ?g w\<lparr>shut := True\<rparr> else vchan ?g w)\<rparr>"
    using Cons.hyps(1) [of ?g] by simp
  moreover have "(\<lambda>w. if w \<in> set vs then vchan ?g w\<lparr>shut := True\<rparr> else vchan ?g w) =
      (\<lambda>w. if w \<in> set (closing h) then vchan h w\<lparr>shut := True\<rparr> else vchan h w)"
    using v(2) Cons.hyps(2) [symmetric] by (auto simp: fun_eq_iff)
  ultimately show ?case using g Cons.hyps(2) [symmetric] by simp
qed simp

lemma close_host_eq:
  assumes "th_inv h"
  shows "close_host h = (let h1 = th_close_lock h in
     h1\<lparr>closing := [], vchan := (\<lambda>v. if v \<in> set (closing h1) then vchan h1 v\<lparr>shut := True\<rparr> else vchan h1 v)\<rparr>)"
proof -
  have "th_inv (th_close_lock h)" using th_step_inv [OF assms, of TClose] by simp
  then show ?thesis by (simp add: close_host_def Let_def close_next_all)
qed

lemma close_host_closed:
  assumes "th_inv h"
  shows "th_inv (close_host h) \<and> th_closed (close_host h) \<and> viewers (close_host h) = [] \<and> closing (close_host h) = [] \<and>
    th_session (close_host h) = th_session h \<and> (v \<in> set (viewers h) \<longrightarrow> shut (vchan (close_host h) v))"
proof -
  have "th_inv (close_host h)"
    using hosted.run_inv [of "th_close_lock h"] th_step_inv [OF assms, of TClose]
    by (simp add: close_host_def Let_def list_all_iff)
  then show ?thesis
    using assms by (auto simp: close_host_eq [OF assms] Let_def th_close_lock_def th_inv_def)
qed

text \<open>An open host is the registered one of its session.\<close>

definition reg_inv :: "term_hosts_reg \<Rightarrow> bool" where
  "reg_inv t = ((\<forall>n. connections t \<le> n \<longrightarrow> host_of t n = None) \<and>
     (\<forall>n h. host_of t n = Some h \<longrightarrow> th_inv h \<and> (\<not> th_closed h \<longrightarrow> registry t (th_session h) = Some n)) \<and>
     (\<forall>sid n. registry t sid = Some n \<longrightarrow> (\<exists>h. host_of t n = Some h \<and> th_session h = sid)))"

lemma reg_invD:
  assumes "reg_inv t"
  shows "connections t \<le> n \<Longrightarrow> host_of t n = None" and "host_of t n = Some h \<Longrightarrow> th_inv h"
    and "host_of t n = Some h \<Longrightarrow> registry t (th_session h) \<noteq> Some n \<Longrightarrow> th_closed h"
    and "registry t sid = Some n \<Longrightarrow> \<exists>h. host_of t n = Some h \<and> th_session h = sid"
  using assms unfolding reg_inv_def by blast+

lemma reg_inv_empty: "reg_inv \<lparr>registry = Map.empty, host_of = Map.empty, connections = 0\<rparr>"
  by (simp add: reg_inv_def)

lemma reg_invI:
  assumes "\<And>n. connections t \<le> n \<Longrightarrow> host_of t n = None" and "\<And>n h. host_of t n = Some h \<Longrightarrow> th_inv h"
    and "\<And>n h. host_of t n = Some h \<Longrightarrow> registry t (th_session h) \<noteq> Some n \<Longrightarrow> th_closed h"
    and "\<And>sid n. registry t sid = Some n \<Longrightarrow> \<exists>h. host_of t n = Some h \<and> th_session h = sid"
  shows "reg_inv t"
  using assms unfolding reg_inv_def by blast

lemma close_conn_inv:
  assumes a: "\<And>n. connections t \<le> n \<Longrightarrow> host_of t n = None" and b: "\<And>n h. host_of t n = Some h \<Longrightarrow> th_inv h"
    and c: "\<And>n h. host_of t n = Some h \<Longrightarrow> n \<noteq> m \<Longrightarrow> registry t (th_session h) \<noteq> Some n \<Longrightarrow> th_closed h"
    and d: "\<And>sid n. registry t sid = Some n \<Longrightarrow> \<exists>h. host_of t n = Some h \<and> th_session h = sid"
  shows "reg_inv (close_conn m t)"
proof (cases "host_of t m")
  case None
  then have "host_of (close_conn m t) = host_of t" "registry (close_conn m t) = registry t"
    "connections (close_conn m t) = connections t"
    by (auto simp: close_conn_def fun_eq_iff)
  then show ?thesis using a b c d None by (intro reg_invI) (auto, metis option.distinct(1))
next
  case (Some h)
  note ch = close_host_closed [OF b [OF Some]]
  have e: "host_of (close_conn m t) n = (if n = m then Some (close_host h) else host_of t n)"
    "registry (close_conn m t) = registry t" "connections (close_conn m t) = connections t" for n
    using Some by (simp_all add: close_conn_def)
  show ?thesis
  proof (rule reg_invI, unfold e)
    fix n assume "connections t \<le> n"
    then show "(if n = m then Some (close_host h) else host_of t n) = None" using a Some by auto
  next
    fix n g assume "(if n = m then Some (close_host h) else host_of t n) = Some g"
    then show "th_inv g" using b ch by (auto split: if_splits)
  next
    fix n g assume "(if n = m then Some (close_host h) else host_of t n) = Some g" "registry t (th_session g) \<noteq> Some n"
    then show "th_closed g" using c ch by (auto split: if_splits)
  next
    fix sid n assume "registry t sid = Some n"
    then show "\<exists>g. (if n = m then Some (close_host h) else host_of t n) = Some g \<and> th_session g = sid"
      using d [of sid n] Some ch by auto
  qed
qed

lemma hosts_add_inv:
  assumes i: "reg_inv t" and h: "th_inv h" "\<not> th_closed h"
  shows "reg_inv (snd (hosts_add h t))" and "registry (snd (hosts_add h t)) (th_session h) = Some (fst (hosts_add h t))"
    and "host_of (snd (hosts_add h t)) (fst (hosts_add h t)) = Some h"
proof -
  let ?n = "connections t"
  let ?t = "t\<lparr>registry := (registry t)(th_session h \<mapsto> ?n), host_of := (host_of t)(?n \<mapsto> h), connections := Suc ?n\<rparr>"
  have new: "host_of t ?n = None" using reg_invD(1) [OF i] by simp
  have old: "m \<noteq> ?n" if "registry t (th_session h) = Some m" for m
    using reg_invD(4) [OF i that] new by auto
  have n: "fst (hosts_add h t) = ?n" by (simp add: hosts_add_def Let_def)
  have t: "snd (hosts_add h t) = (case registry t (th_session h) of None \<Rightarrow> ?t | Some m \<Rightarrow> close_conn m ?t)"
    using old by (auto simp: hosts_add_def Let_def split: option.split)
  show "registry (snd (hosts_add h t)) (th_session h) = Some (fst (hosts_add h t))"
    "host_of (snd (hosts_add h t)) (fst (hosts_add h t)) = Some h"
    using old by (auto simp: n t close_conn_def split: option.split)
  have a: "host_of ?t k = None" if "connections ?t \<le> k" for k
    using that reg_invD(1) [OF i, of k] by simp
  have b: "th_inv g" if "host_of ?t k = Some g" for k g
    using that reg_invD(2) [OF i, of k g] h(1) by (auto split: if_splits)
  have c: "th_closed g" if "host_of ?t k = Some g" "registry t (th_session h) \<noteq> Some k" "registry ?t (th_session g) \<noteq> Some k" for k g
    using that reg_invD(3) [OF i, of k g] by (auto split: if_splits)
  have d: "\<exists>g. host_of ?t k = Some g \<and> th_session g = sid" if "registry ?t sid = Some k" for sid k
    using that reg_invD(4) [OF i, of sid k] new by (auto split: if_splits)
  show "reg_inv (snd (hosts_add h t))"
  proof (cases "registry t (th_session h)")
    case None
    have "reg_inv ?t" by (rule reg_invI [OF a b c d]) (simp_all add: None)
    then show ?thesis using None t by simp
  next
    case (Some m)
    have "reg_inv (close_conn m ?t)" by (rule close_conn_inv [OF a b c d]) (simp_all add: Some)
    then show ?thesis using Some t by simp
  qed
qed

lemma hosts_remove_inv:
  assumes i: "reg_inv t"
  shows "reg_inv (hosts_remove n t)"
proof (cases "host_of t n")
  case (Some h)
  note D = reg_invD [OF i]
  show ?thesis
  proof (cases "registry t (th_session h) = Some n")
    case True
    have "reg_inv (close_conn n (t\<lparr>registry := (registry t)(th_session h := None)\<rparr>))"
    proof (rule close_conn_inv)
      fix k g assume "host_of (t\<lparr>registry := (registry t)(th_session h := None)\<rparr>) k = Some g" "k \<noteq> n"
        "registry (t\<lparr>registry := (registry t)(th_session h := None)\<rparr>) (th_session g) \<noteq> Some k"
      then show "th_closed g" using D(3) [of k g] True by (auto split: if_splits)
    qed (use D in \<open>auto split: if_splits\<close>)
    then show ?thesis using Some True by (simp add: hosts_remove_def)
  next
    case False
    have "reg_inv (close_conn n t)" by (rule close_conn_inv) (use D in auto)
    then show ?thesis using Some False by (simp add: hosts_remove_def)
  qed
qed (simp add: hosts_remove_def assms)

text \<open>What happens to the registry: a wrapper registers or leaves, a session is killed, and the steps
  of the hosts themselves.\<close>

datatype reg_event = RAdd bytes bool int int | RRemove nat | RDrop bytes | RHost nat th_event

fun reg_step :: "term_hosts_reg \<Rightarrow> reg_event \<Rightarrow> term_hosts_reg" where
  "reg_step t (RAdd sid w x y) = snd (hosts_add (new_host sid w x y) t)"
| "reg_step t (RRemove n) = hosts_remove n t"
| "reg_step t (RDrop sid) = drop_host sid t"
| "reg_step t (RHost n e) = (case host_of t n of None \<Rightarrow> t | Some h \<Rightarrow> t\<lparr>host_of := (host_of t)(n \<mapsto> th_step h e)\<rparr>)"

lemma new_host_fields [simp]: "th_session (new_host sid w x y) = sid" "\<not> th_closed (new_host sid w x y)"
  "th_write (new_host sid w x y) = w" "viewers (new_host sid w x y) = []" "to_wrapper (new_host sid w x y) = []"
  by (simp_all add: new_host_def split: prod.split)

lemma th_step_session: "th_session (th_step h e) = th_session h \<and> (th_closed h \<longrightarrow> th_closed (th_step h e))"
  by (cases e) (auto simp: th_attach_def th_detach_def th_close_chan_def th_broadcast_copy_def th_broadcast_send_def
      th_close_lock_def th_close_next_def th_sendInput_def th_resize_def Let_def split: option.split list.split)

interpretation hub: machine reg_step "\<lambda>_. True" reg_inv
proof
  fix t e
  assume i: "reg_inv t"
  show "reg_inv (reg_step t e)"
  proof (cases e)
    case (RAdd sid w x y)
    then show ?thesis using hosts_add_inv(1) [OF i th_inv_new, of sid w x y] by simp
  next
    case (RHost n ev)
    show ?thesis
    proof (cases "host_of t n")
      case (Some h)
      note D = reg_invD [OF i]
      have v: "th_inv (th_step h ev)" using D(2) Some by (simp add: th_step_inv)
      have c: "th_closed (th_step h ev)" if "registry t (th_session h) \<noteq> Some n"
        using D(3) [OF Some that] th_step_session [of h ev] by blast
      have "reg_inv (t\<lparr>host_of := (host_of t)(n \<mapsto> th_step h ev)\<rparr>)"
      proof (rule reg_invI)
        fix sid k assume "registry (t\<lparr>host_of := (host_of t)(n \<mapsto> th_step h ev)\<rparr>) sid = Some k"
        then show "\<exists>g. host_of (t\<lparr>host_of := (host_of t)(n \<mapsto> th_step h ev)\<rparr>) k = Some g \<and> th_session g = sid"
          using D(4) [of sid k] Some th_step_session [of h ev] by auto
      qed (use D(1-3) v c Some th_step_session [of h ev] in \<open>auto split: if_splits\<close>)
      then show ?thesis using Some RHost by simp
    qed (use i RHost in simp)
  qed (use i in \<open>auto simp: hosts_remove_inv drop_host_def split: option.split\<close>)
qed

lemma th_send_keeps:
  "viewers (th_broadcast_send h) = viewers h \<and> (shut (vchan h u) \<longrightarrow> shut (vchan (th_broadcast_send h) u))"
  by (auto simp: th_broadcast_send_def offer_def split: option.split list.split)

lemma sends_frame:
  "viewers (run th_step h (replicate n TSend)) = viewers h \<and>
   (shut (vchan h u) \<longrightarrow> shut (vchan (run th_step h (replicate n TSend)) u))"
proof (induction n arbitrary: h)
  case (Suc n)
  then show ?case using th_send_keeps [of h u] by simp
qed simp

lemma close_host_keeps_shut: "th_inv h \<Longrightarrow> shut (vchan h u) \<Longrightarrow> shut (vchan (close_host h) u)"
  by (simp add: close_host_eq Let_def th_close_lock_def)

section \<open>Properties\<close>

text \<open>Channels of a hosted terminal are closed once. Whatever a wrapper and the browsers watching
  it do, and however the phases of broadcasts and closes interleave, no channel is closed twice, an
  attached browser's channel is open, and a closed host has no browsers; and if nobody leaves while
  a broadcast is between copying its list and its last send, nothing panics at all.\<close>

theorem host_channels_safe:
  "let h = run th_step (new_host sid w x y) es in
     CloseOfClosed \<notin> set (th_panics h) \<and> list_all (\<lambda>v. \<not> shut (vchan h v)) (viewers h) \<and>
     (th_closed h \<longrightarrow> viewers h = []) \<and> (orderly (new_host sid w x y) es \<longrightarrow> th_panics h = [])"
proof -
  have "th_inv (run th_step (new_host sid w x y) es)"
    by (rule hosted.run_inv [OF th_inv_new]) (simp add: list_all_iff)
  moreover have "th_calm (new_host sid w x y)"
    using th_inv_new by (simp add: th_calm_def) (simp add: new_host_def split: prod.split)
  ultimately show ?thesis using orderly_calm [of "new_host sid w x y" es]
    by (simp add: Let_def th_inv_def th_calm_def list_all_iff)
qed

theorem host_channels_safe_witness:
  "th_panics (run th_step (new_host ''s'' True 80 24) [TAttach, TBytes ''x'', TSend, TSend, TDetach 0, TClose]) = []"
proof -
  have "orderly (new_host ''s'' True 80 24) [TAttach, TBytes ''x'', TSend, TSend, TDetach 0, TClose]"
    by (simp add: new_host_def termSize_def th_attach_def th_control_def th_broadcast_copy_def th_broadcast_send_def
        offer_def leaves_def th_detach_def th_close_chan_def close_chan_def Let_def)
  then show ?thesis
    using host_channels_safe [of "''s''" True 80 24 "[TAttach, TBytes ''x'', TSend, TSend, TDetach 0, TClose]"]
    by (simp add: Let_def)
qed

text \<open>A browser that leaves in the middle of a broadcast takes the terminal down for everyone.
  From any state of a host with no broadcast under way: if a viewer detaches after the wrapper's
  bytes were taken up and before they are sent, the send on its closed channel panics the handler,
  and the deferred removal closes every other viewer's channel too.\<close>

theorem leaving_viewer_panics_host:
  assumes "th_inv h" and "sending h = None" and "v \<in> set (viewers h)"
  shows "let g = run th_step h (TBytes d # TDetach v # replicate (length (viewers h)) TSend) in
    SendOnClosed \<in> set (th_panics g) \<and> list_all (\<lambda>u. shut (vchan (close_host g) u)) (viewers h)"
proof -
  let ?c = "th_broadcast_copy d h"
  let ?d = "th_detach v ?c"
  let ?g = "run th_step ?d (replicate (length (viewers h)) TSend)"
  have c: "?c = h\<lparr>sending := Some (d, viewers h)\<rparr>" using assms(2) by (simp add: th_broadcast_copy_def)
  have i: "th_inv ?c" using th_step_inv [OF assms(1), of "TBytes d"] by simp
  have v: "shut (vchan ?d v)" "sending ?d = Some (d, viewers h)"
    using detach_shuts [OF i, of v] assms(3) c by auto
  have p: "SendOnClosed \<in> set (th_panics ?g)" using sends_until_closed [OF v(2) assms(3) v(1)] .
  have "\<not> shut (vchan ?c v)" using i assms(3) c by (auto simp: th_inv_def)
  then have r: "viewers ?d = remove1 v (viewers h)"
    using assms(3) c th_close_chan_open [of "?c\<lparr>viewers := remove1 v (viewers ?c)\<rparr>" v] by (simp add: th_detach_def)
  have gi: "th_inv ?g"
    by (rule hosted.run_inv [OF th_detach_inv [OF i]]) (simp add: list_all_iff)
  have "shut (vchan (close_host ?g) u)" if "u \<in> set (viewers h)" for u
  proof (cases "u = v")
    case True
    then show ?thesis using sends_frame [of ?d "length (viewers h)" v] v(1) close_host_keeps_shut [OF gi] by simp
  next
    case False
    then have "u \<in> set (viewers ?g)" using sends_frame [of ?d "length (viewers h)" u] r that by simp
    then show ?thesis using close_host_closed [OF gi] by simp
  qed
  then show ?thesis using p by (simp add: Let_def list_all_iff)
qed

theorem leaving_viewer_panics_host_witness:
  "let g = run th_step (run th_step (new_host ''s'' True 80 24) [TAttach, TAttach]) [TBytes ''x'', TDetach 0, TSend, TSend] in
    SendOnClosed \<in> set (th_panics g) \<and> shut (vchan (close_host g) 1)"
proof -
  let ?h = "run th_step (new_host ''s'' True 80 24) [TAttach, TAttach]"
  have i: "th_inv ?h" by (rule hosted.run_inv [OF th_inv_new]) simp
  have v: "sending ?h = None" "viewers ?h = [0, 1]"
    by (simp_all add: new_host_def termSize_def th_attach_def th_control_def Let_def)
  then have "0 \<in> set (viewers ?h)" by simp
  from leaving_viewer_panics_host [OF i v(1) this, of "''x''"] show ?thesis
    by (simp only: v(2)) (simp add: Let_def numeral_2_eq_2)
qed



text \<open>A guest of a session can replace its terminal. Whoever may merely see a live remote session,
  with a user key and without the right to manage it, can offer a terminal for it: the offer is
  taken, the terminal the owner's wrapper hosted is closed for everyone watching, and from then on
  the session's terminal is the guest's.\<close>

theorem guest_replaces_terminal:
  assumes "liveRecord cfg w i s = (Some r, s1)" and "rID r = i" and "rRemote r" and "rStatus r \<noteq> StatusEnded"
    and "\<not> fst (was_killed (time w) (rRoomID r) (killed s1))"
    and "c_machine c" and "canSee c (ACL (acls s1) i)" and "\<not> canManage c (ACL (acls s1) i)"
    and "reg_inv t" and "hosts_get i t = Some (m, h)" and "v \<in> set (viewers h)"
  shows "\<exists>n s2 t2 h2. handleTerminalHost cfg w c i (Some (cols, rows, wr)) (s, t) = (OfferTaken n, s2, t2) \<and>
    hosts_get i t2 = Some (n, new_host i wr cols rows) \<and> n \<noteq> m \<and>
    host_of t2 m = Some h2 \<and> th_closed h2 \<and> shut (vchan h2 v)"
proof -
  obtain d k where k: "was_killed (time w) (rRoomID r) (killed s1) = (d, k)" "\<not> d" using assms(5) by (cases "was_killed (time w) (rRoomID r) (killed s1)") auto
  let ?g = "new_host i wr cols rows"
  have m: "registry t i = Some m" "host_of t m = Some h"
    using assms(10) by (auto simp: hosts_get_def split: option.splits)
  obtain n t2 where a: "hosts_add ?g t = (n, t2)" by fastforce
  have n: "n = connections t" "m \<noteq> n" using a reg_invD(1) [OF assms(9), of m] m(2) by (auto simp: hosts_add_def Let_def)
  then have t2: "t2 = close_conn m (t\<lparr>registry := (registry t)(i \<mapsto> n), host_of := (host_of t)(n \<mapsto> ?g), connections := Suc n\<rparr>)"
    using a m(1) by (simp add: hosts_add_def Let_def)
  have "handleTerminalHost cfg w c i (Some (cols, rows, wr)) (s, t) = (OfferTaken n, s1\<lparr>killed := k\<rparr>, t2)"
    using assms k a by (simp add: handleTerminalHost_def)
  moreover have "hosts_get i t2 = Some (n, ?g)" "host_of t2 m = Some (close_host h)"
    using n(2) m(2) by (simp_all add: t2 hosts_get_def close_conn_def)
  ultimately show ?thesis
    using close_host_closed [OF reg_invD(2) [OF assms(9) m(2)], of v] assms(11) n(2) by blast
qed

theorem guest_replaces_terminal_witness:
  "\<exists>n s2 t2. handleTerminalHost sample_cfg (at_time 5) (as_user ''bob'') ''covibe-1'' (Some (80, 24, True))
      (sample_server, run reg_step \<lparr>registry = Map.empty, host_of = Map.empty, connections = 0\<rparr>
        [RAdd ''covibe-1'' True 80 24, RHost 0 TAttach]) = (OfferTaken n, s2, t2) \<and>
    hosts_get ''covibe-1'' t2 = Some (n, new_host ''covibe-1'' True 80 24)"
proof -
  let ?t = "run reg_step \<lparr>registry = Map.empty, host_of = Map.empty, connections = 0\<rparr> [RAdd ''covibe-1'' True 80 24, RHost 0 TAttach]"
  obtain s1 where l: "liveRecord sample_cfg (at_time 5) ''covibe-1'' sample_server = (Some (sample_rec\<lparr>rUpdatedAt := 5\<rparr>), s1)"
    by (simp add: liveRecord_def Live_eq listing_def lives_def Alive_def RemoteTTL_def seconds_def)
  have "acls s1 = sample_acls" "killed s1 = (\<lambda>_. None)"
    using liveRecord_Some(5) [OF sample_inv l] by (metis sample_files(2,3) server.ext_inject server.surjective server.update_convs(1))+
  have i: "reg_inv ?t" by (rule hub.run_inv [OF reg_inv_empty]) simp
  have g: "hosts_get ''covibe-1'' ?t = Some (0, th_step (new_host ''covibe-1'' True 80 24) TAttach)"
    by (simp add: hosts_add_def hosts_get_def Let_def)
  show ?thesis
    using guest_replaces_terminal [OF l, of "as_user ''bob''" ?t 0 _ 0 80 24 True] i g \<open>acls s1 = _\<close> \<open>killed s1 = _\<close>
    by (auto simp: as_user_def nobody_def canSee_def canManage_def Allows_def was_killed_def th_attach_def Let_def
        new_host_def termSize_def th_control_def)
qed

end
