(* ===== verification/P2P.thy ===== *)
theory P2P
  imports Session
begin

text \<open>
  The peer-to-peer terminal (\<open>session/p2pterm.go\<close>): one source feeding any number of local
  connections through a fan-out. Every step of one of the server's goroutines is an event; a peer's
  frames are applied to the shared source by the loop of \<open>Frames\<close>. On the wire a live piece and a
  repaint are both binary frames (\<open>Termwire\<close>); they are told apart here by where they come from.
\<close>

section \<open>The server\<close>

datatype peer_out = PHello int int bool | PLive bytes | PRepaint bytes | PExit

record peer =
  p_sub :: nat
  p_write :: bool
  p_wire :: "peer_out list"
  p_open :: bool

record 's term_server =
  ts_src :: 's
  ts_fan :: fanout
  ts_started :: bool
  ts_pump :: bool             \<comment> \<open>the goroutine that broadcasts the source runs\<close>
  ts_done :: bool
  ts_peers :: "peer list"

definition newTermServer :: "'s \<Rightarrow> 's term_server" where
  "newTermServer s = \<lparr>ts_src = s, ts_fan = newFanout, ts_started = False, ts_pump = False, ts_done = False, ts_peers = []\<rparr>"

definition set_peer :: "nat \<Rightarrow> peer \<Rightarrow> 's term_server \<Rightarrow> 's term_server" where
  "set_peer i p t = t\<lparr>ts_peers := (ts_peers t)[i := p]\<rparr>"

definition wire :: "peer_out list \<Rightarrow> peer \<Rightarrow> peer" where
  "wire os p = p\<lparr>p_wire := p_wire p @ os\<rparr>"

definition serve_peer :: "int \<Rightarrow> int \<Rightarrow> bool \<Rightarrow> 's term_server \<Rightarrow> 's term_server" where
  "serve_peer cols rows wr t = (case clampTermSize cols rows of (c, r) \<Rightarrow> (case fan_subscribe (ts_fan t) of
     (ch, f) \<Rightarrow> t\<lparr>ts_fan := f, ts_peers := ts_peers t @ [\<lparr>p_sub = ch, p_write = wr, p_wire = [PHello c r wr], p_open = True\<rparr>]\<rparr>))"

text \<open>A peer's end: the goroutines finish, the connection is closed, the subscription given up.\<close>

definition drop_peer :: "nat \<Rightarrow> peer \<Rightarrow> 's term_server \<Rightarrow> 's term_server" where
  "drop_peer i p t = set_peer i (p\<lparr>p_open := False\<rparr>) (t\<lparr>ts_fan := fan_unsubscribe (p_sub p) (ts_fan t)\<rparr>)"

definition send_live :: "nat \<Rightarrow> peer \<Rightarrow> 's term_server \<Rightarrow> 's term_server" where
  "send_live i p t = (case buf (chans (ts_fan t) (p_sub p)) of
     [] \<Rightarrow> t
   | b # _ \<Rightarrow> set_peer i (wire [PLive b] p) (t\<lparr>ts_fan := fan_step (ts_fan t) (FReceive (p_sub p))\<rparr>))"

definition peer_frame :: "('s \<Rightarrow> bytes) \<Rightarrow> (bytes \<Rightarrow> 's \<Rightarrow> 's) \<Rightarrow> (int \<Rightarrow> int \<Rightarrow> 's \<Rightarrow> 's) \<Rightarrow> nat \<Rightarrow> peer
    \<Rightarrow> term_frame \<Rightarrow> 's term_server \<Rightarrow> 's term_server" where
  "peer_frame snap send resize i p f t = (case apply_frame snap send resize (p_write p) (ts_src t, []) f of
     (s, replies) \<Rightarrow> set_peer i (wire (map PRepaint replies) p) (t\<lparr>ts_src := s\<rparr>))"

text \<open>The events: \<open>start\<close> (with whether the source could be started), \<open>stop\<close>, which stops the source, a piece or the end of the
  source's output, a connection with the size the pty has then, and for a connected peer one step of
  its writer, the exit its writer reports, one frame it sent, the end of its reads, a failed write.\<close>

datatype ts_event =
  TsStart bool | TsStop | TsOut bytes | TsEnded | TsAccept int int bool
| TsSend nat | TsExit nat | TsFrame nat term_frame | TsEOF nat | TsWriteFailed nat

definition open_peer :: "'s term_server \<Rightarrow> nat \<Rightarrow> peer option" where
  "open_peer t i = (if i < length (ts_peers t) \<and> p_open (ts_peers t ! i) then Some (ts_peers t ! i) else None)"

definition with_peer :: "nat \<Rightarrow> (peer \<Rightarrow> 's term_server \<Rightarrow> 's term_server) \<Rightarrow> 's term_server \<Rightarrow> 's term_server" where
  "with_peer i g t = (case open_peer t i of None \<Rightarrow> t | Some p \<Rightarrow> g p t)"

fun ts_step :: "('s \<Rightarrow> bytes) \<Rightarrow> (bytes \<Rightarrow> 's \<Rightarrow> 's) \<Rightarrow> (int \<Rightarrow> int \<Rightarrow> 's \<Rightarrow> 's) \<Rightarrow> 's term_server \<Rightarrow> ts_event \<Rightarrow> 's term_server" where
  "ts_step snap send resize t (TsStart ok) = (if ts_started t \<or> \<not> ok then t else t\<lparr>ts_started := True, ts_pump := True\<rparr>)"
| "ts_step snap send resize t TsStop = t\<lparr>ts_started := False\<rparr>"
| "ts_step snap send resize t (TsOut b) = (if ts_pump t then t\<lparr>ts_fan := fan_Write b (ts_fan t)\<rparr> else t)"
| "ts_step snap send resize t TsEnded = (if ts_pump t then t\<lparr>ts_pump := False, ts_done := True\<rparr> else t)"
| "ts_step snap send resize t (TsAccept cols rows wr) = serve_peer cols rows wr t"
| "ts_step snap send resize t (TsSend i) = with_peer i (send_live i) t"
| "ts_step snap send resize t (TsExit i) = (if ts_done t then with_peer i (\<lambda>p. drop_peer i (wire [PExit] p)) t else t)"
| "ts_step snap send resize t (TsFrame i f) = with_peer i (\<lambda>p. peer_frame snap send resize i p f) t"
| "ts_step snap send resize t (TsEOF i) = with_peer i (\<lambda>p. if p_write p then drop_peer i p else (\<lambda>t. t)) t"
| "ts_step snap send resize t (TsWriteFailed i) = with_peer i (drop_peer i) t"

section \<open>What is typed\<close>

text \<open>The input of the frames that count: those of open peers that may type.\<close>

fun heeded :: "('s \<Rightarrow> bytes) \<Rightarrow> (bytes \<Rightarrow> 's \<Rightarrow> 's) \<Rightarrow> (int \<Rightarrow> int \<Rightarrow> 's \<Rightarrow> 's) \<Rightarrow> 's term_server \<Rightarrow> ts_event list \<Rightarrow> bytes list" where
  "heeded snap send resize t [] = []"
| "heeded snap send resize t (e # es) = (case e of
     TsFrame i f \<Rightarrow> (case open_peer t i of None \<Rightarrow> [] | Some p \<Rightarrow> if p_write p then frame_input f else [])
   | _ \<Rightarrow> []) @ heeded snap send resize (ts_step snap send resize t e) es"

lemma set_peer_src [simp]: "ts_src (set_peer i p t) = ts_src t" "ts_fan (set_peer i p t) = ts_fan t"
  "ts_done (set_peer i p t) = ts_done t"
  by (simp_all add: set_peer_def)

lemma other_steps_src:
  "(\<And>i f. e \<noteq> TsFrame i f) \<Longrightarrow> ts_src (ts_step snap send resize t e) = ts_src t"
  by (cases e) (auto simp: with_peer_def drop_peer_def send_live_def serve_peer_def split: option.split list.split prod.split)

context term_source
begin

lemma server_step_typed:
  assumes "ok (ts_src t)"
  shows "ok (ts_src (ts_step snap send resize t e)) \<and>
    typed (ts_src (ts_step snap send resize t e)) = typed (ts_src t) @ concat (filter fits (heeded snap send resize t [e]))"
proof (cases e)
  case (TsFrame i f)
  show ?thesis
  proof (cases "open_peer t i")
    case (Some p)
    then show ?thesis
      using frame_typed [of "(ts_src t, [])" "p_write p" f] assms TsFrame
      by (simp add: with_peer_def peer_frame_def case_prod_unfold)
  qed (use assms TsFrame in \<open>simp add: with_peer_def\<close>)
qed (use assms other_steps_src [of e snap send resize t] in simp_all)

lemma server_typed:
  "ok (ts_src t) \<Longrightarrow> typed (ts_src (run (ts_step snap send resize) t es)) =
     typed (ts_src t) @ concat (filter fits (heeded snap send resize t es))"
proof (induction es arbitrary: t)
  case (Cons e es)
  then show ?case using server_step_typed [OF Cons.prems, of e] by simp
qed simp

end

text \<open>So a server on a source that keeps the contract is a machine that keeps its source in order.\<close>

sublocale term_source \<subseteq> served: machine "ts_step snap send resize" "\<lambda>_. True" "\<lambda>t. ok (ts_src t)"
  by unfold_locales (use server_step_typed in blast)

section \<open>What a peer sees\<close>

definition live_pieces :: "peer_out list \<Rightarrow> bytes list" where
  "live_pieces os = concat (map (\<lambda>x. case x of PLive b \<Rightarrow> [b] | _ \<Rightarrow> []) os)"

definition peer_ok :: "fanout \<Rightarrow> peer \<Rightarrow> bool" where
  "peer_ok f p = (p_sub p < made f \<and> (p_open p \<longrightarrow> p_sub p \<in> set (subs f)) \<and>
     live_pieces (p_wire p) = got (chans f (p_sub p)) \<and>
     (\<exists>c r os. p_wire p = PHello c r (p_write p) # os \<and> pane_size (c, r) \<and> PExit \<notin> set (butlast os) \<and>
        (p_open p \<longrightarrow> PExit \<notin> set os)))"

definition ts_inv :: "'s term_server \<Rightarrow> bool" where
  "ts_inv t = (fan_inv (ts_fan t) \<and> distinct (map p_sub (ts_peers t)) \<and> list_all (peer_ok (ts_fan t)) (ts_peers t))"

lemma live_pieces_append [simp]: "live_pieces (os @ os') = live_pieces os @ live_pieces os'"
  by (simp add: live_pieces_def)

lemma live_pieces_simps [simp]: "live_pieces [PLive b] = [b]" "live_pieces (map PRepaint bs) = []" "live_pieces [PExit] = []"
  "live_pieces [PHello c r w] = []" "live_pieces [] = []"
  by (simp_all add: live_pieces_def comp_def)

text \<open>A peer only depends on its own channel and on being subscribed.\<close>

lemma peer_ok_cong:
  "peer_ok f p \<Longrightarrow> made f \<le> made g \<Longrightarrow> (p_sub p \<in> set (subs f) \<longrightarrow> p_sub p \<in> set (subs g)) \<Longrightarrow>
   got (chans g (p_sub p)) = got (chans f (p_sub p)) \<Longrightarrow> peer_ok g p"
  by (auto simp: peer_ok_def)

lemma ts_inv_peer:
  assumes "ts_inv t" and "open_peer t i = Some p"
  shows "i < length (ts_peers t)" "ts_peers t ! i = p" "p_open p" "peer_ok (ts_fan t) p"
  using assms by (auto simp: open_peer_def ts_inv_def list_all_length split: if_splits)

text \<open>Replacing one peer, with a change of the fan-out that the other peers do not notice.\<close>

lemma ts_inv_replace:
  assumes t: "ts_inv t" and p: "open_peer t i = Some p" and f: "fan_inv f" "made f = made (ts_fan t)"
    and others: "\<And>v. v \<noteq> p_sub p \<Longrightarrow> v \<in> set (subs f) \<longleftrightarrow> v \<in> set (subs (ts_fan t))"
      "\<And>v. v \<noteq> p_sub p \<Longrightarrow> chans f v = chans (ts_fan t) v"
    and q: "peer_ok f q" "p_sub q = p_sub p"
  shows "ts_inv (set_peer i q (t\<lparr>ts_fan := f\<rparr>))"
proof -
  note i = ts_inv_peer [OF t p]
  have d: "distinct (map p_sub (ts_peers t))" using t by (simp add: ts_inv_def)
  have "map p_sub ((ts_peers t)[i := q]) = map p_sub (ts_peers t)"
    using i(1,2) q(2) by (simp add: map_update list_update_same_conv)
  moreover have "peer_ok f ((ts_peers t)[i := q] ! j)" if "j < length (ts_peers t)" for j
  proof (cases "j = i")
    case False
    have "p_sub (ts_peers t ! j) \<noteq> p_sub p"
      using d i(1,2) that False nth_eq_iff_index_eq [OF d, of j i] by auto
    moreover have "peer_ok (ts_fan t) (ts_peers t ! j)" using t that by (simp add: ts_inv_def list_all_length)
    ultimately have "peer_ok f (ts_peers t ! j)"
      using others [of "p_sub (ts_peers t ! j)"] f(2) by - (rule peer_ok_cong [of "ts_fan t"], simp_all)
    then show ?thesis using False by simp
  qed (use q(1) i(1) in simp)
  ultimately show ?thesis using f(1) d by (simp add: ts_inv_def set_peer_def list_all_length)
qed

lemma drop_peer_inv:
  assumes t: "ts_inv t" and p: "open_peer t i = Some p" and os: "os = [] \<or> os = [PExit]"
  shows "ts_inv (drop_peer i (wire os p) t)"
proof -
  note i = ts_inv_peer [OF t p]
  have fi: "fan_inv (ts_fan t)" using t by (simp add: ts_inv_def)
  have s: "p_sub p \<in> set (subs (ts_fan t))" using i(3,4) by (simp add: peer_ok_def)
  then have "\<not> shut (chans (ts_fan t) (p_sub p))" using fi unfolding fan_inv_def by blast
  then have u: "fan_unsubscribe (p_sub p) (ts_fan t) = (ts_fan t)\<lparr>subs := remove1 (p_sub p) (subs (ts_fan t)),
      chans := (chans (ts_fan t))(p_sub p := chans (ts_fan t) (p_sub p)\<lparr>shut := True\<rparr>)\<rparr>"
    using s by (simp add: fan_unsubscribe_def close_chan_def)
  have "fan_inv (fan_unsubscribe (p_sub p) (ts_fan t))" using fan_step_inv [OF fi, of "FUnsubscribe (p_sub p)"] by simp
  moreover have "peer_ok (fan_unsubscribe (p_sub p) (ts_fan t)) (wire os p\<lparr>p_open := False\<rparr>)"
    using i(3,4) os u unfolding peer_ok_def wire_def by (auto simp: butlast_append)
  moreover have "distinct (subs (ts_fan t))" using fi by (simp add: fan_inv_def)
  ultimately have "ts_inv (set_peer i (wire os p\<lparr>p_open := False\<rparr>) (t\<lparr>ts_fan := fan_unsubscribe (p_sub p) (ts_fan t)\<rparr>))"
    using u by (intro ts_inv_replace [OF t p]) (auto simp: wire_def)
  then show ?thesis by (simp add: drop_peer_def wire_def)
qed

lemma ts_inv_fields [simp]: "ts_inv (t\<lparr>ts_src := s\<rparr>) = ts_inv t" "ts_inv (t\<lparr>ts_done := b\<rparr>) = ts_inv t"
  "ts_inv (t\<lparr>ts_started := b\<rparr>) = ts_inv t" "ts_inv (t\<lparr>ts_pump := b\<rparr>) = ts_inv t"
  by (simp_all add: ts_inv_def)

lemma ts_step_inv:
  assumes t: "ts_inv t"
  shows "ts_inv (ts_step snap send resize t e)"
proof -
  have fi: "fan_inv (ts_fan t)" using t by (simp add: ts_inv_def)
  show ?thesis
  proof (cases e)
    case (TsOut b)
    have g: "got (chans (fan_Write b (ts_fan t)) v) = got (chans (ts_fan t) v)" for v
      using fan_Write_open [OF fi, of b] by (simp add: put_def)
    have "fan_inv (fan_Write b (ts_fan t))" using fan_step_inv [OF fi, of "FWrite b"] by simp
    moreover have "peer_ok (fan_Write b (ts_fan t)) p" if "peer_ok (ts_fan t) p" for p
      using g fan_Write_open [OF fi, of b] by (intro peer_ok_cong [OF that]) simp_all
    ultimately show ?thesis using t TsOut by (auto simp: ts_inv_def list_all_iff)
  next
    case (TsAccept x y wr)
    obtain c r where z: "clampTermSize x y = (c, r)" by fastforce
    then have ps: "pane_size (c, r)" using sizes_ok(2) [of x y] by simp
    let ?f = "snd (fan_subscribe (ts_fan t))" and ?n = "made (ts_fan t)"
    have fresh: "p_sub p < ?n" if "p \<in> set (ts_peers t)" for p
      using t that by (auto simp: ts_inv_def list_all_iff peer_ok_def)
    have "fan_inv ?f" using fan_step_inv [OF fi, of FSubscribe] by simp
    moreover have "peer_ok ?f p" if "p \<in> set (ts_peers t)" for p
      using t that fresh [OF that] by - (rule peer_ok_cong [of "ts_fan t"], auto simp: ts_inv_def list_all_iff fan_subscribe_def)
    moreover have "peer_ok ?f \<lparr>p_sub = ?n, p_write = wr, p_wire = [PHello c r wr], p_open = True\<rparr>"
      using ps by (simp add: peer_ok_def fan_subscribe_def make_chan_def)
    moreover have "?n \<notin> p_sub ` set (ts_peers t)" using fresh by fastforce
    moreover have "distinct (map p_sub (ts_peers t))" using t by (simp add: ts_inv_def)
    ultimately show ?thesis
      using TsAccept z by (simp add: serve_peer_def fan_subscribe_def ts_inv_def list_all_iff)
  next
    case (TsSend i)
    show ?thesis
    proof (cases "open_peer t i")
      case (Some p)
      show ?thesis
      proof (cases "buf (chans (ts_fan t) (p_sub p))")
        case (Cons b bs)
        let ?f = "fan_step (ts_fan t) (FReceive (p_sub p))"
        have "fan_inv ?f" by (rule fan_step_inv [OF fi])
        moreover have "peer_ok ?f (wire [PLive b] p)"
          using ts_inv_peer [OF t Some] Cons unfolding peer_ok_def wire_def
          by (auto simp: receive_def butlast_append)
        ultimately have "ts_inv (set_peer i (wire [PLive b] p) (t\<lparr>ts_fan := ?f\<rparr>))"
          by (intro ts_inv_replace [OF t Some]) (auto simp: wire_def)
        then show ?thesis using TsSend Some Cons by (simp add: with_peer_def send_live_def)
      qed (use t TsSend Some in \<open>simp add: with_peer_def send_live_def\<close>)
    qed (use t TsSend in \<open>simp add: with_peer_def\<close>)
  next
    case (TsFrame i f)
    show ?thesis
    proof (cases "open_peer t i")
      case (Some p)
      obtain s rs where a: "apply_frame snap send resize (p_write p) (ts_src t, []) f = (s, rs)" by fastforce
      have "peer_ok (ts_fan t) (wire (map PRepaint rs) p)"
        using ts_inv_peer [OF t Some] unfolding peer_ok_def wire_def
        by (auto simp: butlast_append map_butlast [symmetric])
      then have "ts_inv (set_peer i (wire (map PRepaint rs) p) ((t\<lparr>ts_src := s\<rparr>)\<lparr>ts_fan := ts_fan t\<rparr>))"
        using t fi Some by (intro ts_inv_replace [where p = p]) (simp_all add: wire_def open_peer_def split: if_splits)
      then show ?thesis using TsFrame Some a by (simp add: with_peer_def peer_frame_def)
    qed (use t TsFrame in \<open>simp add: with_peer_def\<close>)
  next
    case (TsExit i)
    then show ?thesis using t drop_peer_inv [OF t, of i _ "[PExit]"] by (auto simp: with_peer_def split: option.split)
  next
    case (TsEOF i)
    then show ?thesis using t drop_peer_inv [OF t, of i _ "[]"] by (auto simp: with_peer_def wire_def split: option.split)
  next
    case (TsWriteFailed i)
    then show ?thesis using t drop_peer_inv [OF t, of i _ "[]"] by (auto simp: with_peer_def wire_def split: option.split)
  qed (use t in simp_all)
qed

interpretation peers: machine "ts_step snap send resize" "\<lambda>_. True" ts_inv
  by unfold_locales (rule ts_step_inv)

text \<open>The fan-out of the server is one run of the fan-out, fed with what the pump broadcast.\<close>

definition produced :: "ts_event list \<Rightarrow> bytes list" where
  "produced es = concat (map (\<lambda>e. case e of TsOut b \<Rightarrow> [b] | _ \<Rightarrow> []) es)"

definition fan_written :: "fan_event list \<Rightarrow> bytes list" where
  "fan_written es = concat (map (\<lambda>e. case e of FWrite b \<Rightarrow> [b] | _ \<Rightarrow> []) es)"

lemma fan_written_simps [simp]: "fan_written [] = []" "fan_written (FWrite b # es) = b # fan_written es"
  "fan_written (FSubscribe # es) = fan_written es" "fan_written (FUnsubscribe v # es) = fan_written es"
  "fan_written (FReceive v # es) = fan_written es"
  by (simp_all add: fan_written_def)

lemma heard_written: "subseq (heard v f es) (fan_written es)"
proof (induction es arbitrary: f)
  case (Cons e es)
  then show ?case by (cases e) (auto intro: subseq_Cons' simp: Let_def)
qed simp

lemma fan_written_append [simp]: "fan_written (es @ fs) = fan_written es @ fan_written fs"
  by (simp add: fan_written_def)

lemma ts_step_fan:
  "\<exists>fes. ts_fan (ts_step snap send resize t e) = run fan_step (ts_fan t) fes \<and> subseq (fan_written fes) (produced [e])"
  (is "\<exists>fes. ?P fes")
proof -
  have one: "\<exists>fes. ?P fes" if "ts_fan (ts_step snap send resize t e) = fan_step (ts_fan t) x" "fan_written [x] = []" for x
    using that by (intro exI [of _ "[x]"]) simp
  have none: "\<exists>fes. ?P fes" if "ts_fan (ts_step snap send resize t e) = ts_fan t"
    using that by (intro exI [of _ "[]"]) simp
  show ?thesis
  proof (cases e)
    case (TsOut b)
    then show ?thesis
      using none by (cases "ts_pump t") (auto simp: produced_def intro: exI [of _ "[FWrite b]"])
  next
    case (TsAccept x y wr)
    then show ?thesis using one [of FSubscribe] by (simp add: serve_peer_def fan_subscribe_def case_prod_unfold)
  next
    case (TsSend i)
    then show ?thesis
      using none one [of "FReceive (p_sub (the (open_peer t i)))"]
      by (auto simp: with_peer_def send_live_def split: option.splits list.splits)
  next
    case (TsFrame i f)
    then show ?thesis using none by (simp add: with_peer_def peer_frame_def split: option.split prod.split)
  next
    case (TsExit i)
    then show ?thesis
      using none one [of "FUnsubscribe (p_sub (the (open_peer t i)))"]
      by (auto simp: with_peer_def drop_peer_def wire_def split: option.splits)
  next
    case (TsEOF i)
    then show ?thesis
      using none one [of "FUnsubscribe (p_sub (the (open_peer t i)))"]
      by (auto simp: with_peer_def drop_peer_def split: option.splits)
  next
    case (TsWriteFailed i)
    then show ?thesis
      using none one [of "FUnsubscribe (p_sub (the (open_peer t i)))"]
      by (auto simp: with_peer_def drop_peer_def split: option.splits)
  qed (use none in simp_all)
qed

lemma ts_run_fan:
  "\<exists>fes. ts_fan (run (ts_step snap send resize) t es) = run fan_step (ts_fan t) fes \<and> subseq (fan_written fes) (produced es)"
proof (induction es arbitrary: t)
  case Nil
  then show ?case by (auto intro: exI [of _ "[]"])
next
  case (Cons e es)
  obtain fes where f: "ts_fan (ts_step snap send resize t e) = run fan_step (ts_fan t) fes" "subseq (fan_written fes) (produced [e])"
    using ts_step_fan [of snap send resize t e] by blast
  obtain ges where g: "ts_fan (run (ts_step snap send resize) (ts_step snap send resize t e) es) =
      run fan_step (ts_fan (ts_step snap send resize t e)) ges" "subseq (fan_written ges) (produced es)"
    using Cons.IH [of "ts_step snap send resize t e"] by blast
  have "produced (e # es) = produced [e] @ produced es" by (simp add: produced_def)
  then show ?case
    using f g by (intro exI [of _ "fes @ ges"]) (simp add: run_append list_emb_append_mono)
qed

lemma ts_inv_new: "ts_inv (newTermServer s)"
  by (simp add: ts_inv_def newTermServer_def fan_inv_new)

section \<open>Properties\<close>


text \<open>Only writers type over the peer-to-peer terminal. What the program of a pty session has been
  given is exactly the input of the frames of open, writable peers, decoded, in order, and nothing
  else, whatever the read-only peers send; through tmux the same, except that a single piece longer
  than 8 KiB is refused whole.\<close>

theorem only_writers_type:
  "ptmx_in (ts_src (run (ts_step ptySource_snapshot ptySource_send ptySource_resize) (newTermServer q) es)) =
     ptmx_in q @ concat (heeded ptySource_snapshot ptySource_send ptySource_resize (newTermServer q) es) \<and>
   (tmuxSource_ok s \<longrightarrow>
     tmuxSource_typed (ts_src (run (ts_step (tmuxSource_snapshot exec) tmuxSource_send tmuxSource_resize) (newTermServer s) es)) =
       tmuxSource_typed s @ concat (filter sendable
         (heeded (tmuxSource_snapshot exec) tmuxSource_send tmuxSource_resize (newTermServer s) es)))"
  using pty.server_typed [of "newTermServer q" es] tmux.server_typed [of "newTermServer s" exec es]
  by (simp add: newTermServer_def)

definition sample_pty :: ptySource where
  "sample_pty = \<lparr>ptmx_in = ''ls'', winsize = (80, 24), stdin_tty = False, pane = new_pane, fan = newFanout, sub = None\<rparr>"

definition sample_tmux :: tmuxSource where
  "sample_tmux = \<lparr>t_srv = \<lparr>Socket = [], Bin = []\<rparr>, t_session = ''s'', t_client = Some \<lparr>target = ''=s:'', closed = False,
     stdin_ok = True, stdin = [], inBlock = False, reading = True, out_q = [], out_closed = False, taken = []\<rparr>\<rparr>"

lemma sample_tmux_ok: "tmuxSource_ok sample_tmux" "tmuxSource_typed sample_tmux = []"
  by (auto simp: tmuxSource_ok_def tmuxSource_typed_def sample_tmux_def in_use_def only_commands_def newline_def
      pipe_keys_def line_keys_def intro: exI [of _ "[]"])

theorem only_writers_type_witness:
  "tmuxSource_typed (ts_src (run (ts_step (tmuxSource_snapshot (\<lambda>_. None)) tmuxSource_send tmuxSource_resize)
     (newTermServer sample_tmux) [TsAccept 80 24 True, TsAccept 80 24 False, TsFrame 0 (TText (Some (MInput (std_encode ''x'')))),
       TsFrame 1 (TText (Some (MInput (std_encode ''y''))))])) = ''x''"
  using only_writers_type [of sample_pty "[TsAccept 80 24 True, TsAccept 80 24 False, TsFrame 0 (TText (Some (MInput (std_encode ''x'')))),
       TsFrame 1 (TText (Some (MInput (std_encode ''y''))))]" sample_tmux "\<lambda>_. None"]
  by (simp add: sample_tmux_ok newTermServer_def serve_peer_def clampTermSize_def fan_subscribe_def newFanout_def
      open_peer_def with_peer_def peer_frame_def apply_frame_def std_decode_encode set_peer_def wire_def sendable_def maxInput_def)

text \<open>The last output of a session can be lost to a peer. When the terminal has ended, a peer's
  writer that still has output queued may report the exit instead (a \<open>select\<close> takes either case):
  the connection then ends without the queued pieces, which no later step can deliver.\<close>

theorem exit_overtakes_output:
  assumes "ts_inv t" and "ts_done t" and "open_peer t i = Some p" and "buf (chans (ts_fan t) (p_sub p)) = b # bs"
  shows "let u = run (ts_step snap send resize) t (TsExit i # es) in
    i < length (ts_peers u) \<and> p_wire (ts_peers u ! i) = p_wire p @ [PExit] \<and>
    live_pieces (p_wire (ts_peers u ! i)) @ b # bs = stream (chans (ts_fan t) (p_sub p))"
proof -
  have still: "i < length (ts_peers v) \<Longrightarrow> \<not> p_open (ts_peers v ! i) \<Longrightarrow>
      i < length (ts_peers (ts_step snap send resize v e)) \<and> ts_peers (ts_step snap send resize v e) ! i = ts_peers v ! i" for v e
    by (cases e) (auto simp: with_peer_def open_peer_def drop_peer_def send_live_def peer_frame_def serve_peer_def set_peer_def
        nth_append nth_list_update split: option.split list.split prod.split if_splits)
  have run: "i < length (ts_peers v) \<Longrightarrow> \<not> p_open (ts_peers v ! i) \<Longrightarrow>
      i < length (ts_peers (run (ts_step snap send resize) v es)) \<and>
      ts_peers (run (ts_step snap send resize) v es) ! i = ts_peers v ! i" for v es
    using still by (induction es arbitrary: v) simp_all
  note i = ts_inv_peer [OF assms(1,3)]
  let ?v = "drop_peer i (wire [PExit] p) t"
  have v: "i < length (ts_peers ?v)" "ts_peers ?v ! i = wire [PExit] p\<lparr>p_open := False\<rparr>"
    using i(1) by (simp_all add: drop_peer_def set_peer_def)
  have "live_pieces (p_wire p) = got (chans (ts_fan t) (p_sub p))" using i(4) by (simp add: peer_ok_def)
  then show ?thesis
    using run [OF v(1), of es] v assms by (simp add: Let_def with_peer_def stream_def wire_def)
qed

theorem exit_overtakes_output_witness:
  "p_wire (ts_peers (run (ts_step ptySource_snapshot ptySource_send ptySource_resize) (newTermServer sample_pty)
     [TsStart True, TsAccept 80 24 False, TsOut ''bye'', TsEnded, TsExit 0, TsSend 0]) ! 0) = [PHello 80 24 False, PExit]"
proof -
  let ?t = "run (ts_step ptySource_snapshot ptySource_send ptySource_resize) (newTermServer sample_pty)
     [TsStart True, TsAccept 80 24 False, TsOut ''bye'', TsEnded]"
  have i: "ts_inv ?t" by (rule peers.run_inv [OF ts_inv_new]) simp
  have t: "ts_done ?t" "open_peer ?t 0 = Some \<lparr>p_sub = 0, p_write = False, p_wire = [PHello 80 24 False], p_open = True\<rparr>"
    "buf (chans (ts_fan ?t) 0) = ''bye'' # []"
    by (simp_all add: newTermServer_def serve_peer_def clampTermSize_def fan_subscribe_def newFanout_def open_peer_def
        fan_Write_def offer_def put_def termHostQueue_def)
  show ?thesis
    using exit_overtakes_output [OF i t(1,2), of "''bye''" "[]" ptySource_snapshot ptySource_send ptySource_resize "[TsSend 0]"] t(3)
    by (simp add: Let_def)
qed

end
