(* ===== verification/Attach.thy ===== *)
theory Attach
  imports P2P
begin

text \<open>
  Attaching from a terminal (\<open>attach/attach.go\<close>): which session a name means, the socket's address, and
  the loop that turns what is typed into frames until the detach key.
\<close>

section \<open>Resolving a target\<close>

record listed =
  lID :: bytes
  lName :: bytes
  lDir :: bytes
  lMuxSession :: bytes
  lHasTerminal :: bool
  lCanWrite :: bool

datatype resolve_error = NoSuchSession bytes | Ambiguous "listed list"

fun resolve_from :: "listed list \<Rightarrow> listed list \<Rightarrow> bytes \<Rightarrow> resolve_error + listed" where
  "resolve_from byName [] name = (case byName of
     [s] \<Rightarrow> Inr s | [] \<Rightarrow> Inl (NoSuchSession name) | _ \<Rightarrow> Inl (Ambiguous byName))"
| "resolve_from byName (s # ss) name =
     (if lID s = name \<or> lMuxSession s = name then Inr s
      else resolve_from (if lName s = name then byName @ [s] else byName) ss name)"

definition Resolve :: "listed list \<Rightarrow> bytes \<Rightarrow> resolve_error + listed" where
  "Resolve ss name = resolve_from [] ss name"

definition wsScheme :: "bytes \<Rightarrow> bytes" where
  "wsScheme u = (if HasPrefix u ''https://'' then ''wss://'' @ TrimPrefix u ''https://''
     else if HasPrefix u ''http://'' then ''ws://'' @ TrimPrefix u ''http://'' else u)"

definition attach_url :: "bytes \<Rightarrow> bytes \<Rightarrow> (int \<times> int) option \<Rightarrow> bytes" where
  "attach_url base i dims = (let (cols, rows) = (case dims of None \<Rightarrow> (0, 0) | Some z \<Rightarrow> z);
     url = TrimRight base ''/'' @ ''/api/v1/sessions/'' @ i @ ''/terminal''
   in wsScheme (if cols > 0 \<and> rows > 0 then url @ ''?cols='' @ Itoa cols @ ''&rows='' @ Itoa rows else url))"

section \<open>Typing\<close>

definition DetachKey :: char where "DetachKey = CHR 0x1D"

definition input_frame :: "bytes \<Rightarrow> term_frame" where
  "input_frame b = TText (Some (MInput (std_encode b)))"

text \<open>The scan of one read for the detach key, by index: what to send before it, or that it is not there.\<close>

fun detach_at :: "nat \<Rightarrow> bytes \<Rightarrow> bytes \<Rightarrow> bytes option" where
  "detach_at i b [] = None"
| "detach_at i b (c # cs) = (if c = DetachKey then Some (take i b) else detach_at (Suc i) b cs)"

text \<open>The loop over the reads: the frames sent and whether the attach was detached. A read may end the
  input; its error then ends the loop after its bytes were handled.\<close>

fun type_loop :: "(bytes \<times> bool) list \<Rightarrow> term_frame list \<times> bool" where
  "type_loop [] = ([], False)"
| "type_loop ((b, ended) # rs) = (case detach_at 0 b b of
     Some p \<Rightarrow> (if p \<noteq> [] then [input_frame p] else [], True)
   | None \<Rightarrow> let sent = (if b \<noteq> [] then [input_frame b] else [])
       in if ended then (sent, False)
          else case type_loop rs of (fs, d) \<Rightarrow> (sent @ fs, d))"

text \<open>Everything typed: the reads up to the one that failed.\<close>

fun typed_text :: "(bytes \<times> bool) list \<Rightarrow> bytes" where
  "typed_text [] = []"
| "typed_text ((b, ended) # rs) = (if ended then b else b @ typed_text rs)"

definition read_size :: nat where "read_size = 4 * 2 ^ 10"

section \<open>Facts\<close>

lemma detach_at_scan:
  "detach_at (length a) (a @ b) b = (if DetachKey \<in> set b then Some (a @ takeWhile (\<lambda>c. c \<noteq> DetachKey) b) else None)"
proof (induction b arbitrary: a)
  case (Cons c b)
  then show ?case using Cons.IH [of "a @ [c]"] by auto
qed simp

lemma frame_input_frame [simp]: "frame_input (input_frame b) = [b]"
  by (simp add: input_frame_def std_decode_encode)

lemma type_loop_input:
  "concat (concat (map frame_input (fst (type_loop rs)))) = takeWhile (\<lambda>c. c \<noteq> DetachKey) (typed_text rs) \<and>
   snd (type_loop rs) = (DetachKey \<in> set (typed_text rs)) \<and>
   (list_all (\<lambda>r. length (fst r) \<le> n) rs \<longrightarrow>
     list_all (\<lambda>f. \<exists>b. f = input_frame b \<and> b \<noteq> [] \<and> length b \<le> n) (fst (type_loop rs)))"
proof (induction rs)
  case (Cons r rs)
  obtain b ended where r: "r = (b, ended)" by (cases r)
  note scan = detach_at_scan [of "[]" b, simplified]
  show ?case
  proof (cases "DetachKey \<in> set b")
    case True
    let ?p = "takeWhile (\<lambda>c. c \<noteq> DetachKey) b"
    have d: "detach_at 0 b b = Some ?p" using scan True by simp
    have "takeWhile (\<lambda>c. c \<noteq> DetachKey) (b @ xs) = ?p" for xs
      using True by (intro takeWhile_append1) auto
    then have t: "takeWhile (\<lambda>c. c \<noteq> DetachKey) (typed_text (r # rs)) = ?p" by (simp add: r)
    have k: "DetachKey \<in> set (typed_text (r # rs))" using True by (simp add: r)
    have "length ?p \<le> length b" by (rule length_takeWhile_le)
    then show ?thesis
      unfolding t using k by (cases "?p = []") (auto simp: r d)
  next
    case False
    then have "takeWhile (\<lambda>c. c \<noteq> DetachKey) b = b" "takeWhile (\<lambda>c. c \<noteq> DetachKey) (b @ xs) = b @ takeWhile (\<lambda>c. c \<noteq> DetachKey) xs" for xs
      by (auto intro!: takeWhile_append2)
    note tw = this
    have d: "detach_at 0 b b = None" using False scan by simp
    obtain fs dt where l: "type_loop rs = (fs, dt)" by fastforce
    have ih: "concat (concat (map frame_input fs)) = takeWhile (\<lambda>c. c \<noteq> DetachKey) (typed_text rs)"
      "dt = (DetachKey \<in> set (typed_text rs))"
      "list_all (\<lambda>r. length (fst r) \<le> n) rs \<longrightarrow> list_all (\<lambda>f. \<exists>b. f = input_frame b \<and> b \<noteq> [] \<and> length b \<le> n) fs"
      using Cons.IH l by simp_all
    show ?thesis
      using ih False by (cases ended; cases "b = []") (simp_all add: r d l tw Let_def, blast+)
  qed
qed simp

lemma resolve_from_eq:
  "resolve_from acc ss name = (case find (\<lambda>s. lID s = name \<or> lMuxSession s = name) ss of
     Some s \<Rightarrow> Inr s
   | None \<Rightarrow> (case acc @ filter (\<lambda>s. lName s = name) ss of
       [s] \<Rightarrow> Inr s | [] \<Rightarrow> Inl (NoSuchSession name) | bs \<Rightarrow> Inl (Ambiguous bs)))"
  by (induction acc ss name rule: resolve_from.induct) (auto split: list.split option.split)

lemma heeded_frames:
  "open_peer t i = Some p \<Longrightarrow> p_write p \<Longrightarrow> heeded snap send resize t (map (TsFrame i) fs) = concat (map frame_input fs)"
proof (induction fs arbitrary: t p)
  case (Cons f fs)
  let ?t = "ts_step snap send resize t (TsFrame i f)"
  have "\<exists>q. open_peer ?t i = Some q \<and> p_write q"
    using Cons.prems
    by (auto simp: with_peer_def peer_frame_def open_peer_def set_peer_def wire_def split: if_splits prod.split)
  then obtain q where "open_peer ?t i = Some q" "p_write q" by blast
  then show ?case using Cons.IH Cons.prems by simp
qed simp

lemma newTermServer_src: "ts_src (newTermServer s) = s"
  by (simp add: newTermServer_def)

lemma accepted_heeded:
  "heeded snap send resize (newTermServer s) (TsAccept cols rows True # map (TsFrame 0) fs) = concat (map frame_input fs)"
proof -
  let ?t = "ts_step snap send resize (newTermServer s) (TsAccept cols rows True)"
  have "\<exists>p. open_peer ?t 0 = Some p \<and> p_write p"
    by (simp add: newTermServer_def serve_peer_def open_peer_def split: prod.split)
  then obtain p where "open_peer ?t 0 = Some p" "p_write p" by blast
  from heeded_frames [OF this] show ?thesis by simp
qed

section \<open>Properties\<close>

text \<open>Attaching never guesses. A target that is the id or tmux name of a listed session means that
  session; otherwise it means the one session with that display name; a name shared by several is
  refused with all of them, an unknown one as unknown, and nothing outside the list is ever chosen.\<close>

theorem attach_never_guesses:
  "Resolve ss name = (case find (\<lambda>s. lID s = name \<or> lMuxSession s = name) ss of
     Some s \<Rightarrow> Inr s
   | None \<Rightarrow> (case filter (\<lambda>s. lName s = name) ss of
       [s] \<Rightarrow> Inr s | [] \<Rightarrow> Inl (NoSuchSession name) | bs \<Rightarrow> Inl (Ambiguous bs))) \<and>
   (case Resolve ss name of Inr s \<Rightarrow> s \<in> set ss \<and> (lID s = name \<or> lMuxSession s = name \<or> lName s = name) | Inl e \<Rightarrow> True)"
proof -
  have e: "Resolve ss name = (case find (\<lambda>s. lID s = name \<or> lMuxSession s = name) ss of
     Some s \<Rightarrow> Inr s
   | None \<Rightarrow> (case filter (\<lambda>s. lName s = name) ss of
       [s] \<Rightarrow> Inr s | [] \<Rightarrow> Inl (NoSuchSession name) | bs \<Rightarrow> Inl (Ambiguous bs)))"
    by (simp only: Resolve_def resolve_from_eq append_Nil)
  have f: "s \<in> set ss \<and> lName s = name" if "filter (\<lambda>s. lName s = name) ss = s # bs" for s bs
  proof -
    have "s \<in> set (filter (\<lambda>s. lName s = name) ss)" using that by simp
    then show ?thesis by simp
  qed
  have "(case Resolve ss name of Inr s \<Rightarrow> s \<in> set ss \<and> (lID s = name \<or> lMuxSession s = name \<or> lName s = name) | Inl e \<Rightarrow> True)"
  proof (cases "find (\<lambda>s. lID s = name \<or> lMuxSession s = name) ss")
    case None
    show ?thesis
    proof (cases "filter (\<lambda>s. lName s = name) ss")
      case (Cons s bs)
      then show ?thesis unfolding e None using f [OF Cons] by (cases bs) simp_all
    qed (simp add: e None)
  next
    case (Some s)
    then have "s \<in> set ss \<and> (lID s = name \<or> lMuxSession s = name)" by (auto simp: find_Some_iff)
    then show ?thesis unfolding e Some by auto
  qed
  with e show ?thesis by blast
qed

text \<open>A keyboard reaches the program exactly. Whatever is typed into an attached terminal, read in
  pieces of at most 4 KiB, arrives at the program in the pane as typed, up to the first Ctrl-] and
  nothing from it on: the frames the loop sends, heard by the peer-to-peer server from a writable
  peer, type exactly that into the pty, and into a tmux pane too, because no piece is too long for
  one tmux command.\<close>

theorem keyboard_reaches_program:
  assumes "list_all (\<lambda>r. length (fst r) \<le> read_size) rs" and "tmuxSource_ok s"
  shows "let es = TsAccept cols rows True # map (TsFrame 0) (fst (type_loop rs));
      text = takeWhile (\<lambda>c. c \<noteq> DetachKey) (typed_text rs) in
    ptmx_in (ts_src (run (ts_step ptySource_snapshot ptySource_send ptySource_resize) (newTermServer q) es)) = ptmx_in q @ text \<and>
    tmuxSource_typed (ts_src (run (ts_step (tmuxSource_snapshot exec) tmuxSource_send tmuxSource_resize) (newTermServer s) es))
      = tmuxSource_typed s @ text \<and>
    (snd (type_loop rs) \<longleftrightarrow> DetachKey \<in> set (typed_text rs))"
proof -
  let ?fs = "fst (type_loop rs)"
  have fs: "list_all (\<lambda>f. \<exists>b. f = input_frame b \<and> b \<noteq> [] \<and> length b \<le> read_size) ?fs"
    using type_loop_input [of rs read_size] assms(1) by blast
  have "filter sendable (concat (map frame_input ?fs)) = concat (map frame_input ?fs)"
    using fs by (intro filter_True) (force simp: list_all_iff sendable_def read_size_def maxInput_def)
  then show ?thesis
    using pty.server_typed [of "newTermServer q" "TsAccept cols rows True # map (TsFrame 0) ?fs"]
      tmux.server_typed [of "newTermServer s" exec "TsAccept cols rows True # map (TsFrame 0) ?fs"]
      type_loop_input [of rs read_size] assms(2)
    unfolding Let_def accepted_heeded by (simp add: newTermServer_src del: run_Cons)
qed

theorem keyboard_reaches_program_witness:
  "ptmx_in (ts_src (run (ts_step ptySource_snapshot ptySource_send ptySource_resize) (newTermServer sample_pty)
     (TsAccept 80 24 True # map (TsFrame 0) (fst (type_loop [(''ls '', False), (''-l'' @ [DetachKey, CHR ''x''], False), (''y'', False)])))))
   = ''lsls -l''"
proof -
  have "list_all (\<lambda>r. length (fst r) \<le> read_size) [(''ls '', False), (''-l'' @ [DetachKey, CHR ''x''], False), (''y'', False)]"
    by (simp add: read_size_def)
  from keyboard_reaches_program [OF this sample_tmux_ok(1), of 80 24 sample_pty]
  show ?thesis by (simp add: Let_def sample_pty_def DetachKey_def char_of_eq_iff)
qed

end
