(* ===== verification/Typing.thy ===== *)
theory Typing
  imports TerminalJs Hosts Attach
begin

text \<open>
  How typing travels: the page's frames as the socket's readers see them, what the dashboard relays of
  them to a wrapper, and what a tmux client is given of them. The three hops use the same contract
  (\<open>term_source\<close>) at the end of the way.
\<close>

section \<open>The page's frames on the socket\<close>

definition on_socket_frame :: "client_frame \<Rightarrow> term_frame" where
  "on_socket_frame f = (case f of JsInput p \<Rightarrow> TText (Some (MInput p)) | JsResize c r \<Rightarrow> TText (Some (MResize c r)))"

lemma typed_frames:
  assumes "CHUNK \<le> limit" and "length (listeners u) = 1" and "\<not> disableStdin u" and "ws u" and "ready_state u = OPEN"
  shows "sent (foldl (\<lambda>u d. on_typed limit d u) u ds) = sent u @ map (\<lambda>d. JsInput (std_encode (text_encode d))) ds"
  using assms(2-5)
proof (induction ds arbitrary: u)
  case (Cons d ds)
  have s: "sent (on_typed limit d u) = sent u @ [JsInput (std_encode (text_encode d))]"
    using sent_on_typed [OF assms(1), of d u] Cons.prems by simp
  have k: "listeners (foldl (\<lambda>v _. case b64 limit d of None \<Rightarrow> v | Some p \<Rightarrow> send (JsInput p) v) v ls) = listeners v \<and>
      disableStdin (foldl (\<lambda>v _. case b64 limit d of None \<Rightarrow> v | Some p \<Rightarrow> send (JsInput p) v) v ls) = disableStdin v \<and>
      ws (foldl (\<lambda>v _. case b64 limit d of None \<Rightarrow> v | Some p \<Rightarrow> send (JsInput p) v) v ls) = ws v \<and>
      ready_state (foldl (\<lambda>v _. case b64 limit d of None \<Rightarrow> v | Some p \<Rightarrow> send (JsInput p) v) v ls) = ready_state v" for v and ls :: "nat list"
    by (induction ls arbitrary: v) (simp_all add: send_def split: option.split)
  have "length (listeners (on_typed limit d u)) = 1" "\<not> disableStdin (on_typed limit d u)"
    "ws (on_typed limit d u)" "ready_state (on_typed limit d u) = OPEN"
    using Cons.prems k by (simp_all add: on_typed_def)
  from Cons.IH [OF this] show ?case using s by simp
qed simp

lemma typed_input:
  "map frame_input (map on_socket_frame (map (\<lambda>d. JsInput (std_encode (text_encode d))) ds)) = map (\<lambda>d. [text_encode d]) ds"
  by (simp add: on_socket_frame_def std_decode_encode)

section \<open>The dashboard's relay\<close>

definition forwarded :: "bool \<Rightarrow> bool \<Rightarrow> term_frame \<Rightarrow> term_frame list" where
  "forwarded cw hw f = (case f of
     TText (Some (MInput p)) \<Rightarrow> if cw \<and> hw then map (\<lambda>raw. TText (Some (MInput (std_encode raw)))) (frame_input f) else []
   | TText (Some (MResize x y)) \<Rightarrow> if cw then [TText (Some (MResize (fst (termSize x y)) (snd (termSize x y))))] else []
   | _ \<Rightarrow> [])"

lemma viewer_frames:
  "\<not> th_closed h \<Longrightarrow> to_wrapper (foldl (viewer_frame cw) h fs) = to_wrapper h @ concat (map (forwarded cw (th_write h)) fs) \<and>
     \<not> th_closed (foldl (viewer_frame cw) h fs) \<and> th_write (foldl (viewer_frame cw) h fs) = th_write h"
proof (induction fs arbitrary: h)
  case (Cons f fs)
  have "to_wrapper (viewer_frame cw h f) = to_wrapper h @ forwarded cw (th_write h) f \<and>
     \<not> th_closed (viewer_frame cw h f) \<and> th_write (viewer_frame cw h f) = th_write h"
    using Cons.prems
    by (auto simp: viewer_frame_def forwarded_def th_sendInput_def th_resize_def th_control_def case_prod_unfold
        split: term_frame.split option.split term_msg.split)
  then show ?case using Cons.IH [of "viewer_frame cw h f"] by simp
qed simp

lemma relay_input:
  "concat (map frame_input (concat (map (forwarded cw hw) fs))) = (if cw \<and> hw then concat (map frame_input fs) else [])"
proof (induction fs)
  case (Cons f fs)
  have m: "concat (map frame_input (map (\<lambda>raw. TText (Some (MInput (std_encode raw)))) bs)) = bs" for bs
    by (induction bs) (simp_all add: std_decode_encode)
  have "concat (map frame_input (forwarded cw hw f)) = (if cw \<and> hw then frame_input f else [])"
    by (cases f) (auto simp: forwarded_def m std_decode_encode split: option.split term_msg.split)
  then show ?case using Cons by simp
qed simp

lemma viewer_cannot: "foldl (viewer_frame False) h fs = h"
proof -
  have "viewer_frame False h f = h" for h f
    by (simp add: viewer_frame_def split: term_frame.split option.split term_msg.split)
  then show ?thesis by (induction fs arbitrary: h) simp_all
qed

text \<open>At the wrapper, through either source.\<close>

context term_source
begin

lemma relayed_typed:
  assumes "ok s" and "\<not> th_closed h"
  shows "typed (fst (readLoop snap send resize wr
      (drop (length (to_wrapper h)) (to_wrapper (foldl (viewer_frame cw) h fs))) s)) =
    typed s @ (if wr \<and> cw \<and> th_write h then concat (filter fits (concat (map frame_input fs))) else [])"
  using loop_typed [of "(s, [])" wr "concat (map (forwarded cw (th_write h)) fs)"] assms
  by (auto simp: readLoop_def viewer_frames relay_input)

end

section \<open>The dashboard's own tmux clients\<close>

lemma local_typed:
  "in_use cl \<Longrightarrow> in_use (termReadLoop wr fs cl) \<and>
     pipe_keys (stdin (termReadLoop wr fs cl)) =
       pipe_keys (stdin cl) @ (if wr then concat (filter sendable (concat (map frame_input fs))) else [])"
proof (induction fs arbitrary: cl)
  case (Cons f fs)
  have "in_use (termReadLoop_frame wr cl f) \<and> pipe_keys (stdin (termReadLoop_frame wr cl f)) =
      pipe_keys (stdin cl) @ (if wr then concat (filter sendable (frame_input f)) else [])"
    using Cons.prems Send_in_use Resize_in_use
    by (cases f) (auto simp: termReadLoop_frame_def case_prod_unfold split: option.split term_msg.split)
  then show ?case using Cons.IH [of "termReadLoop_frame wr cl f"] by (auto simp: termReadLoop_def)
qed (simp add: termReadLoop_def)

section \<open>The right to write\<close>

lemma granted_write:
  assumes "spool_inv (files s)" and "files s i = Some r"
  shows "case fst (handleTerminalWS cfg w c i cs rs s) of WsRefused rep \<Rightarrow> True
    | WsRemote q wr \<Rightarrow> q = r \<and> wr = canWrite s r c
    | WsLocal srv tgt z wr \<Rightarrow> wr = canWrite s r c \<and> pane_size z"
proof (cases "visibleRecord cfg w c i s")
  case (Pair ro s1)
  show ?thesis
  proof (cases ro)
    case None
    then show ?thesis using Pair by (simp add: handleTerminalWS_def)
  next
    case (Some r0)
    then have l: "liveRecord cfg w i s = (Some r0, s1)"
      using Pair by (auto simp: visibleRecord_def split: prod.splits option.splits if_splits)
    note f = liveRecord_Some [OF assms(1) l]
    have "r0 = r" "acls s1 = acls s" using f(2) assms(2) by (simp, subst f(5), simp)
    then show ?thesis using Pair Some by (simp add: handleTerminalWS_def canWrite_def Let_def split: option.split)
  qed
qed

lemma granted_viewer:
  "case fst (serveRemoteTerminal r wr t) of ViewerRefused rep \<Rightarrow> True | ViewerExit g z \<Rightarrow> g \<longrightarrow> wr | ViewerOn n g z v \<Rightarrow> g \<longrightarrow> wr"
  by (simp add: serveRemoteTerminal_def split: option.split prod.split)

end
