(* ===== verification/Relay.thy ===== *)
theory Relay
  imports Termwire
begin

text \<open>
  The collaboration relay (\<open>internal/dashboard/relay.go\<close>). Every connection is a goroutine that
  runs \<open>serveHost\<close> or \<open>serveGuest\<close>; what it does between two lock operations (or between two
  channel operations outside any lock) is one event, so that an event sequence is an
  interleaving of the goroutines. A connection keeps the local variables of its goroutine
  (where it is, its room id, its \<open>room\<close> pointer, its peer id), its bounded send channel and
  what its write loop put on the socket. \<open>panicked\<close> is a goroutine that sent on a closed
  channel: the HTTP server recovers it, and it does nothing more.
\<close>

section \<open>State\<close>

datatype frame_type = MessageText | MessageBinary

type_synonym relay_frame = "frame_type \<times> bytes"

datatype relay_pc =
    Fresh                       \<comment> \<open>not served yet\<close>
  | Serving                     \<comment> \<open>host: in its read loop\<close>
  | Draining                    \<comment> \<open>host: the room is deleted\<close>
  | Notifying "nat list"        \<comment> \<open>host: the guests still to be told\<close>
  | Found                       \<comment> \<open>guest: has looked the room up\<close>
  | Registered                  \<comment> \<open>guest: is in the room\<close>
  | Relaying                    \<comment> \<open>guest: in its read loop\<close>
  | Leaving bool                \<comment> \<open>guest: left the room, with \<open>stillHere\<close>\<close>
  | Hanging                     \<comment> \<open>guest: about to close its channel\<close>
  | Gone
  | Panicked

record relay_conn =
  pc :: relay_pc
  room_id :: bytes
  room_ref :: nat
  peerID :: "32 word option"
  send_q :: "relay_frame list"
  send_closed :: bool
  on_socket :: "relay_frame list"
  close_code :: "nat option"

text \<open>\<open>joined\<close> counts the guests a room ever had; the program has only the 32-bit \<open>next\<close>.\<close>

record relay_room =
  host :: nat
  guests :: "32 word \<Rightarrow> nat option"
  next_id :: "32 word"
  joined :: nat

record relay =
  rooms :: "bytes \<Rightarrow> nat option"
  room :: "nat \<Rightarrow> relay_room"
  next_room :: nat
  conn :: "nat \<Rightarrow> relay_conn"

definition relayEnvHeader :: nat where "relayEnvHeader = 4"
definition relayQueue :: nat where "relayQueue = 256"

definition newRelayConn :: relay_conn where
  "newRelayConn = \<lparr>pc = Fresh, room_id = [], room_ref = 0, peerID = None, send_q = [],
     send_closed = False, on_socket = [], close_code = None\<rparr>"

definition newRelay :: relay where
  "newRelay = \<lparr>rooms = (\<lambda>_. None), room = (\<lambda>_. \<lparr>host = 0, guests = (\<lambda>_. None), next_id = 0, joined = 0\<rparr>),
     next_room = 0, conn = (\<lambda>_. newRelayConn)\<rparr>"

section \<open>Operations\<close>

text \<open>The path of a room: \<open>^/r/([A-Za-z0-9_-]{10,64})$\<close>.\<close>

definition relayRoomRe :: "bytes \<Rightarrow> bytes option" where
  "relayRoomRe path = (if HasPrefix path ''/r/'' then
       let i = drop 3 path in
       if 10 \<le> length i \<and> length i \<le> 64 \<and> list_all (\<lambda>c. alnum c \<or> c \<in> set ''_-'') i then Some i else None
     else None)"

datatype relay_route = NotFound | ServeHost bytes | ServeGuest bytes

definition ServeRelay :: "bytes \<Rightarrow> bytes \<Rightarrow> relay_route" where
  "ServeRelay path role = (let m = relayRoomRe path in
     if m = None \<or> (role \<noteq> ''host'' \<and> role \<noteq> ''guest'') then NotFound
     else if role = ''host'' then ServeHost (the m) else ServeGuest (the m))"

definition quoted :: "bytes \<Rightarrow> bytes" where
  "quoted s = [CHR 0x22] @ s @ [CHR 0x22]"

definition ctrlFrame :: "bytes \<Rightarrow> 32 word \<Rightarrow> relay_frame" where
  "ctrlFrame t peer = (MessageText, ''{'' @ quoted ''peer'' @ '':'' @ Itoa (uint peer) @ '','' @
     quoted ''t'' @ '':'' @ quoted t @ ''}'')"

definition ctrlFrameNoPeer :: "bytes \<Rightarrow> relay_frame" where
  "ctrlFrameNoPeer t = (MessageText, ''{'' @ quoted ''t'' @ '':'' @ quoted t @ ''}'')"

definition set_conn :: "nat \<Rightarrow> (relay_conn \<Rightarrow> relay_conn) \<Rightarrow> relay \<Rightarrow> relay" where
  "set_conn c f s = s\<lparr>conn := (conn s)(c := f (conn s c))\<rparr>"

definition set_room :: "nat \<Rightarrow> (relay_room \<Rightarrow> relay_room) \<Rightarrow> relay \<Rightarrow> relay" where
  "set_room r f s = s\<lparr>room := (room s)(r := f (room s r))\<rparr>"

definition goto :: "nat \<Rightarrow> relay_pc \<Rightarrow> relay \<Rightarrow> relay" where
  "goto c p = set_conn c (\<lambda>x. x\<lparr>pc := p\<rparr>)"

definition ws_close :: "nat \<Rightarrow> relay_conn \<Rightarrow> relay_conn" where
  "ws_close code x = (if close_code x = None then x\<lparr>close_code := Some code\<rparr> else x)"

text \<open>\<open>enqueue\<close>: \<open>None\<close> is the panic of a send on a closed channel; a full channel closes the
  socket with the policy-violation code.\<close>

definition enqueue :: "relay_frame \<Rightarrow> relay_conn \<Rightarrow> relay_conn option" where
  "enqueue f x = (
     if send_closed x then None
     else if length (send_q x) < relayQueue then Some (x\<lparr>send_q := send_q x @ [f]\<rparr>)
     else Some (ws_close 1008 x))"

text \<open>Goroutine \<open>c\<close> enqueues to connection \<open>d\<close> and goes on at \<open>p\<close>, unless it panics.\<close>

definition enqueue_to :: "nat \<Rightarrow> relay_frame \<Rightarrow> nat \<Rightarrow> relay_pc \<Rightarrow> relay \<Rightarrow> relay" where
  "enqueue_to c f d p s = (case enqueue f (conn s d) of
     None \<Rightarrow> goto c Panicked s
   | Some x \<Rightarrow> goto c p (set_conn d (\<lambda>_. x) s))"

fun enqueue_all :: "nat \<Rightarrow> relay_frame \<Rightarrow> nat list \<Rightarrow> relay \<Rightarrow> relay" where
  "enqueue_all c f [] s = s"
| "enqueue_all c f (g # gs) s = (case enqueue f (conn s g) of
     None \<Rightarrow> goto c Panicked s
   | Some x \<Rightarrow> enqueue_all c f gs (set_conn g (\<lambda>_. x) s))"

text \<open>\<open>gs\<close> in an event is the order in which a \<open>range\<close> over the guest map visits it.\<close>

datatype relay_event =
    HostJoin nat bytes | HostFrame nat relay_frame "nat list" | HostLost nat
  | HostDrain nat "nat list" | HostNotify nat | HostClose nat
  | GuestLookup nat bytes | GuestRegister nat | GuestAnnounce nat | GuestFrame nat relay_frame
  | GuestLost nat | GuestFarewell nat | GuestClose nat
  | Write nat

definition order_of :: "nat list \<Rightarrow> relay_room \<Rightarrow> bool" where
  "order_of gs r = (distinct gs \<and> set gs = ran (guests r))"

definition serveHost_join :: "nat \<Rightarrow> bytes \<Rightarrow> relay \<Rightarrow> relay" where
  "serveHost_join c i s = (case rooms s i of
     Some _ \<Rightarrow> set_conn c (\<lambda>x. (ws_close 4009 x)\<lparr>pc := Gone\<rparr>) s
   | None \<Rightarrow> let r = next_room s in
       set_conn c (\<lambda>x. x\<lparr>pc := Serving, room_id := i, room_ref := r\<rparr>)
         (s\<lparr>rooms := (rooms s)(i \<mapsto> r), next_room := Suc r,
            room := (room s)(r := \<lparr>host = c, guests = (\<lambda>_. None), next_id = 1, joined = 0\<rparr>)\<rparr>))"

definition serveHost_frame :: "nat \<Rightarrow> relay_frame \<Rightarrow> nat list \<Rightarrow> relay \<Rightarrow> relay" where
  "serveHost_frame c f gs s = (
     if fst f \<noteq> MessageBinary \<or> length (snd f) < relayEnvHeader then s
     else let peer = Uint32 (take relayEnvHeader (snd f)); r = room s (room_ref (conn s c)) in
       if peer = 0 then enqueue_all c (MessageBinary, snd f) gs s
       else case guests r peer of
         Some g \<Rightarrow> enqueue_all c (MessageBinary, snd f) [g] s
       | None \<Rightarrow> s)"

definition serveGuest_lookup :: "nat \<Rightarrow> bytes \<Rightarrow> relay \<Rightarrow> relay" where
  "serveGuest_lookup c i s = (case rooms s i of
     None \<Rightarrow> set_conn c (\<lambda>x. (ws_close 4004 x)\<lparr>pc := Gone\<rparr>) s
   | Some r \<Rightarrow> set_conn c (\<lambda>x. x\<lparr>pc := Found, room_id := i, room_ref := r\<rparr>) s)"

definition serveGuest_register :: "nat \<Rightarrow> relay \<Rightarrow> relay" where
  "serveGuest_register c s = (let r = room_ref (conn s c); p = next_id (room s r) in
     set_conn c (\<lambda>x. x\<lparr>pc := Registered, peerID := Some p\<rparr>)
       (set_room r (\<lambda>m. m\<lparr>next_id := next_id m + 1, joined := Suc (joined m), guests := (guests m)(p \<mapsto> c)\<rparr>) s))"

definition serveGuest_frame :: "nat \<Rightarrow> relay_frame \<Rightarrow> relay \<Rightarrow> relay" where
  "serveGuest_frame c f s = (
     if fst f \<noteq> MessageBinary \<or> length (snd f) < relayEnvHeader then s
     else enqueue_to c (MessageBinary, PutUint32 (the (peerID (conn s c))) @ drop relayEnvHeader (snd f))
       (host (room s (room_ref (conn s c)))) Relaying s)"

definition serveGuest_lost :: "nat \<Rightarrow> relay \<Rightarrow> relay" where
  "serveGuest_lost c s = (let r = room_ref (conn s c); p = the (peerID (conn s c)) in
     goto c (Leaving (guests (room s r) p \<noteq> None))
       (set_room r (\<lambda>m. m\<lparr>guests := (guests m)(p := None)\<rparr>) s))"

text \<open>One event; \<open>None\<close> when the goroutine is not at that point.\<close>

fun relay_step :: "relay \<Rightarrow> relay_event \<Rightarrow> relay option" where
  "relay_step s (HostJoin c i) = (if pc (conn s c) = Fresh then Some (serveHost_join c i s) else None)"
| "relay_step s (HostFrame c f gs) = (
     if pc (conn s c) = Serving \<and> order_of gs (room s (room_ref (conn s c)))
     then Some (serveHost_frame c f gs s) else None)"
| "relay_step s (HostLost c) = (if pc (conn s c) = Serving then
       Some (goto c Draining (if rooms s (room_id (conn s c)) = Some (room_ref (conn s c))
         then s\<lparr>rooms := (rooms s)(room_id (conn s c) := None)\<rparr> else s)) else None)"
| "relay_step s (HostDrain c gs) = (
     if pc (conn s c) = Draining \<and> order_of gs (room s (room_ref (conn s c)))
     then Some (goto c (Notifying gs) (set_room (room_ref (conn s c)) (\<lambda>m. m\<lparr>guests := (\<lambda>_. None)\<rparr>) s))
     else None)"
| "relay_step s (HostNotify c) = (case pc (conn s c) of
     Notifying (g # gs) \<Rightarrow> (case enqueue (ctrlFrameNoPeer ''room-closed'') (conn s g) of
         None \<Rightarrow> Some (goto c Panicked s)
       | Some x \<Rightarrow> Some (goto c (Notifying gs) (set_conn g (\<lambda>_. ws_close 4001 x) s)))
   | _ \<Rightarrow> None)"
| "relay_step s (HostClose c) = (if pc (conn s c) = Notifying []
     then Some (set_conn c (\<lambda>x. x\<lparr>send_closed := True, pc := Gone\<rparr>) s) else None)"
| "relay_step s (GuestLookup c i) = (if pc (conn s c) = Fresh then Some (serveGuest_lookup c i s) else None)"
| "relay_step s (GuestRegister c) = (if pc (conn s c) = Found then Some (serveGuest_register c s) else None)"
| "relay_step s (GuestAnnounce c) = (if pc (conn s c) = Registered then
       Some (enqueue_to c (ctrlFrame ''peer-joined'' (the (peerID (conn s c))))
         (host (room s (room_ref (conn s c)))) Relaying s) else None)"
| "relay_step s (GuestFrame c f) = (if pc (conn s c) = Relaying then Some (serveGuest_frame c f s) else None)"
| "relay_step s (GuestLost c) = (if pc (conn s c) = Relaying then Some (serveGuest_lost c s) else None)"
| "relay_step s (GuestFarewell c) = (case pc (conn s c) of
     Leaving stillHere \<Rightarrow> Some (if stillHere
       then enqueue_to c (ctrlFrame ''peer-left'' (the (peerID (conn s c)))) (host (room s (room_ref (conn s c)))) Hanging s
       else goto c Hanging s)
   | _ \<Rightarrow> None)"
| "relay_step s (GuestClose c) = (if pc (conn s c) = Hanging
     then Some (set_conn c (\<lambda>x. x\<lparr>send_closed := True, pc := Gone\<rparr>) s) else None)"
| "relay_step s (Write c) = (case send_q (conn s c) of
     f # q \<Rightarrow> if close_code (conn s c) = None
       then Some (set_conn c (\<lambda>x. x\<lparr>send_q := q, on_socket := on_socket x @ [f]\<rparr>) s) else None
   | [] \<Rightarrow> None)"

definition relay_trans :: "relay \<Rightarrow> relay_event \<Rightarrow> relay \<Rightarrow> bool" where
  "relay_trans s e t = (relay_step s e = Some t)"

abbreviation relay_reachable :: "relay \<Rightarrow> bool" where
  "relay_reachable \<equiv> reachable (\<lambda>s. s = newRelay) relay_trans"

definition roomLive :: "relay \<Rightarrow> bytes \<Rightarrow> bool" where
  "roomLive s i = (rooms s i \<noteq> None)"

section \<open>The invariant\<close>

definition host_pc :: "relay_pc \<Rightarrow> bool" where
  "host_pc p = (p = Serving \<or> p = Draining \<or> (\<exists>gs. p = Notifying gs))"

definition in_room :: "relay_pc \<Rightarrow> bool" where
  "in_room p = (p = Registered \<or> p = Relaying)"

lemma pc_kinds [simp]:
  "host_pc Serving" "host_pc Draining" "host_pc (Notifying gs)" "\<not> host_pc Fresh" "\<not> host_pc Found"
  "\<not> host_pc Registered" "\<not> host_pc Relaying" "\<not> host_pc (Leaving b)" "\<not> host_pc Hanging"
  "\<not> host_pc Gone" "\<not> host_pc Panicked"
  "in_room Registered" "in_room Relaying" "\<not> in_room Fresh" "\<not> in_room Serving" "\<not> in_room Draining"
  "\<not> in_room (Notifying gs)" "\<not> in_room Found" "\<not> in_room (Leaving b)" "\<not> in_room Hanging"
  "\<not> in_room Gone" "\<not> in_room Panicked"
  by (simp_all add: host_pc_def in_room_def)

lemma host_not_guest: "host_pc p \<Longrightarrow> \<not> in_room p"
  by (auto simp: host_pc_def in_room_def)

text \<open>Rooms and their hosts.\<close>

definition inv_hosts :: "relay \<Rightarrow> bool" where
  "inv_hosts s = (
     (\<forall>i r. rooms s i = Some r \<longrightarrow> r < next_room s \<and> pc (conn s (host (room s r))) = Serving \<and>
        room_id (conn s (host (room s r))) = i) \<and>
     (\<forall>c. host_pc (pc (conn s c)) \<longrightarrow> room_ref (conn s c) < next_room s \<and> host (room s (room_ref (conn s c))) = c) \<and>
     (\<forall>c. pc (conn s c) = Serving \<longrightarrow> rooms s (room_id (conn s c)) = Some (room_ref (conn s c))) \<and>
     (\<forall>r. r < next_room s \<longrightarrow> room_ref (conn s (host (room s r))) = r \<and> peerID (conn s (host (room s r))) = None \<and>
        pc (conn s (host (room s r))) \<noteq> Fresh \<and> pc (conn s (host (room s r))) \<noteq> Found))"

text \<open>Guests: who is in the map is a guest of that very room with that very id and an open
  channel; channels are closed last.\<close>

definition inv_guests :: "relay \<Rightarrow> bool" where
  "inv_guests s = (
     (\<forall>r p g. guests (room s r) p = Some g \<longrightarrow> r < next_room s \<and> room_ref (conn s g) = r \<and>
        peerID (conn s g) = Some p \<and> (in_room (pc (conn s g)) \<or> pc (conn s g) = Panicked)) \<and>
     (\<forall>c. send_closed (conn s c) \<longrightarrow> pc (conn s c) = Gone) \<and>
     (\<forall>c. pc (conn s c) = Found \<or> peerID (conn s c) \<noteq> None \<longrightarrow> room_ref (conn s c) < next_room s) \<and>
     (\<forall>c. pc (conn s c) = Fresh \<or> pc (conn s c) = Found \<or> host_pc (pc (conn s c)) \<longrightarrow> peerID (conn s c) = None) \<and>
     (\<forall>c. in_room (pc (conn s c)) \<longrightarrow> peerID (conn s c) \<noteq> None))"

text \<open>Peer ids, as long as a room has had fewer than \<open>2^32 - 1\<close> guests.\<close>

definition few_joined :: "relay_room \<Rightarrow> bool" where
  "few_joined r = (joined r < 2 ^ 32 - 1)"

definition inv_ids :: "relay \<Rightarrow> bool" where
  "inv_ids s = (
     (\<forall>r. r < next_room s \<longrightarrow> next_id (room s r) = of_nat (Suc (joined (room s r)))) \<and>
     (\<forall>c p. peerID (conn s c) = Some p \<and> few_joined (room s (room_ref (conn s c))) \<longrightarrow>
        1 \<le> unat p \<and> unat p \<le> joined (room s (room_ref (conn s c)))) \<and>
     (\<forall>c d p. peerID (conn s c) = Some p \<and> peerID (conn s d) = Some p \<and>
        room_ref (conn s c) = room_ref (conn s d) \<and> few_joined (room s (room_ref (conn s c))) \<longrightarrow> c = d))"

definition relay_inv :: "relay \<Rightarrow> bool" where
  "relay_inv s = (inv_hosts s \<and> inv_guests s \<and> inv_ids s)"

text \<open>The invariant does not look at what is in the channels.\<close>

definition same_skeleton :: "relay_conn \<Rightarrow> relay_conn \<Rightarrow> bool" where
  "same_skeleton x y = (pc x = pc y \<and> room_id x = room_id y \<and> room_ref x = room_ref y \<and>
     peerID x = peerID y \<and> send_closed x = send_closed y)"

lemma enqueue_skeleton: "enqueue f x = Some y \<Longrightarrow> same_skeleton y x"
  by (auto simp: enqueue_def same_skeleton_def ws_close_def split: if_splits)

lemma ws_close_skeleton: "same_skeleton y x \<Longrightarrow> same_skeleton (ws_close n y) x"
  by (simp add: same_skeleton_def ws_close_def)

lemma enqueue_None: "enqueue f x = None \<longleftrightarrow> send_closed x"
  by (simp add: enqueue_def)

lemma set_conn_simps [simp]:
  "rooms (set_conn c f s) = rooms s" "room (set_conn c f s) = room s" "next_room (set_conn c f s) = next_room s"
  "conn (set_conn c f s) c = f (conn s c)" "d \<noteq> c \<Longrightarrow> conn (set_conn c f s) d = conn s d"
  by (simp_all add: set_conn_def)

lemma set_room_simps [simp]:
  "rooms (set_room r f s) = rooms s" "conn (set_room r f s) = conn s" "next_room (set_room r f s) = next_room s"
  "room (set_room r f s) r = f (room s r)" "q \<noteq> r \<Longrightarrow> room (set_room r f s) q = room s q"
  by (simp_all add: set_room_def)

lemma goto_simps [simp]:
  "rooms (goto c p s) = rooms s" "room (goto c p s) = room s" "next_room (goto c p s) = next_room s"
  "pc (conn (goto c p s) c) = p" "d \<noteq> c \<Longrightarrow> conn (goto c p s) d = conn s d"
  "room_id (conn (goto c p s) d) = room_id (conn s d)" "room_ref (conn (goto c p s) d) = room_ref (conn s d)"
  "peerID (conn (goto c p s) d) = peerID (conn s d)" "send_closed (conn (goto c p s) d) = send_closed (conn s d)"
  "send_q (conn (goto c p s) d) = send_q (conn s d)" "on_socket (conn (goto c p s) d) = on_socket (conn s d)"
  "close_code (conn (goto c p s) d) = close_code (conn s d)"
  by (simp_all add: goto_def set_conn_def)

lemma goto_pc: "pc (conn (goto c p s) d) = (if d = c then p else pc (conn s d))"
  by simp

lemma inv_queue:
  assumes "same_skeleton x (conn s d)"
  shows "relay_inv (set_conn d (\<lambda>_. x) s) = relay_inv s"
proof -
  have "pc (conn (set_conn d (\<lambda>_. x) s) c) = pc (conn s c)"
    "room_id (conn (set_conn d (\<lambda>_. x) s) c) = room_id (conn s c)"
    "room_ref (conn (set_conn d (\<lambda>_. x) s) c) = room_ref (conn s c)"
    "peerID (conn (set_conn d (\<lambda>_. x) s) c) = peerID (conn s c)"
    "send_closed (conn (set_conn d (\<lambda>_. x) s) c) = send_closed (conn s c)" for c
    using assms by (cases "c = d"; simp add: same_skeleton_def)+
  then show ?thesis
    by (simp add: relay_inv_def inv_hosts_def inv_guests_def inv_ids_def)
qed

text \<open>Where a goroutine may go without touching rooms.\<close>

definition moves :: "relay_pc \<Rightarrow> relay_pc \<Rightarrow> bool" where
  "moves p q = (
     (host_pc p \<and> p \<noteq> Serving \<and> (q = Panicked \<or> (host_pc q \<and> q \<noteq> Serving))) \<or>
     (in_room p \<and> (q = Relaying \<or> q = Panicked)) \<or>
     ((\<exists>b. p = Leaving b) \<and> (q = Hanging \<or> q = Panicked)))"

lemma inv_goto:
  assumes "relay_inv s" and "moves (pc (conn s c)) q"
  shows "relay_inv (goto c q s)"
proof -
  have q: "q \<noteq> Serving" "q \<noteq> Fresh" "q \<noteq> Found" "q \<noteq> Gone" and p: "pc (conn s c) \<noteq> Serving"
    "pc (conn s c) \<noteq> Gone" "pc (conn s c) \<noteq> Panicked" "host_pc q \<Longrightarrow> host_pc (pc (conn s c))"
    "in_room q \<Longrightarrow> in_room (pc (conn s c))" "in_room (pc (conn s c)) \<Longrightarrow> in_room q \<or> q = Panicked"
    using assms(2) host_not_guest by (auto simp: moves_def)
  have "inv_hosts (goto c q s)"
    using assms(1) q p unfolding relay_inv_def inv_hosts_def by (auto simp: goto_pc)
  moreover have "inv_guests (goto c q s)"
    using assms(1) q p unfolding relay_inv_def inv_guests_def by (auto simp: goto_pc)
  moreover have "inv_ids (goto c q s)"
    using assms(1) unfolding relay_inv_def inv_ids_def by auto
  ultimately show ?thesis by (simp add: relay_inv_def)
qed

lemma enqueue_to_cases:
  assumes "relay_inv s" and "moves (pc (conn s c)) q" and "c \<noteq> d"
  shows "relay_inv (enqueue_to c f d q s)"
proof (cases "enqueue f (conn s d)")
  case None
  have "moves (pc (conn s c)) Panicked" using assms(2) by (auto simp: moves_def)
  then show ?thesis using inv_goto [OF assms(1)] None by (simp add: enqueue_to_def)
next
  case (Some x)
  have "relay_inv (set_conn d (\<lambda>_. x) s)"
    using inv_queue [OF enqueue_skeleton [OF Some]] assms(1) by simp
  then show ?thesis
    using inv_goto [of "set_conn d (\<lambda>_. x) s" c q] assms(2,3) Some by (simp add: enqueue_to_def)
qed

text \<open>A broadcast inside the room's lock: no guest's channel is closed, so nothing panics.\<close>

lemma enqueue_all_open:
  assumes "\<forall>g\<in>set gs. \<not> send_closed (conn s g)"
  shows "\<exists>F. enqueue_all c f gs s = s\<lparr>conn := F\<rparr> \<and> (\<forall>d. same_skeleton (F d) (conn s d)) \<and>
    (\<forall>d. d \<notin> set gs \<longrightarrow> F d = conn s d)"
  using assms
proof (induction gs arbitrary: s)
  case Nil
  then show ?case by (intro exI [of _ "conn s"]) (cases s, simp add: same_skeleton_def)
next
  case (Cons g gs)
  obtain x where x: "enqueue f (conn s g) = Some x"
    using Cons.prems by (cases "enqueue f (conn s g)") (auto simp: enqueue_None)
  have k: "same_skeleton x (conn s g)" by (rule enqueue_skeleton [OF x])
  let ?s = "set_conn g (\<lambda>_. x) s"
  have "\<forall>d\<in>set gs. \<not> send_closed (conn ?s d)"
  proof
    fix d assume "d \<in> set gs"
    then show "\<not> send_closed (conn ?s d)"
      using Cons.prems k by (cases "d = g") (simp_all add: same_skeleton_def)
  qed
  from Cons.IH [OF this] obtain F where
    F: "enqueue_all c f gs ?s = ?s\<lparr>conn := F\<rparr>" "\<forall>d. same_skeleton (F d) (conn ?s d)"
      "\<forall>d. d \<notin> set gs \<longrightarrow> F d = conn ?s d" by blast
  have "same_skeleton (F d) (conn s d)" for d
    using F(2) k by (cases "d = g") (auto simp: same_skeleton_def dest: spec [of _ d])
  moreover have "F d = conn s d" if "d \<notin> set (g # gs)" for d
    using F(3) that by simp
  ultimately show ?case
    using F(1) x by (intro exI [of _ F]) (simp add: set_conn_def)
qed

lemma inv_skeleton:
  assumes "\<forall>d. same_skeleton (F d) (conn s d)"
  shows "relay_inv (s\<lparr>conn := F\<rparr>) = relay_inv s"
proof -
  have "pc (F c) = pc (conn s c)" "room_id (F c) = room_id (conn s c)" "room_ref (F c) = room_ref (conn s c)"
    "peerID (F c) = peerID (conn s c)" "send_closed (F c) = send_closed (conn s c)" for c
    using assms by (simp_all add: same_skeleton_def)
  then show ?thesis
    by (simp add: relay_inv_def inv_hosts_def inv_guests_def inv_ids_def)
qed

lemma guest_open:
  assumes "relay_inv s" and "guests (room s r) p = Some g"
  shows "\<not> send_closed (conn s g)"
proof
  assume c: "send_closed (conn s g)"
  have "in_room (pc (conn s g)) \<or> pc (conn s g) = Panicked"
    using assms unfolding relay_inv_def inv_guests_def by blast
  moreover have "pc (conn s g) = Gone"
    using c assms(1) unfolding relay_inv_def inv_guests_def by blast
  ultimately show False by auto
qed

lemma inv_host_frame:
  assumes "relay_inv s" and "order_of gs (room s (room_ref (conn s c)))"
  shows "relay_inv (serveHost_frame c f gs s)"
proof -
  let ?r = "room s (room_ref (conn s c))"
  have o: "\<forall>g\<in>set gs. \<not> send_closed (conn s g)"
    using assms guest_open by (auto simp: order_of_def ran_def)
  have "relay_inv (enqueue_all c h hs s)" if "\<forall>g\<in>set hs. \<not> send_closed (conn s g)" for h hs
    using enqueue_all_open [OF that, of c h] inv_skeleton assms(1) by force
  from this [OF o] this [of "[g]" for g] show ?thesis
    using guest_open [OF assms(1)] assms(1)
    by (auto simp: serveHost_frame_def Let_def split: option.split simp del: enqueue_all.simps)
qed

lemma inv_parts: "relay_inv s \<Longrightarrow> inv_hosts s" "relay_inv s \<Longrightarrow> inv_guests s" "relay_inv s \<Longrightarrow> inv_ids s"
  by (simp_all add: relay_inv_def)

lemma guest_in_map:
  "inv_guests s \<Longrightarrow> guests (room s r) p = Some g \<Longrightarrow>
   r < next_room s \<and> room_ref (conn s g) = r \<and> peerID (conn s g) = Some p \<and>
   (in_room (pc (conn s g)) \<or> pc (conn s g) = Panicked)"
  unfolding inv_guests_def by blast

text \<open>Ending a connection outside any room, or after its last use of the room.\<close>

lemma inv_gone:
  assumes "relay_inv s"
    and "pc (conn s c) = Fresh \<or> pc (conn s c) = Notifying [] \<or> pc (conn s c) = Hanging"
    and x: "pc x = Gone" "room_ref x = room_ref (conn s c)" "peerID x = peerID (conn s c)"
  shows "relay_inv (set_conn c (\<lambda>_. x) s)"
proof -
  let ?t = "set_conn c (\<lambda>_. x) s"
  have f: "pc (conn ?t d) = (if d = c then Gone else pc (conn s d))"
    "room_ref (conn ?t d) = room_ref (conn s d)" "peerID (conn ?t d) = peerID (conn s d)"
    "d \<noteq> c \<Longrightarrow> conn ?t d = conn s d" for d
    using x by (simp_all add: set_conn_def)
  have p: "\<not> in_room (pc (conn s c))" "pc (conn s c) \<noteq> Panicked" "pc (conn s c) \<noteq> Serving"
    using assms(2) by auto
  then have n: "guests (room s r) q \<noteq> Some c" for r q
    using guest_in_map [OF inv_parts(2) [OF assms(1)], of r q c] by blast
  have "inv_hosts ?t"
    using inv_parts(1) [OF assms(1)] p unfolding inv_hosts_def by (auto simp: f)
  moreover have "inv_guests ?t"
    using inv_parts(2) [OF assms(1)] p n unfolding inv_guests_def by (auto simp: f)
  moreover have "inv_ids ?t"
    using inv_parts(3) [OF assms(1)] unfolding inv_ids_def by (auto simp: f)
  ultimately show ?thesis by (simp add: relay_inv_def)
qed

lemma inv_lookup:
  assumes "relay_inv s" and "pc (conn s c) = Fresh" and "rooms s i = Some r"
  shows "relay_inv (set_conn c (\<lambda>x. x\<lparr>pc := Found, room_id := i, room_ref := r\<rparr>) s)"
proof -
  let ?t = "set_conn c (\<lambda>x. x\<lparr>pc := Found, room_id := i, room_ref := r\<rparr>) s"
  have f: "pc (conn ?t d) = (if d = c then Found else pc (conn s d))"
    "room_ref (conn ?t d) = (if d = c then r else room_ref (conn s d))"
    "room_id (conn ?t d) = (if d = c then i else room_id (conn s d))"
    "peerID (conn ?t d) = peerID (conn s d)" "send_closed (conn ?t d) = send_closed (conn s d)"
    "room ?t = room s" for d
    by (simp_all add: set_conn_def)
  have r: "r < next_room s" and h: "\<And>q. q < next_room s \<Longrightarrow> host (room s q) \<noteq> c"
    using inv_parts(1) [OF assms(1)] assms(2,3) unfolding inv_hosts_def by metis+
  have n: "guests (room s q) p \<noteq> Some c" for p q
    using guest_in_map [OF inv_parts(2) [OF assms(1)], of q p c] assms(2) by auto
  have k: "peerID (conn s c) = None"
    using inv_parts(2) [OF assms(1)] assms(2) unfolding inv_guests_def by blast
  have g: "peerID (conn s d) = Some p \<Longrightarrow> room_ref (conn ?t d) = room_ref (conn s d)" for d p
    using k by (auto simp: f)
  have "inv_hosts ?t"
    using inv_parts(1) [OF assms(1)] h assms(2) unfolding inv_hosts_def by (auto simp: f)
  moreover have "inv_guests ?t"
    using inv_parts(2) [OF assms(1)] n r k assms(2) unfolding inv_guests_def by (auto simp: f)
  moreover have "inv_ids ?t"
    using inv_parts(3) [OF assms(1)] unfolding inv_ids_def
    by (simp add: f(4,6) g cong: conj_cong)
  ultimately show ?thesis by (simp add: relay_inv_def)
qed

lemma unat_id: "n < 2 ^ 32 - 1 \<Longrightarrow> unat (of_nat n :: 32 word) = n"
  by (simp add: unat_of_nat)

lemma inv_join:
  assumes "relay_inv s" and "pc (conn s c) = Fresh" and "rooms s i = None"
  shows "relay_inv (serveHost_join c i s)"
proof -
  let ?t = "serveHost_join c i s" and ?r = "next_room s"
  have f: "pc (conn ?t d) = (if d = c then Serving else pc (conn s d))"
    "room_ref (conn ?t d) = (if d = c then ?r else room_ref (conn s d))"
    "room_id (conn ?t d) = (if d = c then i else room_id (conn s d))"
    "peerID (conn ?t d) = peerID (conn s d)" "send_closed (conn ?t d) = send_closed (conn s d)"
    "rooms ?t = (rooms s)(i \<mapsto> ?r)" "next_room ?t = Suc ?r"
    "room ?t q = (if q = ?r then \<lparr>host = c, guests = (\<lambda>_. None), next_id = 1, joined = 0\<rparr> else room s q)"
    for d q
    using assms(3) by (simp_all add: serveHost_join_def set_conn_def Let_def)
  note H = inv_parts(1) [OF assms(1), unfolded inv_hosts_def]
    and G = inv_parts(2) [OF assms(1), unfolded inv_guests_def]
  have h: "\<And>q. q < ?r \<Longrightarrow> host (room s q) \<noteq> c" and hr: "\<And>j q. rooms s j = Some q \<Longrightarrow> q < ?r"
    using H assms(2) by metis+
  have n: "guests (room s q) p \<noteq> Some c" for p q
    using guest_in_map [OF inv_parts(2) [OF assms(1)], of q p c] assms(2) by auto
  have k: "peerID (conn s c) = None" using G assms(2) by blast
  have sc: "\<not> send_closed (conn s c)" using G assms(2) by force
  have kr: "room_ref (conn s d) < ?r" if "peerID (conn s d) = Some p" for d p
    using G that by blast
  have hc: "\<And>d. host_pc (pc (conn s d)) \<Longrightarrow> room_ref (conn s d) < ?r" using H by blast
  have hn: "room_ref (conn s d) \<noteq> ?r" if "host_pc (pc (conn s d))" for d
    using hc [OF that] by simp
  have g: "room_ref (conn ?t d) = room_ref (conn s d)" "room ?t (room_ref (conn s d)) = room s (room_ref (conn s d))"
    if "peerID (conn s d) = Some p" for d p
    using kr [OF that] k that by (auto simp: f)
  have nx: "(\<forall>q. q < Suc ?r \<longrightarrow> next_id (room ?t q) = of_nat (Suc (joined (room ?t q)))) =
      (\<forall>q. q < ?r \<longrightarrow> next_id (room s q) = of_nat (Suc (joined (room s q))))"
    by (auto simp: f(8) less_Suc_eq simp del: of_nat_Suc) (simp add: f)
  have s: "rooms s (room_id (conn s d)) = Some (room_ref (conn s d))" if "pc (conn s d) = Serving" for d
    using H that by blast
  have "inv_hosts ?t" unfolding inv_hosts_def
  proof (intro conjI)
    show "\<forall>j q. rooms ?t j = Some q \<longrightarrow> q < next_room ?t \<and> pc (conn ?t (host (room ?t q))) = Serving \<and>
        room_id (conn ?t (host (room ?t q))) = j"
      using H h hr by (auto simp: f less_Suc_eq dest: less_not_refl2)
    show "\<forall>d. host_pc (pc (conn ?t d)) \<longrightarrow> room_ref (conn ?t d) < next_room ?t \<and> host (room ?t (room_ref (conn ?t d))) = d"
      using H hc hn by (auto simp: f less_Suc_eq)
    show "\<forall>d. pc (conn ?t d) = Serving \<longrightarrow> rooms ?t (room_id (conn ?t d)) = Some (room_ref (conn ?t d))"
      using s assms(3) by (auto simp: f)
    show "\<forall>q. q < next_room ?t \<longrightarrow> room_ref (conn ?t (host (room ?t q))) = q \<and> peerID (conn ?t (host (room ?t q))) = None \<and>
        pc (conn ?t (host (room ?t q))) \<noteq> Fresh \<and> pc (conn ?t (host (room ?t q))) \<noteq> Found"
      using H h k by (auto simp: f less_Suc_eq)
  qed
  moreover have "inv_guests ?t"
    using G n k sc unfolding inv_guests_def by (auto simp: f less_Suc_eq)
  moreover have "inv_ids ?t"
    using inv_parts(3) [OF assms(1)] unfolding inv_ids_def
    by (simp add: f(4,7) g nx del: of_nat_Suc cong: conj_cong)
  ultimately show ?thesis by (simp add: relay_inv_def)
qed

lemma inv_host_lost:
  assumes "relay_inv s" and "pc (conn s c) = Serving"
  shows "rooms s (room_id (conn s c)) = Some (room_ref (conn s c))"
    and "relay_inv (goto c Draining (s\<lparr>rooms := (rooms s)(room_id (conn s c) := None)\<rparr>))"
proof -
  let ?t = "goto c Draining (s\<lparr>rooms := (rooms s)(room_id (conn s c) := None)\<rparr>)"
  have f: "pc (conn ?t d) = (if d = c then Draining else pc (conn s d))"
    "room_ref (conn ?t d) = room_ref (conn s d)" "room_id (conn ?t d) = room_id (conn s d)"
    "peerID (conn ?t d) = peerID (conn s d)" "send_closed (conn ?t d) = send_closed (conn s d)"
    "rooms ?t = (rooms s)(room_id (conn s c) := None)" "next_room ?t = next_room s" "room ?t = room s" for d
    by (simp_all add: goto_def set_conn_def)
  note H = inv_parts(1) [OF assms(1), unfolded inv_hosts_def]
  show r: "rooms s (room_id (conn s c)) = Some (room_ref (conn s c))" using H assms(2) by blast
  have n: "guests (room s q) p \<noteq> Some c" for p q
    using guest_in_map [OF inv_parts(2) [OF assms(1)], of q p c] assms(2) by auto
  have hp: "host_pc (pc (conn s c))" using assms(2) by simp
  then have hc: "room_ref (conn s c) < next_room s" "host (room s (room_ref (conn s c))) = c"
    using H by blast+
  have k: "peerID (conn s c) = None" "\<not> send_closed (conn s c)"
    using inv_parts(2) [OF assms(1), unfolded inv_guests_def] hp assms(2) by (blast, force)
  have e: "host (room s (room_ref (conn s d))) = d" if "pc (conn s d) = Serving" for d
    using H that by (metis pc_kinds(1))
  have u: "d = c" if "pc (conn s d) = Serving" "room_id (conn s d) = room_id (conn s c)" for d
    using H that r e assms(2) by (metis option.inject)
  have v: "host (room s q) \<noteq> c" if "rooms s j = Some q" "j \<noteq> room_id (conn s c)" for j q
    using H that by blast
  have "inv_hosts ?t" using H u v hc unfolding inv_hosts_def by (auto simp: f)
  moreover have "inv_guests ?t"
    using inv_parts(2) [OF assms(1)] assms(2) n k unfolding inv_guests_def by (auto simp: f)
  moreover have "inv_ids ?t" using inv_parts(3) [OF assms(1)] unfolding inv_ids_def by (simp add: f)
  ultimately show "relay_inv ?t" by (simp add: relay_inv_def)
qed

lemma inv_fewer_guests:
  assumes "relay_inv s" and "\<forall>p g. m p = Some g \<longrightarrow> guests (room s r) p = Some g"
  shows "relay_inv (set_room r (\<lambda>x. x\<lparr>guests := m\<rparr>) s)"
proof -
  let ?t = "set_room r (\<lambda>x. x\<lparr>guests := m\<rparr>) s"
  have f: "host (room ?t q) = host (room s q)" "joined (room ?t q) = joined (room s q)"
    "next_id (room ?t q) = next_id (room s q)"
    "guests (room ?t q) p = Some g \<Longrightarrow> guests (room s q) p = Some g" for q p g
    using assms(2) by (auto simp: set_room_def split: if_splits)
  have "inv_guests ?t"
    using inv_parts(2) [OF assms(1)] unfolding inv_guests_def by (auto dest!: f(4))
  then show ?thesis
    using assms(1) by (simp add: relay_inv_def inv_hosts_def inv_ids_def few_joined_def f(1,2,3))
qed

lemma inv_register:
  assumes "relay_inv s" and "pc (conn s c) = Found"
  shows "relay_inv (serveGuest_register c s)"
proof -
  let ?t = "serveGuest_register c s" and ?r = "room_ref (conn s c)"
  let ?p = "next_id (room s ?r)"
  have f: "pc (conn ?t d) = (if d = c then Registered else pc (conn s d))"
    "room_ref (conn ?t d) = room_ref (conn s d)" "room_id (conn ?t d) = room_id (conn s d)"
    "peerID (conn ?t d) = (if d = c then Some ?p else peerID (conn s d))"
    "send_closed (conn ?t d) = send_closed (conn s d)"
    "rooms ?t = rooms s" "next_room ?t = next_room s" "host (room ?t q) = host (room s q)"
    "joined (room ?t q) = (if q = ?r then Suc (joined (room s q)) else joined (room s q))"
    "next_id (room ?t q) = (if q = ?r then next_id (room s q) + 1 else next_id (room s q))"
    "guests (room ?t q) = (if q = ?r then (guests (room s q))(?p \<mapsto> c) else guests (room s q))" for d q
    by (simp_all add: serveGuest_register_def set_conn_def set_room_def Let_def)
  note H = inv_parts(1) [OF assms(1), unfolded inv_hosts_def]
    and G = inv_parts(2) [OF assms(1), unfolded inv_guests_def]
    and I = inv_parts(3) [OF assms(1), unfolded inv_ids_def]
  have r: "?r < next_room s" and k: "peerID (conn s c) = None" and sc: "\<not> send_closed (conn s c)"
    using G assms(2) by (blast, blast, force)
  have h: "\<And>q. q < next_room s \<Longrightarrow> host (room s q) \<noteq> c" using H assms(2) by metis
  have n: "guests (room s q) p \<noteq> Some c" for p q
    using guest_in_map [OF inv_parts(2) [OF assms(1)], of q p c] assms(2) by auto
  have p: "?p = of_nat (Suc (joined (room s ?r)))" using I r by blast
  have "inv_hosts ?t"
    using H h assms(2) unfolding inv_hosts_def by (auto simp: f)
  moreover have "inv_guests ?t"
    using G n r k sc assms(2) unfolding inv_guests_def by (auto simp: f)
  moreover have "inv_ids ?t" unfolding inv_ids_def
  proof (intro conjI allI impI)
    fix q assume "q < next_room ?t"
    then have "next_id (room s q) = of_nat (Suc (joined (room s q)))" using I by (simp add: f)
    then show "next_id (room ?t q) = of_nat (Suc (joined (room ?t q)))"
      by (auto simp: f(9,10))
  next
    fix d p' assume a: "peerID (conn ?t d) = Some p' \<and> few_joined (room ?t (room_ref (conn ?t d)))"
    have "1 \<le> unat p' \<and> unat p' \<le> joined (room ?t (room_ref (conn ?t d)))"
    proof (cases "d = c")
      case True
      then have "p' = of_nat (Suc (joined (room s ?r)))" "Suc (joined (room s ?r)) < 2 ^ 32 - 1"
        using a by (simp_all add: f p few_joined_def del: of_nat_Suc)
      then have "unat p' = Suc (joined (room s ?r))" using unat_id by (simp del: of_nat_Suc)
      then show ?thesis using True by (simp add: f)
    next
      case False
      then have "peerID (conn s d) = Some p'" "few_joined (room s (room_ref (conn s d)))"
        using a by (auto simp: f few_joined_def split: if_splits)
      then have "1 \<le> unat p' \<and> unat p' \<le> joined (room s (room_ref (conn s d)))" using I by blast
      then show ?thesis by (auto simp: f)
    qed
    then show "1 \<le> unat p'" "unat p' \<le> joined (room ?t (room_ref (conn ?t d)))" by blast+
  next
    fix d e p' assume a: "peerID (conn ?t d) = Some p' \<and> peerID (conn ?t e) = Some p' \<and>
        room_ref (conn ?t d) = room_ref (conn ?t e) \<and> few_joined (room ?t (room_ref (conn ?t d)))"
    have old: "False" if "peerID (conn s x) = Some ?p" "room_ref (conn s x) = ?r" "few_joined (room ?t ?r)" for x
    proof -
      have fj: "few_joined (room s (room_ref (conn s x)))"
        using that(2,3) by (simp add: few_joined_def f)
      have "unat ?p \<le> joined (room s (room_ref (conn s x)))" using I that(1) fj by blast
      then have "unat ?p \<le> joined (room s ?r)" by (simp only: that(2))
      moreover have "Suc (joined (room s ?r)) < 2 ^ 32 - 1"
        using that(3) by (simp add: few_joined_def f)
      then have "unat ?p = Suc (joined (room s ?r))" unfolding p by (rule unat_id)
      ultimately show False by simp
    qed
    show "d = e"
    proof (rule ccontr)
      assume de: "d \<noteq> e"
      have rr: "room_ref (conn s d) = room_ref (conn s e)" and fw: "few_joined (room ?t (room_ref (conn s d)))"
        and pd: "peerID (conn ?t d) = Some p'" and pe: "peerID (conn ?t e) = Some p'"
        using a unfolding f(2) by blast+
      have "d \<noteq> c"
      proof
        assume d: "d = c"
        then have "p' = ?p" "peerID (conn s e) = Some p'" using pd pe de by (simp_all add: f(4))
        then have "peerID (conn s e) = Some ?p" "room_ref (conn s e) = ?r" "few_joined (room ?t ?r)"
          using rr fw d by simp_all
        then show False by (rule old)
      qed
      moreover have "e \<noteq> c"
      proof
        assume e: "e = c"
        then have "p' = ?p" "peerID (conn s d) = Some p'" using pd pe de by (simp_all add: f(4))
        then have "peerID (conn s d) = Some ?p" "room_ref (conn s d) = ?r" "few_joined (room ?t ?r)"
          using rr fw e by simp_all
        then show False by (rule old)
      qed
      ultimately have "peerID (conn s d) = Some p'" "peerID (conn s e) = Some p'"
        "room_ref (conn s d) = room_ref (conn s e)" "few_joined (room s (room_ref (conn s d)))"
        using a by (auto simp: f few_joined_def split: if_splits)
      then show False using I de by blast
    qed
  qed
  ultimately show ?thesis by (simp add: relay_inv_def)
qed

lemma host_not_guest_conn:
  assumes "relay_inv s" and "peerID (conn s c) \<noteq> None"
  shows "host (room s (room_ref (conn s c))) \<noteq> c"
proof -
  have "room_ref (conn s c) < next_room s"
    using inv_parts(2) [OF assms(1)] assms(2) unfolding inv_guests_def by blast
  then have "peerID (conn s (host (room s (room_ref (conn s c))))) = None"
    using inv_parts(1) [OF assms(1)] unfolding inv_hosts_def by blast
  with assms(2) show ?thesis by metis
qed

lemma in_room_peerID: "relay_inv s \<Longrightarrow> in_room (pc (conn s c)) \<Longrightarrow> peerID (conn s c) \<noteq> None"
  using inv_parts(2) unfolding inv_guests_def by blast

lemma set_room_id: "set_room r (\<lambda>m. m\<lparr>guests := G m\<rparr>) s = set_room r (\<lambda>m. m\<lparr>guests := G (room s r)\<rparr>) s"
  by (simp add: set_room_def)

lemma inv_leave:
  assumes "relay_inv s" and "pc (conn s c) = Relaying" and n: "\<And>r p. guests (room s r) p \<noteq> Some c"
  shows "relay_inv (goto c (Leaving b) s)"
proof -
  have h: "\<not> host_pc (pc (conn s c))" "pc (conn s c) \<noteq> Serving" "pc (conn s c) \<noteq> Gone"
    using assms(2) by simp_all
  have "inv_hosts (goto c (Leaving b) s)"
    using inv_parts(1) [OF assms(1)] h unfolding inv_hosts_def by (auto simp: goto_pc)
  moreover have "inv_guests (goto c (Leaving b) s)"
    using inv_parts(2) [OF assms(1)] h n unfolding inv_guests_def by (auto simp: goto_pc)
  moreover have "inv_ids (goto c (Leaving b) s)"
    using inv_parts(3) [OF assms(1)] unfolding inv_ids_def by simp
  ultimately show ?thesis by (simp add: relay_inv_def)
qed

lemma inv_guest_lost:
  assumes "relay_inv s" and "pc (conn s c) = Relaying"
  shows "relay_inv (serveGuest_lost c s)"
proof -
  let ?r = "room_ref (conn s c)" and ?p = "the (peerID (conn s c))"
  let ?s = "set_room ?r (\<lambda>m. m\<lparr>guests := (guests (room s ?r))(?p := None)\<rparr>) s"
  let ?t = "goto c (Leaving (guests (room s ?r) ?p \<noteq> None)) ?s"
  have t: "serveGuest_lost c s = ?t"
    unfolding serveGuest_lost_def Let_def by (subst set_room_id) (rule refl)
  have i: "relay_inv ?s" by (rule inv_fewer_guests [OF assms(1)]) auto
  have pid: "peerID (conn s c) = Some ?p" using in_room_peerID [OF assms(1), of c] assms(2) by auto
  have n: "guests (room ?s q) p \<noteq> Some c" for q p
  proof
    assume g: "guests (room ?s q) p = Some c"
    then have "q = ?r" "p = ?p"
      using guest_in_map [OF inv_parts(2) [OF i] g] pid by auto
    with g show False by simp
  qed
  have "pc (conn ?s c) = Relaying" using assms(2) by simp
  from inv_leave [OF i this] n show ?thesis by (simp add: t)
qed

lemma peerID_left:
  assumes "relay_inv s" "pc (conn s c) = Leaving b" "b" "host (room s (room_ref (conn s c))) = c"
  shows "relay_inv (enqueue_to c f c Hanging s)"
proof (cases "enqueue f (conn s c)")
  case None
  then show ?thesis using assms by (auto simp: enqueue_to_def moves_def intro!: inv_goto)
next
  case (Some x)
  note k = enqueue_skeleton [OF Some]
  have "relay_inv (set_conn c (\<lambda>_. x) s)" using inv_queue [OF k] assms(1) by simp
  moreover have "moves (pc (conn (set_conn c (\<lambda>_. x) s) c)) Hanging"
    using k assms(2) by (simp add: same_skeleton_def moves_def)
  ultimately show ?thesis using inv_goto Some by (simp add: enqueue_to_def)
qed

theorem relay_step_inv:
  assumes "relay_inv s" and "relay_step s e = Some t"
  shows "relay_inv t"
proof (cases e)
  case (HostJoin c i)
  then show ?thesis
    using assms inv_join [OF assms(1)] inv_gone [OF assms(1), of c "(ws_close 4009 (conn s c))\<lparr>pc := Gone\<rparr>"]
    by (cases "rooms s i") (auto simp: serveHost_join_def set_conn_def ws_close_def split: if_splits)
next
  case (HostFrame c f gs)
  then show ?thesis using assms(2) inv_host_frame [OF assms(1), of gs c f] by (auto split: if_splits)
next
  case (HostLost c)
  then show ?thesis using assms inv_host_lost [OF assms(1)] by (auto split: if_splits)
next
  case (HostDrain c gs)
  let ?s = "set_room (room_ref (conn s c)) (\<lambda>m. m\<lparr>guests := (\<lambda>_. None)\<rparr>) s"
  have "relay_inv ?s" by (rule inv_fewer_guests [OF assms(1)]) simp
  then show ?thesis
    using assms HostDrain by (auto simp: moves_def split: if_splits intro!: inv_goto)
next
  case (HostNotify c)
  then obtain g gs where p: "pc (conn s c) = Notifying (g # gs)"
    using assms(2) by (auto split: relay_pc.splits list.splits)
  show ?thesis
  proof (cases "enqueue (ctrlFrameNoPeer ''room-closed'') (conn s g)")
    case None
    then show ?thesis using assms HostNotify p by (auto simp: moves_def intro!: inv_goto)
  next
    case (Some x)
    have k: "same_skeleton (ws_close 4001 x) (conn s g)"
      by (rule ws_close_skeleton [OF enqueue_skeleton [OF Some]])
    let ?s = "set_conn g (\<lambda>_. ws_close 4001 x) s"
    have "relay_inv ?s" using inv_queue [OF k] assms(1) by simp
    moreover have "pc (conn ?s c) = Notifying (g # gs)"
      using k p by (cases "g = c") (auto simp: same_skeleton_def)
    ultimately have "relay_inv (goto c (Notifying gs) ?s)" by (intro inv_goto) (auto simp: moves_def)
    then show ?thesis using assms HostNotify p Some by simp
  qed
next
  case (HostClose c)
  then show ?thesis
    using assms inv_gone [OF assms(1), of c "(conn s c)\<lparr>send_closed := True, pc := Gone\<rparr>"]
    by (auto simp: set_conn_def split: if_splits)
next
  case (GuestLookup c i)
  then show ?thesis
    using assms inv_lookup [OF assms(1)] inv_gone [OF assms(1), of c "(ws_close 4004 (conn s c))\<lparr>pc := Gone\<rparr>"]
    by (cases "rooms s i") (auto simp: serveGuest_lookup_def set_conn_def ws_close_def split: if_splits)
next
  case (GuestRegister c)
  then show ?thesis using assms inv_register by (auto split: if_splits)
next
  case (GuestAnnounce c)
  then show ?thesis
    using assms in_room_peerID [OF assms(1), of c] host_not_guest_conn [OF assms(1), of c]
    by (auto simp: moves_def split: if_splits intro!: enqueue_to_cases)
next
  case (GuestFrame c f)
  then show ?thesis
    using assms in_room_peerID [OF assms(1), of c] host_not_guest_conn [OF assms(1), of c]
    by (auto simp: moves_def serveGuest_frame_def split: if_splits intro!: enqueue_to_cases)
next
  case (GuestLost c)
  then show ?thesis using assms inv_guest_lost by (auto split: if_splits)
next
  case (GuestFarewell c)
  then obtain b where b: "pc (conn s c) = Leaving b" using assms(2) by (auto split: relay_pc.splits)
  have m: "moves (pc (conn s c)) Hanging" using b by (simp add: moves_def)
  show ?thesis
  proof (cases "host (room s (room_ref (conn s c))) = c")
    case True
    then show ?thesis
      using assms GuestFarewell b peerID_left [OF assms(1) b, of "ctrlFrame ''peer-left'' (the (peerID (conn s c)))"] inv_goto [OF assms(1) m]
      by (auto split: if_splits)
  next
    case False
    then show ?thesis
      using assms GuestFarewell b enqueue_to_cases [OF assms(1) m, of _ "ctrlFrame ''peer-left'' (the (peerID (conn s c)))"] inv_goto [OF assms(1) m]
      by (auto split: if_splits)
  qed
next
  case (GuestClose c)
  then show ?thesis
    using assms inv_gone [OF assms(1), of c "(conn s c)\<lparr>send_closed := True, pc := Gone\<rparr>"]
    by (auto simp: set_conn_def split: if_splits)
next
  case (Write c)
  then obtain f q where q: "send_q (conn s c) = f # q" "close_code (conn s c) = None"
    using assms(2) by (auto split: list.splits if_splits)
  have "relay_inv (set_conn c (\<lambda>_. (conn s c)\<lparr>send_q := q, on_socket := on_socket (conn s c) @ [f]\<rparr>) s)"
    using assms(1) by (subst inv_queue) (simp_all add: same_skeleton_def)
  then show ?thesis using assms(2) Write q by (simp add: set_conn_def)
qed

lemma newRelay_inv: "relay_inv newRelay"
  by (simp add: relay_inv_def inv_hosts_def inv_guests_def inv_ids_def newRelay_def newRelayConn_def)

interpretation relay: system "\<lambda>s. s = newRelay" relay_trans relay_inv
  by unfold_locales (auto simp: newRelay_inv relay_trans_def intro: relay_step_inv)

section \<open>Where frames go\<close>

lemma enqueue_q: "enqueue f x = Some y \<Longrightarrow>
   send_q y = (if length (send_q x) < relayQueue then send_q x @ [f] else send_q x)"
  by (auto simp: enqueue_def ws_close_def split: if_splits)

lemma enqueue_all_effect:
  assumes "distinct gs" and "\<forall>g\<in>set gs. \<not> send_closed (conn s g)"
  shows "\<exists>F. enqueue_all c f gs s = s\<lparr>conn := F\<rparr> \<and> (\<forall>d. same_skeleton (F d) (conn s d)) \<and>
    (\<forall>d. send_q (F d) = (if d \<in> set gs \<and> length (send_q (conn s d)) < relayQueue
       then send_q (conn s d) @ [f] else send_q (conn s d)))"
  using assms
proof (induction gs arbitrary: s)
  case Nil
  then show ?case by (intro exI [of _ "conn s"]) (cases s, simp add: same_skeleton_def)
next
  case (Cons g gs)
  obtain x where x: "enqueue f (conn s g) = Some x"
    using Cons.prems by (cases "enqueue f (conn s g)") (auto simp: enqueue_None)
  note k = enqueue_skeleton [OF x]
  let ?s = "set_conn g (\<lambda>_. x) s"
  have "\<not> send_closed (conn ?s d)" if "d \<in> set gs" for d
    using that Cons.prems k by (cases "d = g") (simp_all add: same_skeleton_def)
  then obtain F where
    F: "enqueue_all c f gs ?s = ?s\<lparr>conn := F\<rparr>" "\<forall>d. same_skeleton (F d) (conn ?s d)"
      "\<forall>d. send_q (F d) = (if d \<in> set gs \<and> length (send_q (conn ?s d)) < relayQueue
         then send_q (conn ?s d) @ [f] else send_q (conn ?s d))"
    using Cons.IH [of ?s] Cons.prems(1) by auto
  have "same_skeleton (F d) (conn s d)" for d
    using F(2) k by (cases "d = g") (auto simp: same_skeleton_def dest: spec [of _ d])
  moreover have "send_q (F d) = (if d \<in> set (g # gs) \<and> length (send_q (conn s d)) < relayQueue
       then send_q (conn s d) @ [f] else send_q (conn s d))" for d
    using F(3) enqueue_q [OF x] Cons.prems(1) by (cases "d = g") auto
  ultimately show ?case
    using F(1) x by (intro exI [of _ F]) (simp add: set_conn_def)
qed

text \<open>The connections of a room: its host's, and those a guest took when it found the room.\<close>

definition host_recipients :: "32 word \<Rightarrow> relay_room \<Rightarrow> nat set" where
  "host_recipients peer r = (if peer = 0 then ran (guests r) else set_option (guests r peer))"

lemma host_frame_effect:
  assumes "relay_inv s" and "order_of gs (room s (room_ref (conn s c)))"
    and "relayEnvHeader \<le> length data"
  defines "R \<equiv> host_recipients (Uint32 (take relayEnvHeader data)) (room s (room_ref (conn s c)))"
  shows "\<exists>F. serveHost_frame c (MessageBinary, data) gs s = s\<lparr>conn := F\<rparr> \<and> (\<forall>d. same_skeleton (F d) (conn s d)) \<and>
    (\<forall>d. send_q (F d) = (if d \<in> R \<and> length (send_q (conn s d)) < relayQueue
       then send_q (conn s d) @ [(MessageBinary, data)] else send_q (conn s d)))"
proof -
  let ?r = "room s (room_ref (conn s c))" and ?p = "Uint32 (take relayEnvHeader data)"
  have o: "\<not> send_closed (conn s g)" if "guests ?r p = Some g" for p g
    using that by (rule guest_open [OF assms(1)])
  consider "?p = 0" | "?p \<noteq> 0" "guests ?r ?p = None" | g where "?p \<noteq> 0" "guests ?r ?p = Some g"
    by (cases "guests ?r ?p") auto
  then show ?thesis
  proof cases
    case 1
    have "serveHost_frame c (MessageBinary, data) gs s = enqueue_all c (MessageBinary, data) gs s"
      using assms(3) 1 by (simp add: serveHost_frame_def Let_def)
    moreover have "distinct gs" "\<forall>g\<in>set gs. \<not> send_closed (conn s g)" "set gs = R"
      using assms(2) o 1 by (auto simp: order_of_def ran_def R_def host_recipients_def)
    ultimately show ?thesis using enqueue_all_effect [of gs s c "(MessageBinary, data)"] by auto
  next
    case 2
    then have "serveHost_frame c (MessageBinary, data) gs s = s" "R = {}"
      using assms(3) by (simp_all add: serveHost_frame_def Let_def R_def host_recipients_def)
    then show ?thesis by (intro exI [of _ "conn s"]) (simp add: same_skeleton_def)
  next
    case 3
    then have "serveHost_frame c (MessageBinary, data) gs s = enqueue_all c (MessageBinary, data) [g] s"
      "R = set [g]" using assms(3) by (simp_all add: serveHost_frame_def Let_def R_def host_recipients_def)
    then show ?thesis using enqueue_all_effect [of "[g]" s c "(MessageBinary, data)"] o [OF 3(2)] by auto
  qed
qed

lemma guest_frame_effect:
  assumes "pc (conn s c) = Relaying" and "relayEnvHeader \<le> length data"
  defines "h \<equiv> host (room s (room_ref (conn s c)))"
    and "g \<equiv> (MessageBinary, PutUint32 (the (peerID (conn s c))) @ drop relayEnvHeader data)"
  shows "send_q (conn (serveGuest_frame c (MessageBinary, data) s) d) =
    (if d = h \<and> \<not> send_closed (conn s h) \<and> length (send_q (conn s h)) < relayQueue
     then send_q (conn s d) @ [g] else send_q (conn s d))"
proof -
  have e: "serveGuest_frame c (MessageBinary, data) s = enqueue_to c g h Relaying s"
    using assms(2) by (simp add: serveGuest_frame_def g_def h_def)
  show ?thesis
  proof (cases "enqueue g (conn s h)")
    case None
    then have "send_closed (conn s h)" by (simp add: enqueue_None)
    then show ?thesis using None by (simp add: e enqueue_to_def)
  next
    case (Some x)
    then have "\<not> send_closed (conn s h)" by (auto simp: enqueue_def split: if_splits)
    then show ?thesis using enqueue_q [OF Some] Some by (cases "d = h") (simp_all add: e enqueue_to_def)
  qed
qed

section \<open>Connections keep their room\<close>

lemma enqueue_all_frame:
  "room_ref (conn (enqueue_all c f gs s) x) = room_ref (conn s x)"
  "peerID (conn (enqueue_all c f gs s) x) = peerID (conn s x)"
  "pc (conn (enqueue_all c f gs s) x) = pc (conn s x) \<or> x = c \<and> pc (conn (enqueue_all c f gs s) x) = Panicked"
proof -
  have "room_ref (conn (enqueue_all c f gs s) x) = room_ref (conn s x) \<and>
    peerID (conn (enqueue_all c f gs s) x) = peerID (conn s x) \<and>
    (pc (conn (enqueue_all c f gs s) x) = pc (conn s x) \<or> x = c \<and> pc (conn (enqueue_all c f gs s) x) = Panicked)"
  proof (induction gs arbitrary: s)
    case (Cons g gs)
    show ?case
    proof (cases "enqueue f (conn s g)")
      case None
      then show ?thesis by (simp add: goto_pc)
    next
      case (Some y)
      with Cons.IH [of "set_conn g (\<lambda>_. y) s"] enqueue_skeleton [OF Some] show ?thesis
        by (cases "x = g") (auto simp: same_skeleton_def)
    qed
  qed simp
  then show "room_ref (conn (enqueue_all c f gs s) x) = room_ref (conn s x)"
    "peerID (conn (enqueue_all c f gs s) x) = peerID (conn s x)"
    "pc (conn (enqueue_all c f gs s) x) = pc (conn s x) \<or> x = c \<and> pc (conn (enqueue_all c f gs s) x) = Panicked"
    by blast+
qed

lemma enqueue_to_frame:
  "room_ref (conn (enqueue_to c f d q s) x) = room_ref (conn s x)"
  "peerID (conn (enqueue_to c f d q s) x) = peerID (conn s x)"
  "x \<noteq> c \<Longrightarrow> pc (conn (enqueue_to c f d q s) x) = pc (conn s x)"
  "pc (conn (enqueue_to c f d q s) c) = q \<or> pc (conn (enqueue_to c f d q s) c) = Panicked"
proof -
  consider "enqueue_to c f d q s = goto c Panicked s"
    | y where "same_skeleton y (conn s d)" "enqueue_to c f d q s = goto c q (set_conn d (\<lambda>_. y) s)"
    using enqueue_skeleton [of f "conn s d"] by (cases "enqueue f (conn s d)") (auto simp: enqueue_to_def)
  then have "room_ref (conn (enqueue_to c f d q s) x) = room_ref (conn s x) \<and>
    peerID (conn (enqueue_to c f d q s) x) = peerID (conn s x) \<and>
    (x \<noteq> c \<longrightarrow> pc (conn (enqueue_to c f d q s) x) = pc (conn s x)) \<and>
    (pc (conn (enqueue_to c f d q s) c) = q \<or> pc (conn (enqueue_to c f d q s) c) = Panicked)"
  proof cases
    case 2
    then show ?thesis by (cases "x = d") (simp_all add: same_skeleton_def)
  qed simp
  then show "room_ref (conn (enqueue_to c f d q s) x) = room_ref (conn s x)"
    "peerID (conn (enqueue_to c f d q s) x) = peerID (conn s x)"
    "x \<noteq> c \<Longrightarrow> pc (conn (enqueue_to c f d q s) x) = pc (conn s x)"
    "pc (conn (enqueue_to c f d q s) c) = q \<or> pc (conn (enqueue_to c f d q s) c) = Panicked"
    by blast+
qed

lemma serveHost_frame_frame:
  "room_ref (conn (serveHost_frame c f gs s) x) = room_ref (conn s x)"
  "peerID (conn (serveHost_frame c f gs s) x) = peerID (conn s x)"
  "pc (conn (serveHost_frame c f gs s) x) = pc (conn s x) \<or> x = c \<and> pc (conn (serveHost_frame c f gs s) x) = Panicked"
  using enqueue_all_frame by (auto simp: serveHost_frame_def Let_def simp del: enqueue_all.simps split: option.split)

lemma notify_cases:
  assumes "relay_step s (HostNotify c) = Some t"
  obtains g gs where "pc (conn s c) = Notifying (g # gs)"
    "t = goto c Panicked s \<or> (\<exists>y. same_skeleton y (conn s g) \<and> t = goto c (Notifying gs) (set_conn g (\<lambda>_. y) s))"
proof -
  obtain g gs where p: "pc (conn s c) = Notifying (g # gs)"
    using assms by (auto split: relay_pc.splits list.splits)
  show thesis
  proof (cases "enqueue (ctrlFrameNoPeer ''room-closed'') (conn s g)")
    case None
    then show ?thesis using assms p that by simp
  next
    case (Some y)
    then have "t = goto c (Notifying gs) (set_conn g (\<lambda>_. ws_close 4001 y) s)" using assms p by simp
    with that p ws_close_skeleton [OF enqueue_skeleton [OF Some], of 4001] show ?thesis by blast
  qed
qed

lemma step_keeps_room:
  assumes "relay_step s e = Some t" and "pc (conn s x) \<noteq> Fresh" and "pc (conn s x) \<noteq> Found"
  shows "room_ref (conn t x) = room_ref (conn s x)" and "peerID (conn t x) = peerID (conn s x)"
proof -
  have "room_ref (conn t x) = room_ref (conn s x) \<and> peerID (conn t x) = peerID (conn s x)"
  proof (cases e)
    case (HostJoin c i)
    then show ?thesis
      using assms by (cases "x = c")
        (auto simp: serveHost_join_def Let_def ws_close_def split: if_splits option.splits)
  next
    case (HostNotify c)
    with assms(1) have "relay_step s (HostNotify c) = Some t" by blast
    then obtain g gs where "pc (conn s c) = Notifying (g # gs)"
      "t = goto c Panicked s \<or> (\<exists>y. same_skeleton y (conn s g) \<and> t = goto c (Notifying gs) (set_conn g (\<lambda>_. y) s))"
      by (rule notify_cases)
    then show ?thesis by (cases "x = g") (auto simp: same_skeleton_def)
  next
    case (GuestLookup c i)
    then show ?thesis
      using assms by (cases "x = c")
        (auto simp: serveGuest_lookup_def ws_close_def split: if_splits option.splits)
  next
    case (GuestRegister c)
    then show ?thesis
      using assms by (cases "x = c") (auto simp: serveGuest_register_def Let_def split: if_splits)
  next
    case (Write c)
    then show ?thesis using assms by (cases "x = c") (auto split: list.splits if_splits)
  next
    case (HostClose c)
    then show ?thesis using assms by (cases "x = c") (auto split: if_splits)
  next
    case (GuestClose c)
    then show ?thesis using assms by (cases "x = c") (auto split: if_splits)
  qed (use assms in \<open>auto simp: serveHost_frame_frame enqueue_to_frame serveGuest_frame_def
         serveGuest_lost_def Let_def split: if_splits relay_pc.splits\<close>)
  then show "room_ref (conn t x) = room_ref (conn s x)" "peerID (conn t x) = peerID (conn s x)" by blast+
qed

text \<open>The guests a host still has to tell are guests of its own room, and a leaving guest has an id.\<close>

definition notify_inv :: "relay \<Rightarrow> bool" where
  "notify_inv s = (\<forall>c.
     (\<forall>gs. pc (conn s c) = Notifying gs \<longrightarrow>
        (\<forall>g\<in>set gs. peerID (conn s g) \<noteq> None \<and> room_ref (conn s g) = room_ref (conn s c))) \<and>
     (\<forall>b. pc (conn s c) = Leaving b \<longrightarrow> peerID (conn s c) \<noteq> None))"

fun actor :: "relay_event \<Rightarrow> nat" where
  "actor (HostJoin c _) = c" | "actor (HostFrame c _ _) = c" | "actor (HostLost c) = c"
| "actor (HostDrain c _) = c" | "actor (HostNotify c) = c" | "actor (HostClose c) = c"
| "actor (GuestLookup c _) = c" | "actor (GuestRegister c) = c" | "actor (GuestAnnounce c) = c"
| "actor (GuestFrame c _) = c" | "actor (GuestLost c) = c" | "actor (GuestFarewell c) = c"
| "actor (GuestClose c) = c" | "actor (Write c) = c"

lemma others_keep_pc:
  assumes "relay_step s e = Some t" and "c \<noteq> actor e"
  shows "pc (conn t c) = pc (conn s c)"
proof (cases e)
  case (HostNotify d)
  with assms(1) have "relay_step s (HostNotify d) = Some t" by blast
  then obtain g hs where "pc (conn s d) = Notifying (g # hs)"
    "t = goto d Panicked s \<or> (\<exists>y. same_skeleton y (conn s g) \<and> t = goto d (Notifying hs) (set_conn g (\<lambda>_. y) s))"
    by (rule notify_cases)
  then show ?thesis using assms(2) HostNotify by (cases "c = g") (auto simp: same_skeleton_def)
next
  case (HostFrame d f hs)
  then show ?thesis using assms serveHost_frame_frame(3) [of d f hs s c] by (auto split: if_splits)
qed (use assms in \<open>auto simp: serveHost_join_def serveGuest_lookup_def serveGuest_register_def
       serveGuest_lost_def serveGuest_frame_def enqueue_to_frame Let_def
       split: if_splits option.splits list.splits relay_pc.splits\<close>)

text \<open>Where the acting goroutine goes, as far as leaving and notifying are concerned.\<close>

definition plain_pc :: "relay_pc \<Rightarrow> bool" where
  "plain_pc p = (\<not> (\<exists>b. p = Leaving b) \<and> \<not> (\<exists>gs. p = Notifying gs))"

lemma plain_pcs [simp]:
  "plain_pc Panicked" "plain_pc Gone" "plain_pc Serving" "plain_pc Draining" "plain_pc Found"
  "plain_pc Registered" "plain_pc Relaying" "plain_pc Hanging"
  by (simp_all add: plain_pc_def)

lemma enqueue_to_plain: "plain_pc q \<Longrightarrow> plain_pc (pc (conn (enqueue_to c f d q s) c))"
  using enqueue_to_frame(4) [of c f d q s] by auto

lemma actor_pc:
  assumes "relay_step s e = Some t"
  shows "pc (conn t (actor e)) = pc (conn s (actor e)) \<or> plain_pc (pc (conn t (actor e))) \<or>
    (\<exists>b. pc (conn t (actor e)) = Leaving b \<and> pc (conn s (actor e)) = Relaying) \<or>
    (\<exists>g gs. pc (conn s (actor e)) = Notifying (g # gs) \<and> pc (conn t (actor e)) = Notifying gs) \<or>
    (\<exists>gs. pc (conn s (actor e)) = Draining \<and> order_of gs (room s (room_ref (conn s (actor e)))) \<and>
       pc (conn t (actor e)) = Notifying gs)"
proof (cases e)
  case (HostNotify d)
  with assms(1) have "relay_step s (HostNotify d) = Some t" by blast
  then obtain g hs where "pc (conn s d) = Notifying (g # hs)"
    "t = goto d Panicked s \<or> (\<exists>y. same_skeleton y (conn s g) \<and> t = goto d (Notifying hs) (set_conn g (\<lambda>_. y) s))"
    by (rule notify_cases)
  then show ?thesis using HostNotify by auto
next
  case (HostFrame d f hs)
  then show ?thesis using assms serveHost_frame_frame(3) [of d f hs s d] by (auto split: if_splits)
qed (use assms in \<open>auto simp: serveHost_join_def serveGuest_lookup_def serveGuest_register_def
       serveGuest_lost_def serveGuest_frame_def enqueue_to_plain Let_def
       split: if_splits option.splits list.splits relay_pc.splits\<close>)

lemma becomes_notifying:
  assumes "relay_step s e = Some t" and "pc (conn t c) = Notifying gs"
  shows "(\<exists>gs'. pc (conn s c) = Notifying gs' \<and> set gs \<subseteq> set gs') \<or>
    (pc (conn s c) = Draining \<and> order_of gs (room s (room_ref (conn s c))))"
proof (cases "pc (conn t c) = pc (conn s c)")
  case True
  then have "pc (conn s c) = Notifying gs" using assms(2) by simp
  then show ?thesis by blast
next
  case False
  then have "c = actor e" using others_keep_pc [OF assms(1)] by blast
  then show ?thesis using actor_pc [OF assms(1)] assms(2) False by (auto simp: plain_pc_def)
qed

lemma becomes_leaving:
  assumes "relay_step s e = Some t" and "pc (conn t c) = Leaving b"
  shows "pc (conn s c) = Leaving b \<or> pc (conn s c) = Relaying"
proof (cases "c = actor e")
  case True
  then show ?thesis using actor_pc [OF assms(1)] assms(2) by (auto simp: plain_pc_def)
next
  case False
  then show ?thesis using others_keep_pc [OF assms(1) False] assms(2) by auto
qed

lemma has_id_pc:
  assumes "relay_inv s" and "peerID (conn s g) \<noteq> None"
  shows "pc (conn s g) \<noteq> Fresh" and "pc (conn s g) \<noteq> Found" and "\<not> host_pc (pc (conn s g))"
  using inv_parts(2) [OF assms(1), unfolded inv_guests_def] assms(2) by metis+

lemma notify_inv_step:
  assumes "relay_inv s" and "notify_inv s" and "relay_step s e = Some t"
  shows "notify_inv t"
  unfolding notify_inv_def
proof (intro allI conjI impI)
  fix c gs assume n: "pc (conn t c) = Notifying gs"
  have keep: "peerID (conn t g) \<noteq> None \<and> room_ref (conn t g) = room_ref (conn t c)"
    if "peerID (conn s g) \<noteq> None" "room_ref (conn s g) = room_ref (conn s c)"
      "pc (conn s c) \<noteq> Fresh" "pc (conn s c) \<noteq> Found" for g
    using step_keeps_room [OF assms(3), of g] step_keeps_room [OF assms(3), of c]
      has_id_pc [OF assms(1) that(1)] that by simp
  consider gs' where "pc (conn s c) = Notifying gs'" "set gs \<subseteq> set gs'"
    | "pc (conn s c) = Draining" "order_of gs (room s (room_ref (conn s c)))"
    using becomes_notifying [OF assms(3) n] by blast
  then show "\<forall>g\<in>set gs. peerID (conn t g) \<noteq> None \<and> room_ref (conn t g) = room_ref (conn t c)"
  proof cases
    case 1
    then have "\<forall>g\<in>set gs. peerID (conn s g) \<noteq> None \<and> room_ref (conn s g) = room_ref (conn s c)"
      using assms(2) unfolding notify_inv_def by blast
    then show ?thesis using keep 1(1) by simp
  next
    case 2
    show ?thesis
    proof
      fix g assume "g \<in> set gs"
      then obtain p where "guests (room s (room_ref (conn s c))) p = Some g"
        using 2(2) by (auto simp: order_of_def ran_def)
      then have "peerID (conn s g) \<noteq> None" "room_ref (conn s g) = room_ref (conn s c)"
        using guest_in_map [OF inv_parts(2) [OF assms(1)]] by blast+
      then show "peerID (conn t g) \<noteq> None \<and> room_ref (conn t g) = room_ref (conn t c)"
        using keep 2(1) by simp
    qed
  qed
next
  fix c b assume l: "pc (conn t c) = Leaving b"
  have "pc (conn s c) = Leaving b \<or> pc (conn s c) = Relaying" by (rule becomes_leaving [OF assms(3) l])
  moreover have "peerID (conn s c) \<noteq> None" if "pc (conn s c) = Relaying"
    using in_room_peerID [OF assms(1), of c] that by simp
  moreover have "peerID (conn s c) \<noteq> None" if "pc (conn s c) = Leaving b"
    using assms(2) that unfolding notify_inv_def by blast
  ultimately show "peerID (conn t c) \<noteq> None"
    using step_keeps_room(2) [OF assms(3), of c] by auto
qed

lemma newRelay_notify: "notify_inv newRelay"
  by (simp add: newRelay_def notify_inv_def newRelayConn_def)

interpretation notified: system "\<lambda>s. s = newRelay" relay_trans "\<lambda>s. relay_inv s \<and> notify_inv s"
  by unfold_locales
     (auto simp: newRelay_inv newRelay_notify relay_trans_def intro: relay_step_inv dest: notify_inv_step)

section \<open>Isolation of rooms\<close>

lemma host_room:
  assumes "relay_inv s" and "peerID (conn s c) \<noteq> None"
  shows "room_ref (conn s (host (room s (room_ref (conn s c))))) = room_ref (conn s c)"
proof -
  have "room_ref (conn s c) < next_room s"
    using inv_parts(2) [OF assms(1), unfolded inv_guests_def] assms(2) by blast
  then show ?thesis using inv_parts(1) [OF assms(1), unfolded inv_hosts_def] by blast
qed

lemma enqueue_to_new:
  assumes "f \<in> set (send_q (conn (enqueue_to c g d q s) x))" and "f \<notin> set (send_q (conn s x))"
  shows "x = d"
proof (rule ccontr)
  assume "x \<noteq> d"
  then have "send_q (conn (enqueue_to c g d q s) x) = send_q (conn s x)"
    by (simp add: enqueue_to_def split: option.split)
  with assms show False by simp
qed

lemma new_frame_same_room:
  assumes "relay_inv s" and "notify_inv s" and "relay_step s e = Some t"
    and "f \<in> set (send_q (conn t d))" and "f \<notin> set (send_q (conn s d))"
  shows "room_ref (conn s d) = room_ref (conn s (actor e))"
proof (cases e)
  case (HostFrame c h gs)
  obtain ty data where h: "h = (ty, data)" by (cases h)
  have o: "order_of gs (room s (room_ref (conn s c)))" and t: "t = serveHost_frame c h gs s"
    using assms(3) HostFrame by (auto split: if_splits)
  have n: "ty = MessageBinary" "relayEnvHeader \<le> length data"
    using t assms(4,5) by (auto simp: serveHost_frame_def h split: if_splits)
  obtain F where F: "serveHost_frame c h gs s = s\<lparr>conn := F\<rparr>"
    "send_q (F d) = (if d \<in> host_recipients (Uint32 (take relayEnvHeader data)) (room s (room_ref (conn s c))) \<and>
        length (send_q (conn s d)) < relayQueue then send_q (conn s d) @ [(MessageBinary, data)] else send_q (conn s d))"
    using host_frame_effect [OF assms(1) o n(2)] by (auto simp: h n(1))
  then have "d \<in> host_recipients (Uint32 (take relayEnvHeader data)) (room s (room_ref (conn s c)))"
    using t assms(4,5) by (auto split: if_splits)
  then obtain p where "guests (room s (room_ref (conn s c))) p = Some d"
    by (auto simp: host_recipients_def ran_def split: if_splits)
  then show ?thesis using guest_in_map [OF inv_parts(2) [OF assms(1)]] HostFrame by auto
next
  case (HostNotify c)
  obtain g gs where p: "pc (conn s c) = Notifying (g # gs)"
    using assms(3) HostNotify by (auto split: relay_pc.splits list.splits)
  have "d = g"
    using assms(3-5) HostNotify p by (cases "d = g") (auto split: option.splits)
  then show ?thesis using assms(2) p HostNotify unfolding notify_inv_def by auto
next
  case (GuestAnnounce c)
  then have c: "pc (conn s c) = Registered"
    and t: "t = enqueue_to c (ctrlFrame ''peer-joined'' (the (peerID (conn s c)))) (host (room s (room_ref (conn s c)))) Relaying s"
    using assms(3) by (auto split: if_splits)
  have "d = host (room s (room_ref (conn s c)))" using enqueue_to_new assms(4,5) t by blast
  then show ?thesis using host_room [OF assms(1) in_room_peerID [OF assms(1), of c]] c GuestAnnounce by simp
next
  case (GuestFrame c h)
  then have c: "pc (conn s c) = Relaying" and t: "t = serveGuest_frame c h s"
    using assms(3) by (auto split: if_splits)
  have "d = host (room s (room_ref (conn s c)))"
    using enqueue_to_new assms(4,5) t by (auto simp: serveGuest_frame_def split: if_splits)
  then show ?thesis using host_room [OF assms(1) in_room_peerID [OF assms(1), of c]] c GuestFrame by simp
next
  case (GuestFarewell c)
  then obtain b where c: "pc (conn s c) = Leaving b"
    and t: "t = (if b then enqueue_to c (ctrlFrame ''peer-left'' (the (peerID (conn s c)))) (host (room s (room_ref (conn s c)))) Hanging s
      else goto c Hanging s)"
    using assms(3) by (auto split: relay_pc.splits)
  have "d = host (room s (room_ref (conn s c)))"
    using enqueue_to_new assms(4,5) t by (auto split: if_splits)
  moreover have "peerID (conn s c) \<noteq> None" using assms(2) c unfolding notify_inv_def by blast
  ultimately show ?thesis using host_room [OF assms(1)] GuestFarewell by simp
next
  case (Write c)
  then show ?thesis using assms(3-5) by (cases "d = c") (auto split: list.splits if_splits)
next
  case (HostJoin c i)
  then show ?thesis using assms(3-5)
    by (cases "d = c") (auto simp: serveHost_join_def Let_def ws_close_def split: if_splits option.splits)
next
  case (GuestLookup c i)
  then show ?thesis using assms(3-5)
    by (cases "d = c") (auto simp: serveGuest_lookup_def Let_def ws_close_def split: if_splits option.splits)
next
  case (GuestRegister c)
  then show ?thesis using assms(3-5)
    by (cases "d = c") (auto simp: serveGuest_register_def Let_def split: if_splits)
next
  case (HostClose c)
  then show ?thesis using assms(3-5) by (cases "d = c") (auto split: if_splits)
next
  case (GuestClose c)
  then show ?thesis using assms(3-5) by (cases "d = c") (auto split: if_splits)
qed (use assms(3-5) in \<open>auto simp: serveGuest_lost_def Let_def split: if_splits\<close>)

lemma relay_invs:
  assumes "relay_reachable s"
  shows "relay_inv s" and "notify_inv s"
  using notified.reachable_inv [OF assms] by simp_all

text \<open>Running a schedule.\<close>

fun relay_run :: "relay \<Rightarrow> relay_event list \<Rightarrow> relay option" where
  "relay_run s [] = Some s"
| "relay_run s (e # es) = (case relay_step s e of Some t \<Rightarrow> relay_run t es | None \<Rightarrow> None)"

lemma relay_run_reachable:
  "relay_reachable s \<Longrightarrow> relay_run s es = Some t \<Longrightarrow> relay_reachable t"
proof (induction es arbitrary: s)
  case (Cons e es)
  then obtain u where "relay_step s e = Some u" "relay_run u es = Some t"
    by (auto split: option.splits)
  moreover from this have "relay_trans s e u" by (simp add: relay_trans_def)
  then have "relay_reachable u" by (rule reach_step [OF Cons.prems(1)])
  ultimately show ?case using Cons.IH by blast
qed simp

definition demo_room :: bytes where "demo_room = ''room-12345''"

text \<open>A host with two guests.\<close>

definition demo_join :: "relay_event list" where
  "demo_join = [HostJoin 0 demo_room, GuestLookup 1 demo_room, GuestRegister 1, GuestAnnounce 1,
     GuestLookup 2 demo_room, GuestRegister 2, GuestAnnounce 2]"

lemmas relay_eval = relay_run.simps relay_step.simps newRelay_def newRelayConn_def serveHost_join_def
  serveGuest_lookup_def serveGuest_register_def serveGuest_lost_def enqueue_to_def enqueue_def relayQueue_def
  set_conn_def set_room_def goto_def ws_close_def Let_def

definition demo_facts :: "relay \<Rightarrow> bool" where
  "demo_facts s = (
     pc (conn s 0) = Serving \<and> pc (conn s 1) = Relaying \<and> pc (conn s 2) = Relaying \<and> pc (conn s 3) = Fresh \<and>
     room_ref (conn s 0) = 0 \<and> room_ref (conn s 1) = 0 \<and> room_ref (conn s 2) = 0 \<and> room_id (conn s 0) = demo_room \<and>
     peerID (conn s 1) = Some 1 \<and> peerID (conn s 2) = Some 2 \<and>
     host (room s 0) = 0 \<and> joined (room s 0) = 2 \<and> guests (room s 0) = [1 \<mapsto> 1, 2 \<mapsto> 2] \<and>
     \<not> send_closed (conn s 0) \<and> send_closed (conn s 1) = False \<and> send_closed (conn s 2) = False \<and>
     length (send_q (conn s 0)) = 2 \<and> send_q (conn s 1) = [] \<and> send_q (conn s 2) = [] \<and>
     close_code (conn s 2) = None \<and> rooms s = [demo_room \<mapsto> 0])"

lemma demo_run: "\<exists>s. relay_run newRelay demo_join = Some s \<and> demo_facts s"
  by (simp add: demo_join_def demo_facts_def relay_eval)

lemma demo_reachable: "\<exists>s. relay_reachable s \<and> demo_facts s"
  using demo_run relay_run_reachable [OF reach_start [of "\<lambda>s. s = newRelay"]] by blast

section \<open>Properties\<close>

text \<open>C20: A room has one host. In every reachable interleaving, a serving host owns its room, no
  other connection serves the same room id, and a second host is turned away with close code
  4009 without disturbing the room.\<close>

theorem one_host_per_room:
  assumes "relay_reachable s" and "pc (conn s c) = Serving"
  shows "rooms s (room_id (conn s c)) = Some (room_ref (conn s c)) \<and>
    host (room s (room_ref (conn s c))) = c \<and>
    (\<forall>d. pc (conn s d) = Serving \<and> room_id (conn s d) = room_id (conn s c) \<longrightarrow> d = c) \<and>
    (\<forall>d. pc (conn s d) = Fresh \<longrightarrow> relay_step s (HostJoin d (room_id (conn s c))) =
       Some (set_conn d (\<lambda>x. (ws_close 4009 x)\<lparr>pc := Gone\<rparr>) s))"
proof -
  note H = inv_parts(1) [OF relay_invs(1) [OF assms(1)], unfolded inv_hosts_def]
  have own: "rooms s (room_id (conn s d)) = Some (room_ref (conn s d)) \<and> host (room s (room_ref (conn s d))) = d"
    if "pc (conn s d) = Serving" for d
    using H that by (metis pc_kinds(1))
  have "d = c" if "pc (conn s d) = Serving" "room_id (conn s d) = room_id (conn s c)" for d
    using own [OF that(1)] own [OF assms(2)] that(2) by auto
  then show ?thesis using own [OF assms(2)] by (auto simp: serveHost_join_def)
qed

theorem one_host_per_room_witness:
  "\<exists>s. relay_reachable s \<and> relay_step s (HostJoin 3 demo_room) =
     Some (set_conn 3 (\<lambda>x. (ws_close 4009 x)\<lparr>pc := Gone\<rparr>) s)"
proof -
  obtain s where s: "relay_reachable s" "demo_facts s" using demo_reachable by blast
  then have h: "pc (conn s 0) = Serving" "pc (conn s 3) = Fresh" "room_id (conn s 0) = demo_room"
    by (simp_all add: demo_facts_def)
  show ?thesis using one_host_per_room [OF s(1) h(1)] h(2,3) s(1) by auto
qed

text \<open>C19: A guest cannot speak for another. Whatever a guest puts in the first four bytes of a
  frame, the host gets the frame under the guest's own peer id, which is not 0 and which no
  other guest of the room has or had (for fewer than \<open>2^32 - 1\<close> guests), with the sealed
  payload untouched; and the frame goes to the host alone.\<close>

theorem guest_cannot_impersonate:
  assumes "relay_reachable s" and "pc (conn s c) = Relaying" and "relayEnvHeader \<le> length data"
    and "few_joined (room s (room_ref (conn s c)))"
  shows "\<exists>p t. peerID (conn s c) = Some p \<and> p \<noteq> 0 \<and>
    (\<forall>d. d \<noteq> c \<and> room_ref (conn s d) = room_ref (conn s c) \<longrightarrow> peerID (conn s d) \<noteq> Some p) \<and>
    relay_step s (GuestFrame c (MessageBinary, data)) = Some t \<and>
    (let h = host (room s (room_ref (conn s c))) in
     \<forall>d. send_q (conn t d) =
       (if d = h \<and> \<not> send_closed (conn s h) \<and> length (send_q (conn s h)) < relayQueue
        then send_q (conn s d) @ [(MessageBinary, PutUint32 p @ drop relayEnvHeader data)]
        else send_q (conn s d)))"
proof -
  note I = relay_invs(1) [OF assms(1)]
  obtain p where p: "peerID (conn s c) = Some p" using in_room_peerID [OF I, of c] assms(2) by auto
  note D = inv_parts(3) [OF I, unfolded inv_ids_def]
  have "1 \<le> unat p" using D p assms(4) by blast
  then have "p \<noteq> 0" by auto
  moreover have "peerID (conn s d) \<noteq> Some p" if "d \<noteq> c" "room_ref (conn s d) = room_ref (conn s c)" for d
  proof
    assume "peerID (conn s d) = Some p"
    then have "c = d" using D p assms(4) that(2) by metis
    with that(1) show False by simp
  qed
  ultimately show ?thesis
    using p assms(2) guest_frame_effect [OF assms(2,3)]
    by (intro exI [of _ p] exI [of _ "serveGuest_frame c (MessageBinary, data) s"]) (simp add: Let_def)
qed

theorem guest_cannot_impersonate_witness:
  "\<exists>s t. relay_reachable s \<and> relay_step s (GuestFrame 2 (MessageBinary, [CHR 0x00, CHR 0x00, CHR 0x00, CHR 0x01, CHR ''x''])) = Some t \<and>
     send_q (conn t 0) = send_q (conn s 0) @ [(MessageBinary, PutUint32 2 @ ''x'')]"
proof -
  obtain s where s: "relay_reachable s" "demo_facts s" using demo_reachable by blast
  then have h: "pc (conn s 2) = Relaying" "few_joined (room s (room_ref (conn s 2)))"
    by (simp_all add: demo_facts_def few_joined_def)
  let ?d = "[CHR 0x00, CHR 0x00, CHR 0x00, CHR 0x01, CHR ''x'']"
  have l: "relayEnvHeader \<le> length ?d" by (simp add: relayEnvHeader_def)
  obtain p t where t: "peerID (conn s 2) = Some p" "relay_step s (GuestFrame 2 (MessageBinary, ?d)) = Some t"
    "\<forall>d. send_q (conn t d) =
       (if d = host (room s (room_ref (conn s 2))) \<and> \<not> send_closed (conn s (host (room s (room_ref (conn s 2))))) \<and>
          length (send_q (conn s (host (room s (room_ref (conn s 2)))))) < relayQueue
        then send_q (conn s d) @ [(MessageBinary, PutUint32 p @ drop relayEnvHeader ?d)] else send_q (conn s d))"
    using guest_cannot_impersonate [OF s(1) h(1) l h(2)] unfolding Let_def by blast
  then have "send_q (conn t 0) = send_q (conn s 0) @ [(MessageBinary, PutUint32 2 @ ''x'')]"
    using s(2) by (simp add: demo_facts_def relayQueue_def relayEnvHeader_def)
  with s(1) t(2) show ?thesis by blast
qed

text \<open>Host frames go where their envelope says, unread. Peer id 0 reaches every guest of the
  host's room, peer id \<open>N\<close> the guest with that id and nobody else, an unknown id nobody; the
  bytes are the host's, and neither a closed channel nor a full one (whose frame is dropped)
  stops the others or the host's goroutine.\<close>

theorem host_frames_routed:
  assumes "relay_reachable s" and "pc (conn s c) = Serving"
    and "order_of gs (room s (room_ref (conn s c)))" and "relayEnvHeader \<le> length data"
  shows "\<exists>t. relay_step s (HostFrame c (MessageBinary, data) gs) = Some t \<and>
    (let R = host_recipients (Uint32 (take relayEnvHeader data)) (room s (room_ref (conn s c))) in
     (\<forall>d. pc (conn t d) = pc (conn s d) \<and>
        send_q (conn t d) = (if d \<in> R \<and> length (send_q (conn s d)) < relayQueue
          then send_q (conn s d) @ [(MessageBinary, data)] else send_q (conn s d))) \<and>
     (\<forall>d\<in>R. room_ref (conn s d) = room_ref (conn s c) \<and> \<not> send_closed (conn s d)))"
proof -
  note I = relay_invs(1) [OF assms(1)]
  let ?R = "host_recipients (Uint32 (take relayEnvHeader data)) (room s (room_ref (conn s c)))"
  obtain F where F: "serveHost_frame c (MessageBinary, data) gs s = s\<lparr>conn := F\<rparr>"
    "\<forall>d. same_skeleton (F d) (conn s d)"
    "\<forall>d. send_q (F d) = (if d \<in> ?R \<and> length (send_q (conn s d)) < relayQueue
       then send_q (conn s d) @ [(MessageBinary, data)] else send_q (conn s d))"
    using host_frame_effect [OF I assms(3,4)] by blast
  have "room_ref (conn s d) = room_ref (conn s c) \<and> \<not> send_closed (conn s d)" if d: "d \<in> ?R" for d
  proof -
    obtain p where "guests (room s (room_ref (conn s c))) p = Some d"
      using d by (auto simp: host_recipients_def ran_def split: if_splits)
    then show ?thesis using guest_in_map [OF inv_parts(2) [OF I]] guest_open [OF I] by blast
  qed
  then show ?thesis
    using F assms(2,3) by (intro exI [of _ "s\<lparr>conn := F\<rparr>"]) (simp add: Let_def same_skeleton_def)
qed

theorem host_frames_routed_witness:
  "\<exists>s t. relay_reachable s \<and> relay_step s (HostFrame 0 (MessageBinary, PutUint32 2 @ ''x'') [2, 1]) = Some t \<and>
     send_q (conn t 1) = [] \<and> send_q (conn t 2) = [(MessageBinary, PutUint32 2 @ ''x'')]"
proof -
  obtain s where s: "relay_reachable s" "demo_facts s" using demo_reachable by blast
  then have h: "pc (conn s 0) = Serving" "order_of [2, 1] (room s (room_ref (conn s 0)))"
    by (auto simp: demo_facts_def order_of_def)
  have l: "relayEnvHeader \<le> length (PutUint32 2 @ ''x'')" by (simp add: relayEnvHeader_def)
  have p: "Uint32 (take relayEnvHeader (PutUint32 2 @ ''x'')) = 2" by (simp add: relayEnvHeader_def)
  obtain t where t: "relay_step s (HostFrame 0 (MessageBinary, PutUint32 2 @ ''x'') [2, 1]) = Some t"
    "\<forall>d. send_q (conn t d) = (if d \<in> host_recipients 2 (room s (room_ref (conn s 0))) \<and> length (send_q (conn s d)) < relayQueue
       then send_q (conn s d) @ [(MessageBinary, PutUint32 2 @ ''x'')] else send_q (conn s d))"
    using host_frames_routed [OF s(1) h l] unfolding p Let_def by blast
  have "send_q (conn t 1) = [] \<and> send_q (conn t 2) = [(MessageBinary, PutUint32 2 @ ''x'')]"
    using t(2) s(2) by (simp add: demo_facts_def host_recipients_def relayQueue_def)
  with t(1) s(1) show ?thesis by blast
qed

text \<open>Rooms are isolated. In every reachable interleaving, whatever goroutine takes whatever
  step, a frame that appears in a connection's channel was put there by a connection of the
  same room.\<close>

theorem frames_stay_in_room:
  assumes "relay_reachable s" and "relay_step s e = Some t"
    and "f \<in> set (send_q (conn t d))" and "f \<notin> set (send_q (conn s d))"
  shows "room_ref (conn s d) = room_ref (conn s (actor e))"
  using new_frame_same_room [OF relay_invs [OF assms(1)] assms(2-4)] .

theorem frames_stay_in_room_witness:
  "\<exists>s. relay_reachable s \<and> room_ref (conn s 2) = room_ref (conn s 0)"
proof -
  obtain s where s: "relay_reachable s" "demo_facts s" using demo_reachable by blast
  let ?f = "(MessageBinary, PutUint32 2 @ ''x'')"
  have p: "Uint32 (take relayEnvHeader (PutUint32 2 @ ''x'')) = 2" by (simp add: relayEnvHeader_def)
  have "relay_step s (HostFrame 0 ?f [2, 1]) = Some (serveHost_frame 0 ?f [2, 1] s)"
    using s(2) by (simp add: demo_facts_def order_of_def)
  moreover have "?f \<in> set (send_q (conn (serveHost_frame 0 ?f [2, 1] s) 2))" "?f \<notin> set (send_q (conn s 2))"
    using s(2) by (simp_all add: demo_facts_def serveHost_frame_def relayEnvHeader_def enqueue_def relayQueue_def p [unfolded relayEnvHeader_def])
  ultimately have "room_ref (conn s 2) = room_ref (conn s (actor (HostFrame 0 ?f [2, 1])))"
    by (rule frames_stay_in_room [OF s(1)])
  then show ?thesis using s(1) by auto
qed

text \<open>The teardown of a room can be cut short. There is an interleaving of a host that
  disconnects with a guest that leaves at the same moment in which the host's goroutine sends
  on that guest's closed channel and panics: the room is gone, the other guest is neither told
  nor disconnected, and the host's channel is never closed.\<close>

theorem teardown_can_strand_guests:
  "\<exists>s. relay_reachable s \<and> pc (conn s 0) = Panicked \<and> \<not> send_closed (conn s 0) \<and>
     rooms s demo_room = None \<and> pc (conn s 1) = Relaying \<and> send_q (conn s 1) = [] \<and> close_code (conn s 1) = None"
proof -
  have "\<exists>s. relay_run newRelay (demo_join @ [HostLost 0, HostDrain 0 [2, 1], GuestLost 2, GuestFarewell 2,
      GuestClose 2, HostNotify 0]) = Some s \<and> pc (conn s 0) = Panicked \<and> \<not> send_closed (conn s 0) \<and>
     rooms s demo_room = None \<and> pc (conn s 1) = Relaying \<and> send_q (conn s 1) = [] \<and> close_code (conn s 1) = None"
    by (simp add: demo_join_def relay_eval order_of_def)
  then show ?thesis using relay_run_reachable [OF reach_start [of "\<lambda>s. s = newRelay"]] by blast
qed

end
