(* ===== verification/Routes.thy ===== *)
theory Routes
  imports Mux Pages Typing Relay
begin

text \<open>
  The dashboard as a whole (\<open>Server.Handler\<close> in \<open>dashboard/server.go\<close>): the table of its routes, the gate
  in front of each, and one request from its path to its reply. The state is that of the handlers
  (\<open>Server\<close>), the connected terminal hosts (\<open>Hosts\<close>), the throttle (\<open>Auth\<close>) and the model cache (\<open>Pages\<close>).
\<close>

section \<open>The table\<close>

datatype endpoint =
    EHealth | ELogin | ECallback | ELogout | EList | ECreate | EGet | EScreen | EInput | ETerminal | EHost
  | EKill | EAddMember | ERemoveMember | EUsers | EModels | ERegister | EPane | ERelay | EWeb | EAssets | EBrowser

definition sessions_path :: "seg list" where
  "sessions_path = [Lit ''api'', Lit ''v1'', Lit ''sessions'']"

definition routes :: "bool \<Rightarrow> (pattern \<times> endpoint) list" where
  "routes web_root = [
     (pat [] [Lit ''healthz''], EHealth),
     (pat [] [Lit ''auth'', Lit ''login''], ELogin),
     (pat [] [Lit ''auth'', Lit ''callback''], ECallback),
     (pat [] [Lit ''logout''], ELogout),
     (pat ''GET'' sessions_path, EList),
     (pat ''POST'' sessions_path, ECreate),
     (pat ''GET'' (sessions_path @ [Wild]), EGet),
     (pat ''GET'' (sessions_path @ [Wild, Lit ''screen'']), EScreen),
     (pat ''POST'' (sessions_path @ [Wild, Lit ''input'']), EInput),
     (pat ''GET'' (sessions_path @ [Wild, Lit ''terminal'']), ETerminal),
     (pat ''GET'' (sessions_path @ [Wild, Lit ''terminal'', Lit ''host'']), EHost),
     (pat ''DELETE'' (sessions_path @ [Wild]), EKill),
     (pat ''POST'' (sessions_path @ [Wild, Lit ''members'']), EAddMember),
     (pat ''DELETE'' (sessions_path @ [Wild, Lit ''members'', Wild]), ERemoveMember),
     (pat ''GET'' [Lit ''api'', Lit ''v1'', Lit ''users''], EUsers),
     (pat ''GET'' [Lit ''api'', Lit ''v1'', Lit ''models''], EModels),
     (pat ''POST'' (sessions_path @ [Lit ''register'']), ERegister),
     (pat ''POST'' (sessions_path @ [Wild, Lit ''pane'']), EPane),
     (pat [] [Lit ''r'', Wild], ERelay)] @
     (if web_root then [(below [Lit ''c''], EWeb)] else []) @
     [(below [Lit ''assets''], EAssets), (below [], EBrowser)]"

datatype page_endpoint = PIndex | PQR | PTerminal

definition page_routes :: "(pattern \<times> page_endpoint) list" where
  "page_routes = [(below [], PIndex), (pat [] [Lit ''qr''], PQR), (pat [] [Lit ''t'', Wild], PTerminal)]"

section \<open>Requests and replies\<close>

record http =
  rq_method :: bytes
  rq_path :: bytes                      \<comment> \<open>as it came, percent-encoded\<close>
  rq_uri :: bytes
  rq_query :: "bytes \<Rightarrow> bytes"
  rq_addr :: bytes                      \<comment> \<open>the client's address\<close>
  rq_authorization :: bytes
  rq_xkey :: bytes
  rq_cookie :: "bytes option"
  rq_flow :: "bytes option"
  rq_accept :: bytes
  rq_xreq :: bytes
  body_create :: "createRequest option"
  body_input :: "(bytes \<times> bytes list) option"
  body_member :: "bytes option"
  body_register :: "RegisterRequest option"
  body_read :: bool
  first_frame :: "(int \<times> int \<times> bool) option"

text \<open>What is fixed while the server runs: the case mappings, hash, MAC and decoders it uses as parameters,
  the configuration, whether there is a web client, and the embedded assets.\<close>

record app =
  lower_of :: "nat \<Rightarrow> nat"
  fold_of :: "nat \<Rightarrow> nat"
  sha_of :: "bytes \<Rightarrow> bytes"
  mac_of :: "bytes \<Rightarrow> bytes"
  read_identity :: "bytes \<Rightarrow> identity option"
  read_flow :: "bytes \<Rightarrow> flow_state option"
  app_cfg :: config
  curated_models :: "bytes list"
  relay_host :: bytes
  web_root :: bool
  asset_files :: "(bytes \<times> bytes) list"

text \<open>What a request meets while it is served.\<close>

record moment =
  meets :: outside
  user_order :: "bytes list"
  idp_up :: bool
  idp_exchange :: "bytes \<Rightarrow> bytes \<Rightarrow> id_token option"
  random_state :: bytes
  random_verifier :: bytes
  random_nonce :: bytes
  random_page :: bytes
  omp_models :: "model_option list option"
  later :: nanos

datatype response =
    RApi reply | RTyped reply "bytes list list" | RTooMany | RUnauthorized | RHealthy | RLogin login | RCallback callback | RLoggedOut
  | RRelay relay_route | RStatic bytes | RAsset asset_reply | RSocket ws_open | RViewer viewer_open | RHost host_offer
  | RModels "model_option list" | RIndex index_page bytes | RTerminal terminal_page bytes | RQR bytes int
  | RBadRequest | RNotFound | RMoved bytes

record dash =
  d_server :: server
  d_hosts :: term_hosts_reg
  d_fails :: failLimiter
  d_models :: models_cache

section \<open>Who is asking\<close>

definition current_of :: "app \<Rightarrow> moment \<Rightarrow> http \<Rightarrow> identity option" where
  "current_of a m q = Current (mac_of a) (read_identity a) (auth_cfg (app_cfg a)) (time (meets m) div 1000000000) (rq_cookie q)"

definition token_of :: "http \<Rightarrow> bytes" where
  "token_of q = bearerToken (rq_authorization q) (rq_xkey q)"

definition callerOf :: "app \<Rightarrow> moment \<Rightarrow> http \<Rightarrow> caller" where
  "callerOf a m q = newCaller (lower_of a) (sha_of a) (app_cfg a) (token_of q) (current_of a m q)"

definition url_path :: "http \<Rightarrow> bytes" where
  "url_path q = path_unescape (rq_path q)"

section \<open>The handlers on the whole state\<close>

definition on_server :: "(server \<Rightarrow> reply \<times> server) \<Rightarrow> dash \<Rightarrow> response \<times> dash" where
  "on_server f d = (case f (d_server d) of (rep, s) \<Rightarrow> (RApi rep, d\<lparr>d_server := s\<rparr>))"

text \<open>The server's flags for connected terminals are read off the registry of hosts. A kill drops the
  host's connection.\<close>

definition with_hosts :: "term_hosts_reg \<Rightarrow> dash \<Rightarrow> dash" where
  "with_hosts t d = d\<lparr>d_hosts := t, d_server := (d_server d)\<lparr>term_hosts := (\<lambda>i. hosts_live i t)\<rparr>\<rparr>"

definition dropped :: "effect list \<Rightarrow> term_hosts_reg \<Rightarrow> term_hosts_reg" where
  "dropped es t = foldl (\<lambda>t e. case e of DropTermHost i \<Rightarrow> drop_host i t | _ \<Rightarrow> t) t es"

definition kill_on :: "config \<Rightarrow> outside \<Rightarrow> caller \<Rightarrow> bytes \<Rightarrow> dash \<Rightarrow> response \<times> dash" where
  "kill_on cfg w c i d = (case handleKill cfg w c i (d_server d) of (rep, s) \<Rightarrow>
     (RApi rep, let d1 = d\<lparr>d_server := s\<rparr>; es = drop (length (effects (d_server d))) (effects s)
       in if es = [] then d1 else with_hosts (dropped es (d_hosts d)) d1))"

text \<open>The reply to typed text comes with the tmux commands that were run.\<close>

definition input_on :: "config \<Rightarrow> outside \<Rightarrow> caller \<Rightarrow> bytes \<Rightarrow> (bytes \<times> bytes list) option \<Rightarrow> dash \<Rightarrow> response \<times> dash" where
  "input_on cfg w c i body d = (case handleInput cfg w c i body (d_server d) of
     (rep, cmds, s) \<Rightarrow> (RTyped rep cmds, d\<lparr>d_server := s\<rparr>))"

definition terminal_on :: "config \<Rightarrow> outside \<Rightarrow> caller \<Rightarrow> bytes \<Rightarrow> bytes \<Rightarrow> bytes \<Rightarrow> dash \<Rightarrow> response \<times> dash" where
  "terminal_on cfg w c i x y d = (case handleTerminalWS cfg w c i x y (d_server d) of
     (WsRefused rep, s) \<Rightarrow> (RApi rep, d\<lparr>d_server := s\<rparr>)
   | (WsRemote r wr, s) \<Rightarrow> (case serveRemoteTerminal r wr (d_hosts d) of
         (v, t) \<Rightarrow> (RViewer v, d\<lparr>d_server := s, d_hosts := t\<rparr>))
   | (WsLocal srv tgt z wr, s) \<Rightarrow> (RSocket (WsLocal srv tgt z wr), d\<lparr>d_server := s\<rparr>))"

definition host_on :: "config \<Rightarrow> outside \<Rightarrow> caller \<Rightarrow> bytes \<Rightarrow> (int \<times> int \<times> bool) option \<Rightarrow> dash \<Rightarrow> response \<times> dash" where
  "host_on cfg w c i hello d = (case handleTerminalHost cfg w c i hello (d_server d, d_hosts d) of
     (rep, s, t) \<Rightarrow> (RHost rep, case rep of OfferTaken n \<Rightarrow> with_hosts t (d\<lparr>d_server := s\<rparr>)
       | _ \<Rightarrow> d\<lparr>d_server := s, d_hosts := t\<rparr>))"

definition models_on :: "app \<Rightarrow> moment \<Rightarrow> dash \<Rightarrow> response \<times> dash" where
  "models_on a m d = (case modelOptions (curated_models a) (time (meets m)) (later m) (omp_models m) (d_models d) of
     (os, c) \<Rightarrow> (RModels os, d\<lparr>d_models := c\<rparr>))"

text \<open>A login is recorded in the directory before the browser is sent on.\<close>

definition callback_on :: "app \<Rightarrow> moment \<Rightarrow> http \<Rightarrow> dash \<Rightarrow> response \<times> dash" where
  "callback_on a m q d = (
     let r = Callback (lower_of a) (fold_of a) (mac_of a) (read_flow a) (auth_cfg (app_cfg a)) (time (meets m) div 1000000000) (idp_up m)
               (idp_exchange m) (rq_flow q) (rq_query q ''state'') (rq_query q ''error'') (rq_query q ''code'')
     in (RCallback r, case r of
          LoggedIn i next \<Rightarrow> d\<lparr>d_server := (d_server d)\<lparr>acls :=
            snd (Seen (lower_of a) (acl_write (meets m)) (time (meets m)) (idSub i) (idEmail i) (idName i) (idUsername i) (acls (d_server d)))\<rparr>\<rparr>
        | _ \<Rightarrow> d))"

text \<open>The pages behind the login.\<close>

definition page_on :: "app \<Rightarrow> moment \<Rightarrow> http \<Rightarrow> dash \<Rightarrow> response \<times> dash" where
  "page_on a m q d = (case serve_mux page_routes (rq_method q) (rq_path q) of
     MovedTo p \<Rightarrow> (RMoved p, d)
   | To PQR _ \<Rightarrow> (case handleQR (rq_query q ''data'') (rq_query q ''size'') of None \<Rightarrow> RBadRequest | Some (t, n) \<Rightarrow> RQR t n, d)
   | To PTerminal vs \<Rightarrow> (case handleTerminalPage (app_cfg a) (meets m) (callerOf a m q) (random_page m) (hd vs) (d_server d) of
         (None, s) \<Rightarrow> (RApi no_such_session, d\<lparr>d_server := s\<rparr>)
       | (Some (p, policy), s) \<Rightarrow> (RTerminal p policy, d\<lparr>d_server := s\<rparr>))
   | To PIndex _ \<Rightarrow> (case handleIndex (lower_of a) (app_cfg a) (relay_host a) (curated_models a) (current_of a m q) (random_page m) (url_path q) of
         None \<Rightarrow> RNotFound | Some (p, policy) \<Rightarrow> RIndex p policy, d)
   | NoRoute \<Rightarrow> (RNotFound, d))"

section \<open>The gates and the dispatch\<close>

definition gated :: "app \<Rightarrow> moment \<Rightarrow> http \<Rightarrow> (caller \<Rightarrow> dash \<Rightarrow> response \<times> dash) \<Rightarrow> dash \<Rightarrow> response \<times> dash" where
  "gated a m q next d = (case requireAPI (time (meets m)) (rq_addr q) (callerOf a m q) (d_fails d) of
     (Throttled, l) \<Rightarrow> (RTooMany, d\<lparr>d_fails := l\<rparr>)
   | (Refused, l) \<Rightarrow> (RUnauthorized, d\<lparr>d_fails := l\<rparr>)
   | (Through c, l) \<Rightarrow> next c (d\<lparr>d_fails := l\<rparr>))"

definition behind_login :: "app \<Rightarrow> moment \<Rightarrow> http \<Rightarrow> (dash \<Rightarrow> response \<times> dash) \<Rightarrow> dash \<Rightarrow> response \<times> dash" where
  "behind_login a m q next d = (case Middleware (lower_of a) (current_of a m q) (wantsJSON (url_path q) (rq_accept q) (rq_xreq q)) (rq_uri q) of
     Pass \<Rightarrow> next d | Unauthorized \<Rightarrow> (RUnauthorized, d) | RedirectTo u \<Rightarrow> (RMoved u, d))"

fun dispatch :: "app \<Rightarrow> moment \<Rightarrow> http \<Rightarrow> endpoint \<Rightarrow> bytes list \<Rightarrow> dash \<Rightarrow> response \<times> dash" where
  "dispatch a m q EHealth vs d = (RHealthy, d)"
| "dispatch a m q ELogin vs d = (RLogin (Login (lower_of a) (auth_cfg (app_cfg a)) (idp_up m) (random_state m) (random_verifier m)
     (random_nonce m) (rq_query q ''next'')), d)"
| "dispatch a m q ECallback vs d = callback_on a m q d"
| "dispatch a m q ELogout vs d = (RLoggedOut, d)"
| "dispatch a m q EList vs d = gated a m q (\<lambda>c. on_server (handleList (lower_of a) (app_cfg a) (meets m) c)) d"
| "dispatch a m q ECreate vs d = gated a m q (\<lambda>c. on_server (handleCreate (lower_of a) (app_cfg a) (meets m) c (body_create q))) d"
| "dispatch a m q EGet vs d = gated a m q (\<lambda>c. on_server (handleGetOne (lower_of a) (app_cfg a) (meets m) c (hd vs))) d"
| "dispatch a m q EScreen vs d = gated a m q (\<lambda>c. on_server (handleScreen (app_cfg a) (meets m) c (hd vs)
     (rq_query q ''format'') (rq_query q ''lines'') (rq_query q ''alt''))) d"
| "dispatch a m q EInput vs d = gated a m q (\<lambda>c. input_on (app_cfg a) (meets m) c (hd vs) (body_input q)) d"
| "dispatch a m q ETerminal vs d = gated a m q (\<lambda>c. terminal_on (app_cfg a) (meets m) c (hd vs) (rq_query q ''cols'') (rq_query q ''rows'')) d"
| "dispatch a m q EHost vs d = host_on (app_cfg a) (meets m) (callerOf a m q) (hd vs) (first_frame q) d"
| "dispatch a m q EKill vs d = gated a m q (\<lambda>c. kill_on (app_cfg a) (meets m) c (hd vs)) d"
| "dispatch a m q EAddMember vs d = gated a m q (\<lambda>c. on_server (handleAddMember (lower_of a) (app_cfg a) (meets m) c (hd vs) (body_member q))) d"
| "dispatch a m q ERemoveMember vs d = gated a m q (\<lambda>c. on_server (handleRemoveMember (lower_of a) (app_cfg a) (meets m) c (hd vs) (hd (tl vs)))) d"
| "dispatch a m q EUsers vs d = gated a m q (\<lambda>c. on_server (handleUsers (lower_of a) (app_cfg a) c (user_order m))) d"
| "dispatch a m q EModels vs d = gated a m q (\<lambda>c. models_on a m) d"
| "dispatch a m q ERegister vs d = on_server (handleRegister (lower_of a) (sha_of a) (app_cfg a) (meets m) (callerOf a m q) (body_register q)) d"
| "dispatch a m q EPane vs d = on_server (handleRemotePane (meets m) (body_read q) (hd vs)) d"
| "dispatch a m q ERelay vs d = (RRelay (ServeRelay (url_path q) (rq_query q ''role'')), d)"
| "dispatch a m q EWeb vs d = (RStatic (TrimPrefix (url_path q) ''/c/''), d)"
| "dispatch a m q EAssets vs d = (RAsset (assetHandler (loadAssets (sha_of a) (asset_files a)) (rq_method q) (url_path q)), d)"
| "dispatch a m q EBrowser vs d = behind_login a m q (page_on a m q) d"

definition Handler :: "app \<Rightarrow> moment \<Rightarrow> http \<Rightarrow> dash \<Rightarrow> response \<times> dash" where
  "Handler a m q d = (case serve_mux (routes (web_root a)) (rq_method q) (rq_path q) of
     To e vs \<Rightarrow> dispatch a m q e vs d | MovedTo p \<Rightarrow> (RMoved p, d) | NoRoute \<Rightarrow> (RNotFound, d))"


section \<open>The table is sound\<close>

lemma routes_register: "registers (routes web)"
  by (simp add: routes_def sessions_path_def pat_def below_def conflict_def methods_meet_def method_le_def pat_le_def)

lemma path_segs_some: "path_segs p = (ss, slashed) \<Longrightarrow> ss \<noteq> [] \<or> slashed"
  by (auto simp: path_segs_def Let_def split: if_splits)

lemma browser_catches: "ss \<noteq> [] \<or> slashed \<Longrightarrow> matching m ss slashed (below [])"
  by (auto simp: matching_def match_method_def below_def)



section \<open>Sample data\<close>

definition sample_app :: app where
  "sample_app = \<lparr>lower_of = ascii_ul, fold_of = (\<lambda>x. x), sha_of = (\<lambda>x. x), mac_of = rev, read_identity = (\<lambda>_. None),
     read_flow = (\<lambda>_. None), app_cfg = sample_cfg\<lparr>api_key_set := keyset (\<lambda>x. x) [(''amy'', ''open'')]\<rparr>,
     curated_models = [], relay_host = [], web_root = False, asset_files = []\<rparr>"

definition sample_moment :: moment where
  "sample_moment = \<lparr>meets = at_time 5, user_order = [], idp_up = True, idp_exchange = (\<lambda>_ _. None), random_state = ''s'',
     random_verifier = ''v'', random_nonce = ''n'', random_page = ''p'', omp_models = None, later = 6\<rparr>"

definition bare :: "bytes \<Rightarrow> bytes \<Rightarrow> bytes \<Rightarrow> http" where
  "bare m p key = \<lparr>rq_method = m, rq_path = p, rq_uri = p, rq_query = (\<lambda>_. []), rq_addr = ''10.0.0.7'', rq_authorization = [],
     rq_xkey = key, rq_cookie = None, rq_flow = None, rq_accept = [], rq_xreq = [], body_create = None, body_input = None,
     body_member = None, body_register = None, body_read = False, first_frame = Some (80, 24, True)\<rparr>"

definition sample_dash :: "(bytes \<rightharpoonup> nat \<times> nanos) \<Rightarrow> dash" where
  "sample_dash fs = with_hosts (snd (hosts_add (new_host ''covibe-1'' True 80 24) \<lparr>registry = Map.empty, host_of = Map.empty, connections = 0\<rparr>))
     \<lparr>d_server = sample_server, d_hosts = \<lparr>registry = Map.empty, host_of = Map.empty, connections = 0\<rparr>,
      d_fails = \<lparr>max_fails = 10, window = seconds 60, hits = fs\<rparr>, d_models = \<lparr>models = None, modelsAt = 0\<rparr>\<rparr>"

lemma sample_routes:
  "serve_mux (routes False) ''GET'' ''/api/v1/sessions/covibe-1/terminal/host'' = To EHost [''covibe-1'']"
  "serve_mux (routes False) ''GET'' ''/api/v1/sessions'' = To EList []"
  "serve_mux (routes False) ''DELETE'' ''/api/v1/sessions/covibe-1'' = To EKill [''covibe-1'']"
  "serve_mux (routes False) ''POST'' ''/api/v1/sessions/covibe-1/pane'' = To EPane [''covibe-1'']"
  by code_simp+

lemma bare_fields [simp]: "rq_method (bare m p key) = m" "rq_path (bare m p key) = p" "rq_addr (bare m p key) = ''10.0.0.7''"
  "rq_authorization (bare m p key) = []" "rq_xkey (bare m p key) = key" "rq_cookie (bare m p key) = None" 
  "body_register (bare m p key) = None"
  by (simp_all add: bare_def)

lemma sample_app_fields [simp]: "web_root sample_app = False" "sha_of sample_app = (\<lambda>x. x)" "meets sample_moment = at_time 5"
  by (simp_all add: sample_app_def sample_moment_def)

lemma TrimSpace_plain [simp]: "TrimSpace [] = []" "TrimSpace ''open'' = ''open''" "TrimSpace ''guess'' = ''guess''"
  by (simp_all add: TrimSpace_ascii ascii_def space_rune_def)

lemma bare_key: "token_of (bare m p key) = TrimSpace key"
  by (simp add: token_of_def bearerToken_def)

lemma sample_keys: "Lookup (\<lambda>x. x) ''open'' (api_key_set (app_cfg sample_app)) = (''amy'', True)"
  "Lookup (\<lambda>x. x) ''guess'' (api_key_set (app_cfg sample_app)) = ([], False)"
  by (simp_all add: sample_app_def Lookup_def keyset_def)

lemma sample_current: "current_of sample_app sample_moment (bare m p key) = None"
  by (simp add: current_of_def Current_def sample_app_def sample_cfg_def getSigned_def)

lemma sample_amy: "callerOf sample_app sample_moment (bare m p ''open'') =
   nobody\<lparr>c_machine := True, c_user := ''amy'', c_admin := False, c_principals := [''amy'']\<rparr>"
  by (simp add: callerOf_def newCaller_def bare_key sample_keys) (simp add: sample_app_def sample_cfg_def adminHandle_def)

section \<open>Strangers\<close>

definition stranger :: "app \<Rightarrow> moment \<Rightarrow> http \<Rightarrow> bool" where
  "stranger a m q = (\<not> snd (Lookup (sha_of a) (token_of q) (api_key_set (app_cfg a))) \<and> current_of a m q = None)"

lemma stranger_nobody: "stranger a m q \<Longrightarrow> callerOf a m q = nobody"
  by (cases "Lookup (sha_of a) (token_of q) (api_key_set (app_cfg a))") (simp add: stranger_def callerOf_def newCaller_def)

lemma stranger_gated: "stranger a m q \<Longrightarrow> \<exists>l r. gated a m q next d = (r, d\<lparr>d_fails := l\<rparr>) \<and> (r = RTooMany \<or> r = RUnauthorized)"
  using stranger_nobody [of a m q] by (auto simp: gated_def requireAPI_def nobody_def split: prod.split bool.split)

lemma stranger_login: "stranger a m q \<Longrightarrow> snd (behind_login a m q next d) = d"
  by (simp add: behind_login_def Middleware_def stranger_def)

text \<open>A change of records and tombstones only.\<close>

definition records_only :: "server \<Rightarrow> server \<Rightarrow> bool" where
  "records_only s t = (acls t = acls s \<and> term_hosts t = term_hosts s \<and> effects t = effects s)"

lemma records_over_limit: "over_limit cfg w s = (b, t) \<Longrightarrow> records_only s t"
  by (auto simp: over_limit_def records_only_def split: if_splits prod.splits)

lemma records_save: "records_only s (snd (register_save ul w nobody r s))"
  by (auto simp: register_save_def nobody_def records_only_def split: prod.split option.split)

lemma records_trans: "records_only s t \<Longrightarrow> records_only t u \<Longrightarrow> records_only s u"
  by (simp add: records_only_def)

lemma records_register: "records_only s (snd (handleRegister ul sha cfg w nobody body s))"
proof (cases body)
  case (Some q)
  obtain dead k where k: "was_killed (time w) (qRoomID q) (killed s) = (dead, k)" by fastforce
  obtain full t where t: "(if Load (minted sha w q) (files s) = None then over_limit cfg w (s\<lparr>killed := k\<rparr>) else (False, s\<lparr>killed := k\<rparr>)) = (full, t)"
    by fastforce
  have "records_only s (s\<lparr>killed := k\<rparr>)" by (simp add: records_only_def)
  moreover have "records_only (s\<lparr>killed := k\<rparr>) t"
    using t records_over_limit by (auto simp: records_only_def split: if_splits)
  ultimately show ?thesis
    using records_save records_trans k t Some
    by (auto simp: handleRegister_def Let_def records_only_def split: option.split)
qed (simp add: handleRegister_def records_only_def)

lemma records_pane: "records_only s (snd (handleRemotePane w ok i s))"
  by (simp add: handleRemotePane_def pane_begin_def pane_finish_def records_only_def split: prod.split option.split bool.split sum.split)

lemma callback_frame: "\<exists>t. snd (callback_on a m q d) = d\<lparr>d_server := (d_server d)\<lparr>acls := t\<rparr>\<rparr> \<and>
    sessions t = sessions (acls (d_server d))"
  by (auto simp: callback_on_def Let_def frame split: callback.split intro: exI [of _ "acls (d_server d)"])

lemma host_stranger: "stranger a m q \<Longrightarrow> snd (host_on (app_cfg a) w (callerOf a m q) i hello d) = d"
  using stranger_nobody [of a m q] by (simp add: host_on_def handleTerminalHost_def nobody_def)


definition gated_endpoints :: "endpoint list" where
  "gated_endpoints = [EList, ECreate, EGet, EScreen, EInput, ETerminal, EKill, EAddMember, ERemoveMember, EUsers, EModels]"

lemma dispatch_gated: "e \<in> set gated_endpoints \<Longrightarrow> \<exists>next. dispatch a m q e vs d = gated a m q next d"
  by (auto simp: gated_endpoints_def)



section \<open>Guessing keys\<close>

lemma host_on_machine: "c_machine c \<Longrightarrow> fst (host_on cfg w c i hello d) \<noteq> RHost (OfferRefused (Fail 403 ''terminal hosting requires an API key''))"
  by (auto simp: host_on_def handleTerminalHost_def no_such_session_def Let_def split: prod.split option.split)

text \<open>C38: The terminal-host route lets anybody guess API keys. A request to it is answered 403 exactly if
  its token is no key, whether or not its address is blocked and without counting against it; on every
  other keyed route a blocked address learns nothing.\<close>

theorem host_route_unthrottled:
  assumes "serve_mux (routes (web_root a)) (rq_method q) (rq_path q) = To EHost [i]"
    and "serve_mux (routes (web_root a)) (rq_method q') (rq_path q') = To EList []"
    and "fst (blocked (time (meets m)) (rq_addr q') (d_fails d))" and "rq_addr q = rq_addr q'"
  shows "(fst (Handler a m q d) = RHost (OfferRefused (Fail 403 ''terminal hosting requires an API key''))
      \<longleftrightarrow> \<not> Valid (sha_of a) (token_of q) (api_key_set (app_cfg a))) \<and>
    d_fails (snd (Handler a m q d)) = d_fails d \<and> fst (Handler a m q' d) = RTooMany"
proof -
  have "c_machine (callerOf a m q) \<longleftrightarrow> Valid (sha_of a) (token_of q) (api_key_set (app_cfg a))"
    by (auto simp: callerOf_def newCaller_def Valid_def nobody_def split: prod.split bool.split option.split)
  moreover have "fst (host_on cfg w c i hello d) = RHost (OfferRefused (Fail 403 ''terminal hosting requires an API key''))
      \<longleftrightarrow> \<not> c_machine c" for cfg w c hello
    using host_on_machine [of c cfg w i hello d] by (auto simp: host_on_def handleTerminalHost_def)
  moreover have "d_fails (snd (host_on cfg w c i hello d)) = d_fails d" for cfg w c hello
    by (auto simp: host_on_def with_hosts_def split: prod.split host_offer.split)
  moreover have "fst (gated a m q' next d) = RTooMany" for "next"
    using assms(3) by (auto simp: gated_def requireAPI_def split: prod.split)
  ultimately show ?thesis using assms(1,2) by (simp add: Handler_def)
qed

theorem host_route_unthrottled_witness:
  "let blocked = sample_dash [''10.0.0.7'' \<mapsto> (10, seconds 60)];
     offer = (\<lambda>key. fst (Handler sample_app sample_moment (bare ''GET'' ''/api/v1/sessions/covibe-1/terminal/host'' key) blocked));
     refused = RHost (OfferRefused (Fail 403 ''terminal hosting requires an API key''))
   in offer ''guess'' = refused \<and> offer ''open'' \<noteq> refused \<and>
      fst (Handler sample_app sample_moment (bare ''GET'' ''/api/v1/sessions'' ''open'') blocked) = RTooMany"
proof -
  have b: "fst (blocked 5 ''10.0.0.7'' (d_fails (sample_dash [''10.0.0.7'' \<mapsto> (10, seconds 60)])))"
    by (simp add: sample_dash_def with_hosts_def blocked_def expire_def seconds_def)
  note t = host_route_unthrottled [of sample_app "bare ''GET'' ''/api/v1/sessions/covibe-1/terminal/host'' k" "''covibe-1''"
      "bare ''GET'' ''/api/v1/sessions'' ''open''" sample_moment "sample_dash [''10.0.0.7'' \<mapsto> (10, seconds 60)]" for k]
  show ?thesis
    using t [of "''guess''"] t [of "''open''"] b
    by (simp add: sample_routes bare_key sample_keys Valid_def)
qed

end
