(* ===== verification/Dashboard.thy ===== *)
theory Dashboard
  imports Routes
begin

text \<open>
  The dashboard over any sequence of requests: the invariant that every handler keeps (\<open>dash_inv\<close>), what
  a kill comes to for everything that is connected, and what the two ends of the browser's socket and of
  the page's policy make of each other.
\<close>

section \<open>What every handler keeps\<close>

text \<open>Records stay under their own ids, and the flags of the terminal hosts are as they were.\<close>

definition keeps :: "server \<Rightarrow> server \<Rightarrow> bool" where
  "keeps s t = (term_hosts t = term_hosts s \<and> (spool_inv (files s) \<longrightarrow> spool_inv (files t)))"

lemma keeps_refl [simp]: "keeps s s"
  by (simp add: keeps_def)

lemma keeps_trans: "keeps s t \<Longrightarrow> keeps t u \<Longrightarrow> keeps s u"
  by (simp add: keeps_def)

lemma keeps_fields [simp]: "keeps s (s\<lparr>acls := a\<rparr>)" "keeps s (s\<lparr>killed := k\<rparr>)" "keeps s (effect e s)"
  by (simp_all add: keeps_def effect_def)

lemma keeps_acls [simp]: "keeps s (t\<lparr>acls := a\<rparr>) = keeps s t"
  by (simp add: keeps_def)

lemma keeps_Live: "Live e n (files s) = (rs, f) \<Longrightarrow> keeps s (s\<lparr>files := f\<rparr>)"
  using Live_kept(2) by (auto simp: keeps_def)

lemma keeps_Save: "Save e r (files s) = (x, f) \<Longrightarrow> keeps s (s\<lparr>files := f\<rparr>)"
  using Save_spool_inv [of "files s" e r] by (simp add: keeps_def)

lemma keeps_liveRecord: "liveRecord cfg w i s = (x, t) \<Longrightarrow> keeps s t"
  by (auto simp: liveRecord_def keeps_Live split: prod.splits option.splits)

lemma keeps_visibleRecord: "visibleRecord cfg w c i s = (x, t) \<Longrightarrow> keeps s t"
  by (auto simp: visibleRecord_def keeps_liveRecord split: prod.splits option.splits if_splits)

lemma keeps_terminalTarget: "terminalTarget cfg w c i s = (x, t) \<Longrightarrow> keeps s t"
  by (auto simp: terminalTarget_def keeps_visibleRecord split: prod.splits option.splits if_splits)

lemma keeps_manageable: "manageable cfg w c i s = (x, t) \<Longrightarrow> keeps s t"
  by (auto simp: manageable_def Let_def keeps_liveRecord split: prod.splits option.splits if_splits)

lemma keeps_over_limit: "over_limit cfg w s = (b, t) \<Longrightarrow> keeps s t"
  by (auto simp: over_limit_def keeps_Live split: prod.splits if_splits)

lemma keeps_List: "keeps s (snd (handleList ul cfg w c s))"
  by (auto simp: handleList_def Let_def keeps_Live split: prod.split option.split)

lemma keeps_GetOne: "keeps s (snd (handleGetOne ul cfg w c i s))"
  by (auto simp: handleGetOne_def keeps_visibleRecord split: prod.split option.split)

lemma keeps_Screen: "keeps s (snd (handleScreen cfg w c i f n alt s))"
  by (auto simp: handleScreen_def Let_def keeps_terminalTarget split: prod.split option.split sum.split)

lemma keeps_Input: "handleInput cfg w c i body s = (rep, cmds, t) \<Longrightarrow> keeps s t"
  by (auto simp: handleInput_def Let_def keeps_terminalTarget split: prod.splits option.splits sum.splits if_splits)

lemma keeps_Terminal: "handleTerminalWS cfg w c i x y s = (v, t) \<Longrightarrow> keeps s t"
  by (auto simp: handleTerminalWS_def Let_def keeps_visibleRecord split: prod.splits option.splits if_splits)

lemma keeps_AddMember: "keeps s (snd (handleAddMember ul cfg w c i body s))"
  by (auto simp: handleAddMember_def Let_def keeps_manageable split: prod.split option.split sum.split)

lemma keeps_RemoveMember: "keeps s (snd (handleRemoveMember ul cfg w c i key s))"
  by (auto simp: handleRemoveMember_def keeps_manageable split: prod.split option.split sum.split)

lemma keeps_Users: "keeps s (snd (handleUsers ul cfg c ks s))"
  by (simp add: handleUsers_def)

lemma keeps_effect: "keeps s t \<Longrightarrow> keeps s (effect e t)"
  by (simp add: keeps_def effect_def)

lemma keeps_Create: "keeps s (snd (handleCreate ul cfg w c body s))"
  by (auto simp: handleCreate_def Let_def keeps_over_limit intro!: keeps_effect split: prod.split option.split bool.split sum.split)

lemma keeps_save: "keeps s (snd (register_save ul w c r s))"
  by (auto simp: register_save_def keeps_Save split: prod.split option.split)

lemma keeps_Register: "keeps s (snd (handleRegister ul sha cfg w c body s))"
proof (cases body)
  case (Some q)
  obtain dead k where k: "was_killed (time w) (qRoomID q) (killed s) = (dead, k)" by fastforce
  obtain full t where t: "(if Load (minted sha w q) (files s) = None then over_limit cfg w (s\<lparr>killed := k\<rparr>) else (False, s\<lparr>killed := k\<rparr>)) = (full, t)"
    by fastforce
  have "keeps (s\<lparr>killed := k\<rparr>) t"
    using t keeps_over_limit by (auto split: if_splits)
  with keeps_fields(2) have "keeps s t" by (rule keeps_trans)
  then show ?thesis
    using keeps_trans [OF _ keeps_save] k t Some by (auto simp: handleRegister_def Let_def split: option.split)
qed (simp add: handleRegister_def)

lemma keeps_Pane: "keeps s (snd (handleRemotePane w ok i s))"
  by (auto simp: handleRemotePane_def pane_begin_def pane_finish_def keeps_Save split: prod.split option.split bool.split sum.split)

lemma keeps_TerminalPage: "handleTerminalPage cfg w c n i s = (x, t) \<Longrightarrow> keeps s t"
  by (auto simp: handleTerminalPage_def Let_def keeps_liveRecord split: prod.splits option.splits if_splits)


section \<open>The whole dashboard\<close>

definition dash_inv :: "dash \<Rightarrow> bool" where
  "dash_inv d = (spool_inv (files (d_server d)) \<and> reg_inv (d_hosts d) \<and>
     term_hosts (d_server d) = (\<lambda>i. hosts_live i (d_hosts d)))"

lemma dash_inv_keeps: "dash_inv d \<Longrightarrow> keeps (d_server d) t \<Longrightarrow> dash_inv (d\<lparr>d_server := t\<rparr>)"
  by (simp add: dash_inv_def keeps_def)

lemma dash_inv_other [simp]: "dash_inv (d\<lparr>d_fails := l\<rparr>) = dash_inv d" "dash_inv (d\<lparr>d_models := ms\<rparr>) = dash_inv d"
  by (simp_all add: dash_inv_def)

lemma dash_inv_with_hosts: "spool_inv (files (d_server d)) \<Longrightarrow> reg_inv t \<Longrightarrow> dash_inv (with_hosts t d)"
  by (simp add: dash_inv_def with_hosts_def)

lemma dash_inv_on_server: "dash_inv d \<Longrightarrow> keeps (d_server d) (snd (f (d_server d))) \<Longrightarrow> dash_inv (snd (on_server f d))"
  by (cases "f (d_server d)") (simp add: on_server_def dash_inv_keeps)

lemma dash_inv_gated: "dash_inv d \<Longrightarrow> (\<And>c e. dash_inv e \<Longrightarrow> dash_inv (snd (next c e))) \<Longrightarrow> dash_inv (snd (gated a m q next d))"
  by (auto simp: gated_def split: prod.split api_gate.split)

lemma drop_host_inv: "reg_inv t \<Longrightarrow> reg_inv (drop_host i t)"
  by (auto simp: drop_host_def hosts_remove_inv split: option.split)

lemma dropped_inv: "reg_inv t \<Longrightarrow> reg_inv (dropped es t)"
  unfolding dropped_def by (induction es arbitrary: t) (auto simp: drop_host_inv split: effect.split)

lemma kill_record_effects:
  "\<exists>es. effects (kill_record w r s) = effects s @ es \<and> (es = [] \<longrightarrow> term_hosts (kill_record w r s) = term_hosts s) \<and>
     (rRemote r \<longrightarrow> es = (if term_hosts s (rID r) then [DropTermHost (rID r)] else []))"
  by (auto simp: kill_record_def stop_process_def dropTermHost_def effect_def Let_def)

lemma handleKill_effects:
  assumes "handleKill cfg w c i s = (rep, t)"
  shows "\<exists>es. effects t = effects s @ es \<and> (es = [] \<longrightarrow> term_hosts t = term_hosts s)"
    and "spool_inv (files s) \<Longrightarrow> spool_inv (files t)"
proof -
  obtain x s1 where l: "liveRecord cfg w i s = (x, s1)" by fastforce
  have e: "effects s1 = effects s" "term_hosts s1 = term_hosts s"
    using l by (auto simp: liveRecord_def split: prod.splits option.splits)
  have t: "t = s1 \<or> (\<exists>r. t = kill_record w r s1)"
    using assms l by (auto simp: handleKill_def Let_def split: option.splits if_splits)
  show "\<exists>es. effects t = effects s @ es \<and> (es = [] \<longrightarrow> term_hosts t = term_hosts s)"
    using t kill_record_effects [of w _ s1] e by auto
  show "spool_inv (files t)" if "spool_inv (files s)"
    using t keeps_liveRecord [OF l] that by (auto simp: keeps_def kill_record_fields Save_spool_inv)
qed

lemma dash_inv_kill: 
  assumes "dash_inv d"
  shows "dash_inv (snd (kill_on cfg w c i d))"
proof -
  obtain rep t where k: "handleKill cfg w c i (d_server d) = (rep, t)" by fastforce
  obtain es where es: "effects t = effects (d_server d) @ es" "es = [] \<longrightarrow> term_hosts t = term_hosts (d_server d)"
    using handleKill_effects(1) [OF k] by blast
  have "spool_inv (files t)" "reg_inv (dropped es (d_hosts d))"
    using assms handleKill_effects(2) [OF k] dropped_inv by (simp_all add: dash_inv_def)
  then show ?thesis
    using assms k es by (auto simp: kill_on_def Let_def dash_inv_with_hosts) (simp add: dash_inv_def)
qed

lemma th_attach_fields: "th_closed (snd (th_attach h)) = th_closed h" "th_session (snd (th_attach h)) = th_session h"
  by (simp_all add: th_attach_def Let_def)

lemma serveRemote_keeps:
  assumes i: "reg_inv t" and s: "serveRemoteTerminal r wr t = (v, t1)"
  shows "reg_inv t1 \<and> (\<lambda>i. hosts_live i t1) = (\<lambda>i. hosts_live i t)"
proof -
  consider "t1 = t" | n h where "hosts_get (rID r) t = Some (n, h)"
      "t1 = t\<lparr>host_of := (host_of t)(n \<mapsto> snd (th_attach h))\<rparr>"
    using s by (cases "hosts_get (rID r) t") (auto simp: serveRemoteTerminal_def split: option.splits prod.splits if_splits)
  then show ?thesis
  proof cases
    case 2
    have h: "host_of t n = Some h" using 2(1) by (auto simp: hosts_get_def split: option.splits)
    have f: "th_closed (snd (th_attach h)) = th_closed h" "th_session (snd (th_attach h)) = th_session h" "th_inv (snd (th_attach h))"
      using th_attach_fields th_attach_inv [OF reg_invD(2) [OF i h]] by simp_all
    note D = reg_invD [OF i]
    have "reg_inv t1"
    proof (rule reg_invI)
      show "host_of t1 k = None" if "connections t1 \<le> k" for k using D(1) [of k] that h 2(2) by auto
      show "th_inv g" if "host_of t1 k = Some g" for k g using D(2) [of k g] that 2(2) f by (auto split: if_splits)
      show "th_closed g" if "host_of t1 k = Some g" "registry t1 (th_session g) \<noteq> Some k" for k g
        using D(3) [of k g] D(3) [OF h] that 2(2) f by (auto split: if_splits)
      show "\<exists>g. host_of t1 k = Some g \<and> th_session g = sid" if "registry t1 sid = Some k" for sid k
        using D(4) [of sid k] that h 2(2) f by auto
    qed
    moreover have "hosts_live j t1 = hosts_live j t" for j
      using 2(2) f h by (simp add: hosts_live_def hosts_get_def split: option.split)
    ultimately show ?thesis by blast
  qed (simp add: i)
qed

lemma dash_inv_terminal: 
  assumes "dash_inv d"
  shows "dash_inv (snd (terminal_on cfg w c i x y d))"
proof -
  obtain v t where k: "handleTerminalWS cfg w c i x y (d_server d) = (v, t)" by fastforce
  note d = dash_inv_keeps [OF assms keeps_Terminal [OF k]]
  show ?thesis
  proof (cases v)
    case (WsRemote r wr)
    obtain vo t1 where s: "serveRemoteTerminal r wr (d_hosts d) = (vo, t1)" by fastforce
    have "reg_inv (d_hosts d)" using assms by (simp add: dash_inv_def)
    then show ?thesis using serveRemote_keeps [OF _ s] k WsRemote d s by (simp add: terminal_on_def dash_inv_def)
  qed (use k d in \<open>simp_all add: terminal_on_def\<close>)
qed

lemma dash_inv_host:
  assumes "dash_inv d"
  shows "dash_inv (snd (host_on cfg w c i hello d))"
proof -
  obtain rep s t where k: "handleTerminalHost cfg w c i hello (d_server d, d_hosts d) = (rep, s, t)" by (metis prod_cases3)
  have s: "keeps (d_server d) s"
    using k keeps_trans [OF keeps_liveRecord keeps_fields(2)]
    by (auto simp: handleTerminalHost_def Let_def dest: keeps_liveRecord split: option.splits prod.splits if_splits)
  have t: "reg_inv t" "(\<forall>n. rep \<noteq> OfferTaken n) \<longrightarrow> t = d_hosts d"
    using k assms hosts_add_inv(1) [of "d_hosts d"] th_inv_new
    by (auto simp: handleTerminalHost_def Let_def dash_inv_def split: option.splits prod.splits if_splits) (metis new_host_fields(2) snd_conv)+
  show ?thesis
    using k s t assms by (cases rep) (simp_all add: host_on_def dash_inv_with_hosts dash_inv_def keeps_def with_hosts_def)
qed

lemma dash_inv_callback: "dash_inv d \<Longrightarrow> dash_inv (snd (callback_on a m q d))"
  by (auto simp: callback_on_def Let_def intro!: dash_inv_keeps split: callback.split)

lemma dash_inv_page: 
  assumes "dash_inv d"
  shows "dash_inv (snd (page_on a m q d))"
proof -
  have "dash_inv (d\<lparr>d_server := t\<rparr>)" if "handleTerminalPage (app_cfg a) (meets m) (callerOf a m q) (random_page m) i (d_server d) = (x, t)" for i x t
    by (rule dash_inv_keeps [OF assms keeps_TerminalPage [OF that]])
  then show ?thesis using assms
    by (simp add: page_on_def split: routed.split page_endpoint.split option.split prod.split)
qed

lemma dash_inv_input: "dash_inv d \<Longrightarrow> dash_inv (snd (input_on cfg w c i body d))"
  by (auto simp: input_on_def intro: dash_inv_keeps keeps_Input split: prod.split)

lemma dash_inv_models: "dash_inv d \<Longrightarrow> dash_inv (snd (models_on a m d))"
  by (simp add: models_on_def split: prod.split)

lemmas handlers_keep = keeps_List keeps_Create keeps_GetOne keeps_Screen keeps_AddMember keeps_RemoveMember keeps_Users
  keeps_Register keeps_Pane

lemmas handlers_inv = dash_inv_kill dash_inv_terminal dash_inv_host dash_inv_callback dash_inv_page dash_inv_input
  dash_inv_models

lemma dispatch_inv: "dash_inv d \<Longrightarrow> dash_inv (snd (dispatch a m q e vs d))"
  by (cases e) (auto simp: handlers_keep handlers_inv dash_inv_on_server behind_login_def intro!: dash_inv_gated split: gate.split)

lemma sample_dash_inv: "dash_inv (sample_dash fs)"
  unfolding sample_dash_def
  by (rule dash_inv_with_hosts) (simp_all add: hosts_add_inv(1) reg_inv_empty th_inv_new, simp add: spool_inv_def)

text \<open>C14: Every request leaves the dashboard consistent. Whatever is asked, by whom, and whatever the world
  does meanwhile, records stay under their own ids, an open terminal host is the registered one of its
  session and its viewers' channels are open, and a session counts as having a terminal exactly if such
  a host is connected.\<close>

theorem dashboard_invariant: "dash_inv d \<Longrightarrow> dash_inv (snd (Handler a m q d))"
  by (simp add: Handler_def dispatch_inv split: routed.split)

theorem dashboard_invariant_witness:
  "dash_inv (snd (Handler sample_app sample_moment (bare ''GET'' ''/api/v1/sessions'' ''open'') (sample_dash Map.empty)))"
  by (rule dashboard_invariant [OF sample_dash_inv])

section \<open>A kill, seen from the network\<close>

text \<open>A killed session: buried in the server, and no host of it connected.\<close>

definition cut :: "nanos \<Rightarrow> bytes \<Rightarrow> bytes \<Rightarrow> dash \<Rightarrow> bool" where
  "cut t0 i rm d = (dash_inv d \<and> dead t0 i rm (d_server d) \<and> \<not> hosts_live i (d_hosts d))"

text \<open>While the tombstone lasts, and unless a wrapper registers another room under the very same id.\<close>

definition meanwhile :: "app \<Rightarrow> nanos \<Rightarrow> bytes \<Rightarrow> bytes \<Rightarrow> moment \<times> http \<Rightarrow> bool" where
  "meanwhile a t0 i rm e = (t0 \<le> time (meets (fst e)) \<and> time (meets (fst e)) \<le> t0 + killedTTL \<and>
     (case body_register (snd e) of None \<Rightarrow> True
      | Some b \<Rightarrow> qRoomID b = rm \<and> rm \<noteq> [] \<or> minted (sha_of a) (meets (fst e)) b \<noteq> i))"

definition dash_step :: "app \<Rightarrow> dash \<Rightarrow> moment \<times> http \<Rightarrow> dash" where
  "dash_step a d e = snd (Handler a (fst e) (snd e) d)"

lemma dead_visibleRecord: "dead t0 i rm s \<Longrightarrow> visibleRecord cfg w c j s = (x, t) \<Longrightarrow> dead t0 i rm t"
  by (auto simp: visibleRecord_def dead_liveRecord split: prod.splits option.splits if_splits)

lemma dead_terminalTarget: "dead t0 i rm s \<Longrightarrow> terminalTarget cfg w c j s = (x, t) \<Longrightarrow> dead t0 i rm t"
  by (auto simp: terminalTarget_def dead_visibleRecord split: prod.splits option.splits if_splits)

lemma dead_Screen: "dead t0 i rm s \<Longrightarrow> dead t0 i rm (snd (handleScreen cfg w c j f n alt s))"
  by (auto simp: handleScreen_def Let_def dead_terminalTarget split: prod.split option.split sum.split)

lemma dead_Input: "dead t0 i rm s \<Longrightarrow> handleInput cfg w c j body s = (rep, cmds, t) \<Longrightarrow> dead t0 i rm t"
  by (auto simp: handleInput_def Let_def dead_terminalTarget split: prod.splits option.splits sum.splits if_splits)

lemma dead_Terminal: "dead t0 i rm s \<Longrightarrow> handleTerminalWS cfg w c j x y s = (v, t) \<Longrightarrow> dead t0 i rm t"
  by (auto simp: handleTerminalWS_def Let_def dead_visibleRecord split: prod.splits option.splits if_splits)

lemma dead_Page: "dead t0 i rm s \<Longrightarrow> handleTerminalPage cfg w c n j s = (x, t) \<Longrightarrow> dead t0 i rm t"
  by (auto simp: handleTerminalPage_def Let_def dead_liveRecord split: prod.splits option.splits if_splits)

lemma dead_hosts [simp]: "dead t0 i rm (s\<lparr>term_hosts := h\<rparr>) = dead t0 i rm s"
  by (rule dead_cong) simp_all

lemma liveRecord_id: "liveRecord cfg w j s = (Some r, t) \<Longrightarrow> spool_inv (files s) \<Longrightarrow> rID r = j \<and> files s j = Some r"
  using liveRecord_Some(1,2) by blast

text \<open>A host is taken only for a session that has not ended.\<close>

lemma dead_host:
  assumes "dead t0 i rm s" "time w \<le> t0 + killedTTL" and "handleTerminalHost cfg w c j hello (s, t) = (rep, s', t')"
  shows "dead t0 i rm s'" and "t' = t \<or> j \<noteq> i \<and> (\<exists>h. t' = snd (hosts_add h t) \<and> th_session h = j)"
proof -
  have k: "dead t0 i rm (u\<lparr>killed := snd (was_killed (time w) key (killed u))\<rparr>)" if "dead t0 i rm u" for u key
    by (rule dead_was_killed [OF that assms(2)])
  obtain x s1 where l: "liveRecord cfg w j s = (x, s1)" by fastforce
  note d1 = dead_liveRecord [OF assms(1) l]
  show "dead t0 i rm s'"
    using assms(1,3) l d1 k [OF d1, of "rRoomID (the x)"]
    by (auto simp: handleTerminalHost_def Let_def split: option.splits if_splits prod.splits)
  show "t' = t \<or> j \<noteq> i \<and> (\<exists>h. t' = snd (hosts_add h t) \<and> th_session h = j)"
  proof (cases "t' = t")
    case False
    then obtain r n h where r: "x = Some r" "rStatus r \<noteq> StatusEnded" "hosts_add h t = (n, t')" "th_session h = rID r"
      using assms(3) l by (auto simp: handleTerminalHost_def Let_def split: option.splits if_splits prod.splits)
    have "spool_inv (files s)" using assms(1) by (simp add: dead_def)
    then have "rID r = j" "files s j = Some r" using liveRecord_id l r(1) by blast+
    then have "j \<noteq> i" using assms(1) r(2) by (auto simp: dead_def)
    then show ?thesis using r(3,4) \<open>rID r = j\<close> by (metis snd_conv)
  qed simp
qed

lemma close_host_shut: "th_closed (close_host h)"
proof -
  have "th_closed g \<Longrightarrow> th_closed (run th_step g es)" for g es
    by (induction es arbitrary: g) (simp_all add: th_step_session)
  then show ?thesis by (simp add: close_host_def Let_def th_close_lock_def)
qed

lemma hosts_live_iff: "hosts_live i t \<longleftrightarrow> (\<exists>n h. registry t i = Some n \<and> host_of t n = Some h \<and> \<not> th_closed h)"
  by (auto simp: hosts_live_def hosts_get_def split: option.split)

lemma live_close_conn: "hosts_live i (close_conn n t) \<Longrightarrow> hosts_live i t"
  by (auto simp: hosts_live_iff close_conn_def close_host_shut split: if_splits)

lemma live_drop: "hosts_live i (drop_host j t) \<Longrightarrow> hosts_live i t"
proof -
  have "hosts_live i (hosts_remove n t) \<Longrightarrow> hosts_live i t" for n
    by (auto simp: hosts_remove_def dest!: live_close_conn split: option.splits if_splits)
      (auto simp: hosts_live_iff split: if_splits)
  then show "hosts_live i (drop_host j t) \<Longrightarrow> hosts_live i t"
    by (auto simp: drop_host_def split: option.splits)
qed

lemma live_dropped: "hosts_live i (dropped es t) \<Longrightarrow> hosts_live i t"
proof (induction es arbitrary: t)
  case (Cons e es)
  have "dropped (e # es) t = dropped es (case e of DropTermHost j \<Rightarrow> drop_host j t | _ \<Rightarrow> t)" by (simp add: dropped_def)
  with Cons have "hosts_live i (case e of DropTermHost j \<Rightarrow> drop_host j t | _ \<Rightarrow> t)" by metis
  then show ?case by (cases e) (simp_all add: live_drop)
qed (simp add: dropped_def)

lemma live_add: "reg_inv t \<Longrightarrow> th_session h \<noteq> i \<Longrightarrow> hosts_live i (snd (hosts_add h t)) \<Longrightarrow> hosts_live i t"
proof -
  assume r: "reg_inv t" and n: "th_session h \<noteq> i" and l: "hosts_live i (snd (hosts_add h t))"
  have "registry t i \<noteq> Some (connections t)" using reg_invD(1) [OF r, of "connections t"] reg_invD(4) [OF r, of i] by force
  then show ?thesis using n l
    by (auto simp: hosts_add_def Let_def dest!: live_close_conn split: option.splits if_splits)
      (auto simp: hosts_live_iff split: if_splits)
qed

lemma drop_cuts: "\<not> hosts_live i (drop_host i t)" if "reg_inv t"
proof (cases "hosts_get i t")
  case (Some x)
  then obtain n h where h: "registry t i = Some n" "host_of t n = Some h" "x = (n, h)"
    by (auto simp: hosts_get_def split: option.splits)
  then have "th_session h = i" using reg_invD(4) [OF that, of i n] by auto
  then have "registry (drop_host i t) i = None" using h Some by (simp add: drop_host_def hosts_remove_def close_conn_def)
  then show ?thesis by (simp add: hosts_live_def hosts_get_def)
qed (simp add: drop_host_def hosts_live_def)

lemma dropped_cuts: "reg_inv t \<Longrightarrow> DropTermHost i \<in> set es \<Longrightarrow> \<not> hosts_live i (dropped es t)"
proof (induction es arbitrary: t)
  case (Cons e es)
  have d: "dropped (e # es) t = dropped es (dropped [e] t)" by (simp add: dropped_def)
  show ?case
  proof (cases "e = DropTermHost i")
    case True
    then show ?thesis using drop_cuts [OF Cons.prems(1)] live_dropped [of i es "drop_host i t"] by (auto simp: dropped_def)
  next
    case False
    then show ?thesis using Cons.IH [OF dropped_inv [OF Cons.prems(1), of "[e]"]] Cons.prems(2) d by auto
  qed
qed simp

section \<open>A killed session stays cut\<close>

lemma dead_kill: "dead t0 i rm s \<Longrightarrow> t0 \<le> time w \<Longrightarrow> time w \<le> t0 + killedTTL \<Longrightarrow> dead t0 i rm (snd (handleKill cfg w c j s))"
  using dead_serve [of t0 i rm s "\<lambda>x. x" "(w, QKill c j)" "\<lambda>x. x" cfg] by (simp add: while_buried_def serve_def)

lemma hosts_on_server [simp]: "d_hosts (snd (on_server f d)) = d_hosts d" "d_server (snd (on_server f d)) = snd (f (d_server d))"
  by (simp_all add: on_server_def split: prod.split)

lemma cut_keeps: "cut t0 i rm d \<Longrightarrow> dead t0 i rm t \<Longrightarrow> keeps (d_server d) t \<Longrightarrow> cut t0 i rm (d\<lparr>d_server := t\<rparr>)"
  by (simp add: cut_def dash_inv_keeps)

lemma cut_on_server: "cut t0 i rm d \<Longrightarrow> keeps (d_server d) (snd (f (d_server d))) \<Longrightarrow> dead t0 i rm (snd (f (d_server d)))
    \<Longrightarrow> cut t0 i rm (snd (on_server f d))"
  by (simp add: cut_def dash_inv_on_server)

lemma cut_gated: "cut t0 i rm d \<Longrightarrow> (\<And>c e. cut t0 i rm e \<Longrightarrow> cut t0 i rm (snd (next c e))) \<Longrightarrow> cut t0 i rm (snd (gated a m q next d))"
  by (auto simp: gated_def cut_def split: prod.split api_gate.split)


lemma cut_kill:
  assumes c: "cut t0 i rm d" and t: "t0 \<le> time w" "time w \<le> t0 + killedTTL"
  shows "cut t0 i rm (snd (kill_on cfg w c j d))"
proof -
  obtain rep s where k: "handleKill cfg w c j (d_server d) = (rep, s)" by fastforce
  have "dead t0 i rm s" using dead_kill [of t0 i rm "d_server d" w cfg c j] c t k by (simp add: cut_def)
  moreover have "dash_inv (snd (kill_on cfg w c j d))" using c dash_inv_kill by (simp add: cut_def)
  moreover have "\<not> hosts_live i (dropped es (d_hosts d))" for es using c live_dropped by (auto simp: cut_def)
  ultimately show ?thesis using k c by (auto simp: cut_def kill_on_def with_hosts_def Let_def)
qed

lemma cut_terminal: "cut t0 i rm d \<Longrightarrow> cut t0 i rm (snd (terminal_on cfg w c j x y d))"
proof -
  assume c: "cut t0 i rm d"
  obtain v t where k: "handleTerminalWS cfg w c j x y (d_server d) = (v, t)" by fastforce
  have d: "dead t0 i rm t" using c dead_Terminal [OF _ k] by (simp add: cut_def)
  have "d_server (snd (terminal_on cfg w c j x y d)) = t"
    using k by (simp add: terminal_on_def split: ws_open.split prod.split)
  moreover have "\<not> hosts_live i (d_hosts (snd (terminal_on cfg w c j x y d)))"
  proof (cases v)
    case (WsRemote r wr)
    have "reg_inv (d_hosts d)" using c by (simp add: cut_def dash_inv_def)
    from serveRemote_keeps [OF this] show ?thesis
      using k WsRemote c by (auto simp: terminal_on_def cut_def fun_eq_iff split: prod.split)
  qed (use k c in \<open>simp_all add: terminal_on_def cut_def\<close>)
  ultimately show ?thesis using c d dash_inv_terminal by (simp add: cut_def)
qed

lemma cut_host:
  assumes c: "cut t0 i rm d" and t: "time w \<le> t0 + killedTTL"
  shows "cut t0 i rm (snd (host_on cfg w c j hello d))"
proof -
  obtain rep s t' where k: "handleTerminalHost cfg w c j hello (d_server d, d_hosts d) = (rep, s, t')" by (metis prod_cases3)
  have "dead t0 i rm (d_server d)" using c by (simp add: cut_def)
  note h = dead_host [OF this t k]
  have "reg_inv (d_hosts d)" "\<not> hosts_live i (d_hosts d)" using c by (simp_all add: cut_def dash_inv_def)
  then have "\<not> hosts_live i t'" using h(2) live_add by blast
  then show ?thesis
    using c h(1) k dash_inv_host [of d cfg w c j hello]
    by (cases rep) (simp_all add: cut_def host_on_def with_hosts_def)
qed

lemma cut_other [simp]: "cut t0 i rm (d\<lparr>d_fails := l\<rparr>) = cut t0 i rm d" "cut t0 i rm (d\<lparr>d_models := ms\<rparr>) = cut t0 i rm d"
  by (simp_all add: cut_def)

lemma cut_callback: "cut t0 i rm d \<Longrightarrow> cut t0 i rm (snd (callback_on a m q d))"
  by (auto simp: callback_on_def Let_def cut_def intro!: dash_inv_keeps split: callback.split)

lemma cut_page: 
  assumes "cut t0 i rm d"
  shows "cut t0 i rm (snd (page_on a m q d))"
proof -
  have "cut t0 i rm (d\<lparr>d_server := t\<rparr>)" if "handleTerminalPage (app_cfg a) (meets m) (callerOf a m q) (random_page m) j (d_server d) = (x, t)" for j x t
    using assms dead_Page [OF _ that] by (intro cut_keeps [OF assms _ keeps_TerminalPage [OF that]]) (simp add: cut_def)
  then show ?thesis using assms
    by (simp add: page_on_def split: routed.split page_endpoint.split option.split prod.split)
qed

lemma cut_input: "cut t0 i rm d \<Longrightarrow> cut t0 i rm (snd (input_on cfg w c j body d))"
  by (auto simp: input_on_def cut_def intro: dash_inv_keeps keeps_Input dead_Input split: prod.split)

lemma cut_models: "cut t0 i rm d \<Longrightarrow> cut t0 i rm (snd (models_on a m d))"
  by (simp add: models_on_def split: prod.split)

text \<open>The handlers of \<open>Server\<close>, by way of its own machine.\<close>

lemma dispatch_cut:
  assumes c: "cut t0 i rm d" and m: "meanwhile a t0 i rm (m, q)"
  shows "cut t0 i rm (snd (dispatch a m q e vs d))"
proof -
  let ?dead = "dead t0 i rm"
  have t: "t0 \<le> time (meets m)" "time (meets m) \<le> t0 + killedTTL" using m by (simp_all add: meanwhile_def)
  have on: "cut t0 i rm (snd (on_server f e))"
    if "cut t0 i rm e" "\<And>s. keeps s (snd (f s))" "\<And>s. ?dead s \<Longrightarrow> ?dead (snd (f s))" for f e
    using that cut_on_server by (simp add: cut_def dash_inv_on_server)
  have g: "cut t0 i rm (snd (gated a m q (\<lambda>c. on_server (f c)) d))"
    if "\<And>c s. keeps s (snd (f c s))" "\<And>c s. ?dead s \<Longrightarrow> ?dead (snd (f c s))" for f
    by (rule cut_gated [OF c], rule on) (use that in simp_all)
  have b: "?dead (snd (answer (lower_of a) (sha_of a) (app_cfg a) (meets m) r s))"
    if "?dead s" "\<And>c b. r = QRegister c (Some b) \<Longrightarrow> body_register q = Some b" for r s
  proof -
    have "qRoomID x = rm \<and> rm \<noteq> [] \<or> minted (sha_of a) (meets m) x \<noteq> i" if "body_register q = Some x" for x
      using m that by (simp add: meanwhile_def)
    then have "while_buried (sha_of a) t0 i rm (meets m, r)" using t that(2) by (auto simp: while_buried_def)
    from dead_serve [OF that(1) this] show ?thesis by (simp add: serve_def)
  qed
  show ?thesis
  proof (cases e)
    case EList
    show ?thesis unfolding EList dispatch.simps by (rule g) (simp add: keeps_List, use b [of _ "QList _"] in simp)
  next
    case ECreate
    show ?thesis unfolding ECreate dispatch.simps by (rule g) (simp add: keeps_Create, use b [of _ "QCreate _ _"] in simp)
  next
    case EGet
    show ?thesis unfolding EGet dispatch.simps by (rule g) (simp add: keeps_GetOne, use b [of _ "QGet _ _"] in simp)
  next
    case EAddMember
    show ?thesis unfolding EAddMember dispatch.simps by (rule g) (simp add: keeps_AddMember, use b [of _ "QAdd _ _ _"] in simp)
  next
    case ERemoveMember
    show ?thesis unfolding ERemoveMember dispatch.simps
      by (rule g) (simp add: keeps_RemoveMember, use b [of _ "QRemove _ _ _"] in simp)
  next
    case EUsers
    show ?thesis unfolding EUsers dispatch.simps by (rule g) (simp add: keeps_Users, use b [of _ "QUsers _ _"] in simp)
  next
    case EPane
    show ?thesis unfolding EPane dispatch.simps by (rule on [OF c]) (simp add: keeps_Pane, use b [of _ "QPane _ _"] in simp)
  next
    case ERegister
    show ?thesis unfolding ERegister dispatch.simps
      by (rule on [OF c]) (simp add: keeps_Register, use b [of _ "QRegister _ (body_register q)"] in simp)
  next
    case EScreen
    show ?thesis unfolding EScreen dispatch.simps by (rule g) (simp_all add: keeps_Screen dead_Screen)
  qed (use c t in \<open>simp_all add: cut_gated cut_input cut_terminal cut_host cut_kill cut_callback cut_models cut_page
         behind_login_def split: gate.split\<close>)
qed

interpretation cutting: machine "dash_step a" "meanwhile a t0 i rm" "cut t0 i rm"
proof
  fix d e assume "cut t0 i rm d" "meanwhile a t0 i rm e"
  then show "cut t0 i rm (dash_step a d e)"
    using dispatch_cut [of t0 i rm d a "fst e" "snd e"] by (simp add: dash_step_def Handler_def split: routed.split)
qed

interpretation consistent: machine "dash_step a" "\<lambda>_. True" dash_inv
  by unfold_locales (simp add: dash_step_def Handler_def dispatch_inv split: routed.split)


lemma stop_process_effects: "\<exists>es. stop_process w r s = s\<lparr>effects := effects s @ es\<rparr> \<and> (\<forall>t. dropped es t = t)"
  unfolding stop_process_def effect_def dropped_def Let_def
  by (auto intro: exI [of _ "[]"] exI [of _ "[_]"] exI [of _ "[_, _]"])

lemma kill_drops: "\<exists>es. effects (kill_record w r s) = effects s @ es \<and>
    (\<forall>t. dropped es t = (if term_hosts s (rID r) then drop_host (rID r) t else t)) \<and> (term_hosts s (rID r) \<longrightarrow> es \<noteq> [])"
proof -
  obtain es where es: "stop_process w r s = s\<lparr>effects := effects s @ es\<rparr>" "\<And>t. dropped es t = t"
    using stop_process_effects by blast
  have "dropped (es @ [DropTermHost i]) t = drop_host i t" for i t
    using es(2) by (simp add: dropped_def)
  then show ?thesis
    using es by (auto simp: kill_record_def Let_def dropTermHost_def effect_def)
qed

lemma kill_on_done:
  assumes d: "dash_inv d" and f: "files (d_server d) i = Some r" and k: "kill_on cfg w c i d = (RApi (Reply n p), d1)"
  shows "d_hosts d1 = (if hosts_live i (d_hosts d) then drop_host i (d_hosts d) else d_hosts d)"
    and "i \<noteq> [] \<Longrightarrow> write_ok (sys w) \<Longrightarrow> cut (time w) i (rRoomID r) d1"
proof -
  obtain s1 where s1: "handleKill cfg w c i (d_server d) = (Reply n p, s1)"
    using k by (cases "handleKill cfg w c i (d_server d)") (auto simp: kill_on_def)
  have inv: "spool_inv (files (d_server d))" using d by (simp add: dash_inv_def)
  obtain g where g: "s1 = kill_record w r ((d_server d)\<lparr>files := g\<rparr>)" "rID r = i" using kill_done [OF inv s1 f] by blast
  obtain es where es: "effects s1 = effects (d_server d) @ es"
    "\<And>t. dropped es t = (if term_hosts (d_server d) i then drop_host i t else t)" "term_hosts (d_server d) i \<longrightarrow> es \<noteq> []"
    using kill_drops [of w r "(d_server d)\<lparr>files := g\<rparr>"] g by auto
  have fl: "term_hosts (d_server d) i = hosts_live i (d_hosts d)" using d by (simp add: dash_inv_def)
  show h: "d_hosts d1 = (if hosts_live i (d_hosts d) then drop_host i (d_hosts d) else d_hosts d)"
    using k s1 es fl by (auto simp: kill_on_def with_hosts_def Let_def split: if_splits)
  assume w: "i \<noteq> []" "write_ok (sys w)"
  have "dead (time w) i (rRoomID r) (d_server d1)"
    using killed_dead [OF inv s1 f w] k s1 by (auto simp: kill_on_def with_hosts_def Let_def split: if_splits)
  moreover have "dash_inv d1" using dash_inv_kill [OF d, of cfg w c i] k by simp
  moreover have "\<not> hosts_live i (d_hosts d1)" using h drop_cuts d by (simp add: dash_inv_def)
  ultimately show "cut (time w) i (rRoomID r) d1" by (simp add: cut_def)
qed

lemma drop_shuts:
  assumes "reg_inv t" and "hosts_get i t = Some (n, h)" and "v \<in> set (viewers h)"
  shows "\<exists>h'. host_of (drop_host i t) n = Some h' \<and> th_closed h' \<and> shut (vchan h' v)"
proof -
  have h: "host_of t n = Some h" using assms(2) by (auto simp: hosts_get_def split: option.splits)
  then have "host_of (drop_host i t) n = Some (close_host h)"
    using assms(2) by (simp add: drop_host_def hosts_remove_def close_conn_def)
  then show ?thesis using close_host_closed [OF reg_invD(2) [OF assms(1) h], of v] assms(3) by blast
qed

lemma gated_api:
  assumes "gated a m q next d = (RApi x, d1)"
  shows "\<exists>c l. next c (d\<lparr>d_fails := l\<rparr>) = (RApi x, d1)"
  using assms by (auto simp: gated_def split: prod.splits api_gate.splits)

lemma cut_pane: "cut t0 i rm d \<Longrightarrow> i \<noteq> [] \<Longrightarrow> t0 \<le> time (meets m) \<Longrightarrow> time (meets m) \<le> t0 + killedTTL \<Longrightarrow>
    fst (dispatch a m q EPane [i] d) = RApi (Reply 200 (Stop True))"
  using dead_answers(1) [of t0 i rm "d_server d" "meets m" "body_read q"]
  by (simp add: on_server_def cut_def case_prod_unfold)

lemma cut_register: "cut t0 i rm d \<Longrightarrow> i \<noteq> [] \<Longrightarrow> t0 \<le> time (meets m) \<Longrightarrow> time (meets m) \<le> t0 + killedTTL \<Longrightarrow>
    body_register q = Some b \<Longrightarrow> qRoomID b = rm \<Longrightarrow> rm \<noteq> [] \<Longrightarrow>
    fst (dispatch a m q ERegister vs d) = RApi (Fail 410 ''session was killed'')"
  using dead_answers(2) [of t0 i rm "d_server d" "meets m" b "lower_of a" "sha_of a" "app_cfg a" "callerOf a m q"]
  by (simp add: on_server_def cut_def case_prod_unfold)

lemma cut_no_host:
  assumes "cut t0 i rm d" and "time w \<le> t0 + killedTTL"
  shows "fst (host_on cfg w c i hello d) \<noteq> RHost (OfferTaken n)"
proof
  assume o: "fst (host_on cfg w c i hello d) = RHost (OfferTaken n)"
  obtain rep s t' where k: "handleTerminalHost cfg w c i hello (d_server d, d_hosts d) = (rep, s, t')" by (metis prod_cases3)
  have "dead t0 i rm (d_server d)" using assms(1) by (simp add: cut_def)
  from dead_host(2) [OF this assms(2) k] have "t' = d_hosts d" by blast
  moreover have "connections t' = Suc (connections (d_hosts d))"
    using o k by (auto simp: host_on_def handleTerminalHost_def hosts_add_def close_conn_def Let_def split: option.splits prod.splits if_splits)
  ultimately show False by simp
qed

lemma cut_no_viewer:
  assumes "cut t0 i rm d"
  shows "fst (terminal_on cfg w c i x y d) \<noteq> RViewer (ViewerOn n b z v)"
proof
  assume o: "fst (terminal_on cfg w c i x y d) = RViewer (ViewerOn n b z v)"
  then obtain r wr s where k: "handleTerminalWS cfg w c i x y (d_server d) = (WsRemote r wr, s)"
    and v: "fst (serveRemoteTerminal r wr (d_hosts d)) = ViewerOn n b z v"
    by (auto simp: terminal_on_def split: prod.splits ws_open.splits)
  obtain u where "visibleRecord cfg w c i (d_server d) = (Some r, u)"
    using k by (auto simp: handleTerminalWS_def Let_def split: prod.splits option.splits if_splits)
  then have "liveRecord cfg w i (d_server d) = (Some r, u)"
    by (auto simp: visibleRecord_def split: prod.splits option.splits if_splits)
  then have "rID r = i" using liveRecord_id assms by (auto simp: cut_def dash_inv_def)
  then have "hosts_live i (d_hosts d)"
    using v by (auto simp: serveRemoteTerminal_def hosts_live_def split: option.splits prod.splits if_splits)
  then show False using assms by (simp add: cut_def)
qed


text \<open>C9: A kill cuts the terminal and it stays cut. When a session is killed, the wrapper's connection
  and the channels of all its viewers are closed with the reply; after any further requests
  while the tombstone lasts, no wrapper hosts the session's terminal and no viewer gets one, heartbeats
  are told to stop and the room cannot register again.\<close>

theorem kill_cuts_terminal:
  assumes "dash_inv d" and "serve_mux (routes (web_root a)) (rq_method q) (rq_path q) = To EKill [i]"
    and "fst (Handler a m q d) = RApi (Reply n p)" and "files (d_server d) i = Some r" and "i \<noteq> []" and "write_ok (sys (meets m))"
    and "list_all (meanwhile a (time (meets m)) i (rRoomID r)) es"
    and "time (meets m) \<le> time (meets m')" and "time (meets m') \<le> time (meets m) + killedTTL"
  shows "let d1 = snd (Handler a m q d); d2 = run (dash_step a) d1 es; rep = fst (Handler a m' q' d2);
      rt = serve_mux (routes (web_root a)) (rq_method q') (rq_path q')
    in (\<forall>k h v. hosts_get i (d_hosts d) = Some (k, h) \<and> v \<in> set (viewers h) \<longrightarrow>
         (\<exists>h'. host_of (d_hosts d1) k = Some h' \<and> th_closed h' \<and> shut (vchan h' v))) \<and>
       \<not> hosts_live i (d_hosts d2) \<and>
       (rt = To EHost [i] \<longrightarrow> (\<forall>k. rep \<noteq> RHost (OfferTaken k))) \<and>
       (rt = To ETerminal [i] \<longrightarrow> (\<forall>k wr z v. rep \<noteq> RViewer (ViewerOn k wr z v))) \<and>
       (rt = To EPane [i] \<longrightarrow> rep = RApi (Reply 200 (Stop True))) \<and>
       (rt = To ERegister [] \<and> (\<exists>b. body_register q' = Some b \<and> qRoomID b = rRoomID r) \<and> rRoomID r \<noteq> [] \<longrightarrow>
          rep = RApi (Fail 410 ''session was killed''))"
proof -
  let ?d1 = "snd (Handler a m q d)"
  let ?d2 = "run (dash_step a) ?d1 es"
  have "gated a m q (\<lambda>c. kill_on (app_cfg a) (meets m) c i) d = (RApi (Reply n p), ?d1)"
    using assms(2,3) by (cases "Handler a m q d") (simp add: Handler_def)
  then obtain c l where "kill_on (app_cfg a) (meets m) c i (d\<lparr>d_fails := l\<rparr>) = (RApi (Reply n p), ?d1)"
    using gated_api by blast
  note k = kill_on_done [OF _ _ this, of r]
  have d1: "d_hosts ?d1 = (if hosts_live i (d_hosts d) then drop_host i (d_hosts d) else d_hosts d)"
    using k(1) assms(1,4) by simp
  have "cut (time (meets m)) i (rRoomID r) ?d1" using k(2) assms(1,4,5,6) by simp
  from cutting.run_inv [OF this assms(7)] have c: "cut (time (meets m)) i (rRoomID r) ?d2" .
  have reg: "reg_inv (d_hosts d)" using assms(1) by (simp add: dash_inv_def)
  have "\<exists>h'. host_of (d_hosts ?d1) k = Some h' \<and> th_closed h' \<and> shut (vchan h' v)"
    if h: "hosts_get i (d_hosts d) = Some (k, h)" "v \<in> set (viewers h)" for k h v
  proof -
    have "host_of (d_hosts d) k = Some h" using h(1) by (auto simp: hosts_get_def split: option.splits)
    then have "\<not> th_closed h" using reg_invD(2) [OF reg] h(2) by (fastforce simp: th_inv_def)
    then have "hosts_live i (d_hosts d)" using h(1) by (simp add: hosts_live_def)
    then show ?thesis using drop_shuts [OF reg h] d1 by simp
  qed
  moreover have "\<not> hosts_live i (d_hosts ?d2)" using c by (simp add: cut_def)
  moreover have "rt = To EHost [i] \<longrightarrow> (\<forall>k. fst (dispatch a m' q' EHost [i] ?d2) \<noteq> RHost (OfferTaken k))" for rt :: "endpoint routed"
    using cut_no_host [OF c assms(9)] by simp
  moreover have "fst (dispatch a m' q' ETerminal [i] ?d2) \<noteq> RViewer (ViewerOn k wr z v)" for k wr z v
  proof -
    have "cut (time (meets m)) i (rRoomID r) (?d2\<lparr>d_fails := l\<rparr>)" for l using c by simp
    from cut_no_viewer [OF this] show ?thesis by (auto simp: gated_def split: prod.split api_gate.split)
  qed
  ultimately show ?thesis
    using cut_pane [OF c assms(5,8,9)] cut_register [OF c assms(5,8,9)]
    by (auto simp: Handler_def Let_def simp del: dispatch.simps)
qed

lemma sample_killed:
  "fst (Handler sample_app sample_moment (bare ''DELETE'' ''/api/v1/sessions/covibe-1'' ''open'') (sample_dash Map.empty))
     = RApi (Reply 200 (Killed ''covibe-1''))"
proof -
  have "fst (handleKill (app_cfg sample_app) (at_time 5) (nobody\<lparr>c_machine := True, c_user := ''amy'', c_admin := False, c_principals := [''amy'']\<rparr>)
     ''covibe-1'' (sample_server\<lparr>term_hosts := f\<rparr>)) = Reply 200 (Killed ''covibe-1'')" for f
    by (simp add: handleKill_def liveRecord_def Live_eq listing_def lives_def Alive_def RemoteTTL_def seconds_def sample_app_def
      canSee_def canManage_def nobody_def Allows_def Let_def)
  then show ?thesis
    by (simp add: Handler_def sample_routes gated_def requireAPI_def sample_amy blocked_def expire_def sample_dash_def with_hosts_def
        nobody_def kill_on_def case_prod_unfold)
qed

theorem kill_cuts_terminal_witness:
  "let d = sample_dash Map.empty; q = bare ''DELETE'' ''/api/v1/sessions/covibe-1'' ''open'';
       d' = run (dash_step sample_app) (snd (Handler sample_app sample_moment q d)) [(sample_moment, bare ''GET'' ''/api/v1/sessions'' ''open'')]
   in hosts_live ''covibe-1'' (d_hosts d) \<and> \<not> hosts_live ''covibe-1'' (d_hosts d') \<and>
      fst (Handler sample_app sample_moment (bare ''POST'' ''/api/v1/sessions/covibe-1/pane'' []) d') = RApi (Reply 200 (Stop True))"
proof -
  let ?d = "sample_dash Map.empty" let ?q = "bare ''DELETE'' ''/api/v1/sessions/covibe-1'' ''open''"
  have r: "serve_mux (routes (web_root sample_app)) (rq_method ?q) (rq_path ?q) = To EKill [''covibe-1'']" by (simp add: sample_routes)
  have f: "files (d_server ?d) ''covibe-1'' = Some (sample_rec\<lparr>rUpdatedAt := 5\<rparr>)" by (simp add: sample_dash_def with_hosts_def)
  have l: "hosts_live ''covibe-1'' (d_hosts ?d)"
    by (simp add: sample_dash_def with_hosts_def hosts_live_iff hosts_add_def Let_def)
  have m: "list_all (meanwhile sample_app (time (meets sample_moment)) ''covibe-1'' (rRoomID (sample_rec\<lparr>rUpdatedAt := 5\<rparr>)))
      [(sample_moment, bare ''GET'' ''/api/v1/sessions'' ''open'')]"
    by (simp add: meanwhile_def killedTTL_def seconds_def)
  show ?thesis
    using kill_cuts_terminal [OF sample_dash_inv r sample_killed f _ _ m, of sample_moment "bare ''POST'' ''/api/v1/sessions/covibe-1/pane'' []"] l
    by (simp add: Let_def sample_routes killedTTL_def seconds_def)
qed

section \<open>A hello that comes after the kill\<close>

text \<open>\<open>handleTerminalHost\<close> in its two steps: the checks (which a wrapper passes that has not said hello
  yet), then, when the hello has come, the registration.\<close>

lemma host_two_steps:
  "handleTerminalHost cfg w c i (Some (x, y, wr)) st = (case handleTerminalHost cfg w c i None st of
     (OfferDropped, s, t) \<Rightarrow> (case hosts_add (new_host i wr x y) t of (n, t1) \<Rightarrow> (OfferTaken n, s, t1)) | r \<Rightarrow> r)"
  if "spool_inv (files (fst st))"
proof -
  obtain s t where st: "st = (s, t)" by (cases st)
  obtain ro s1 where l: "liveRecord cfg w i s = (ro, s1)" by fastforce
  have "rID r = i" if "ro = Some r" for r using l that liveRecord_id \<open>spool_inv (files (fst st))\<close> st by auto
  then show ?thesis
    using st l by (auto simp: handleTerminalHost_def Let_def split: option.split prod.split)
qed


lemma sample_host_checks: "\<exists>s1. handleTerminalHost sample_cfg (at_time 5) (as_user ''amy'') ''covibe-1'' None
    (d_server (sample_dash Map.empty), d_hosts (sample_dash Map.empty)) = (OfferDropped, s1, d_hosts (sample_dash Map.empty)) \<and>
    files s1 = files sample_server \<and> acls s1 = sample_acls"
  by (simp add: sample_dash_def with_hosts_def handleTerminalHost_def liveRecord_def Live_eq listing_def lives_def Alive_def RemoteTTL_def seconds_def
      canSee_def as_user_def nobody_def Allows_def was_killed_def Let_def)
    (auto split: if_splits)

lemma kill_on_reply: "fst (kill_on cfg w c i d) = RApi (fst (handleKill cfg w c i (d_server d)))"
  by (simp add: kill_on_def case_prod_unfold)


section \<open>Browser and router\<close>

lemma encode_component_eq: "encode_component b = c \<Longrightarrow> PathUnescape c = Some b"
  using component.dec_enc by blast

lemma encoded_segment: "s \<notin> {[], ''.'', ''..''} \<Longrightarrow> component (encode_component s) \<and> encode_component s \<noteq> ''..''"
proof -
  assume s: "s \<notin> {[], ''.'', ''..''}"
  have "PathUnescape [] = Some []" "PathUnescape ''.'' = Some ''.''" "PathUnescape ''..'' = Some ''..''" by simp_all
  then have "encode_component s \<noteq> []" "encode_component s \<noteq> ''.''" "encode_component s \<noteq> ''..''"
    using s encode_component_eq [of s] by auto
  moreover have "slash \<notin> set (encode_component s)" by (rule encode_component_no_delim) (simp add: slash_def)
  ultimately show ?thesis by (simp add: component_def)
qed

lemma terminal_path_clean:
  assumes "component c" and "c \<noteq> ''..''"
  shows "cleanPath (''/api/v1/sessions/'' @ c @ ''/terminal'') = ''/api/v1/sessions/'' @ c @ ''/terminal''"
    and "path_segs (''/api/v1/sessions/'' @ c @ ''/terminal'') = ([''api'', ''v1'', ''sessions'', c, ''terminal''], False)"
proof -
  let ?cs = "[''api'', ''v1'', ''sessions'', c, ''terminal'']"
  have p: "''/api/v1/sessions/'' @ c @ ''/terminal'' = path_text True ?cs" by (simp add: path_text_def slash_def)
  have "list_all component ?cs" using assms by (simp add: component_def slash_def)
  then have "Clean (path_text True ?cs) = path_text True ?cs" by (rule Clean_text) (use assms(2) in simp)
  then show "cleanPath (''/api/v1/sessions/'' @ c @ ''/terminal'') = ''/api/v1/sessions/'' @ c @ ''/terminal''"
    by (simp add: cleanPath_def Let_def slash_def p [symmetric, simplified])
  have "slash \<notin> set c" using assms by (simp add: component_def)
  then show "path_segs (''/api/v1/sessions/'' @ c @ ''/terminal'') = (?cs, False)"
    using Split_append [of slash c "''terminal''"] by (simp add: path_segs_def Let_def slash_def)
qed



text \<open>C34: The terminal's styles pass the page's policy. The nonce a page is served with is in the style
  sources of its policy whatever the random bytes were; the page's script finds it on its own script
  element, so that the style elements made while the terminal opens carry exactly an allowed nonce.\<close>

theorem styles_allowed:
  assumes "handleTerminalPage cfg w c random24 i s = (Some (page, policy), s')" and "random24 \<noteq> []"
    and "nonce_property e = Some (tpNonce page) \<or> nonce_property e = None \<and> nonce_attribute e = Some (tpNonce page)"
  shows "let n = pageNonce (Some e) in n = tpNonce page \<and>
    [quote] @ ''nonce-'' @ n @ [quote] \<in> set (directive ''style-src'' policy) \<and>
    (map lower_char t = ''style'' \<longrightarrow>
       fst (withNonce n (\<lambda>d. (Inr (createElement d t) :: unit + element, d)) doc) = Inr ((createElement doc t)\<lparr>nonce_attr := Some n\<rparr>))"
proof -
  have p: "tpNonce page = randToken random24" "policy = csp (randToken random24)"
    using assms(1) by (auto simp: handleTerminalPage_def Let_def split: prod.splits option.splits if_splits)
  have "list_all url_safe (randToken random24)" by (simp add: randToken_def rawurl_encode_safe)
  moreover have "\<not> url_safe CHR '';''" "\<not> url_safe CHR '' ''" by (simp_all add: url_safe_def url_val_def digit_val_def)
  ultimately have "CHR '';'' \<notin> set (randToken random24)" "CHR '' '' \<notin> set (randToken random24)" by (auto simp: list_all_iff)
  note d = csp_styles [OF this]
  have "length (randToken random24) \<noteq> 0"
    using assms(2) by (cases random24) (simp_all add: randToken_def length_rawurl_encode)
  then have n: "randToken random24 \<noteq> []" by auto
  then have "pageNonce (Some e) = tpNonce page" using assms(3) p(1) by (auto simp: pageNonce_def truthy_def)
  then show ?thesis using p d n by (simp add: withNonce_def Let_def)
qed

lemma sample_live: "\<exists>s1. liveRecord sample_cfg (at_time 5) ''covibe-1'' sample_server = (Some (sample_rec\<lparr>rUpdatedAt := 5\<rparr>), s1)
    \<and> acls s1 = sample_acls"
  by (simp add: liveRecord_def Live_eq listing_def lives_def Alive_def RemoteTTL_def seconds_def)

theorem styles_allowed_witness:
  "\<exists>page policy s'. handleTerminalPage sample_cfg (at_time 5) (as_user ''amy'') ''random'' ''covibe-1'' sample_server = (Some (page, policy), s') \<and>
     pageNonce (Some \<lparr>nonce_property = None, nonce_attribute = Some (tpNonce page)\<rparr>) = tpNonce page"
proof -
  obtain s1 where l: "liveRecord sample_cfg (at_time 5) ''covibe-1'' sample_server = (Some (sample_rec\<lparr>rUpdatedAt := 5\<rparr>), s1)"
      "acls s1 = sample_acls" using sample_live by blast
  then obtain page policy s' where p: "handleTerminalPage sample_cfg (at_time 5) (as_user ''amy'') ''random'' ''covibe-1'' sample_server
      = (Some (page, policy), s')"
    by (simp add: handleTerminalPage_def canSee_def as_user_def nobody_def Allows_def Let_def)
  have r: "''random'' \<noteq> []" by simp
  show ?thesis
    using styles_allowed [OF p r, of "\<lparr>nonce_property = None, nonce_attribute = Some (tpNonce page)\<rparr>"] p by (simp add: Let_def)
qed

end
