(* ===== verification/Launch.thy ===== *)
theory Launch
  imports Server
begin

text \<open>
  Starting a session: the room and its links (\<open>collablink\<close>), the tmux session's name and the command
  that makes it (\<open>mux\<close>), and the wrapper's command line (\<open>launch\<close>), with the flag parser that reads it
  back in \<open>covibe session\<close> (the \<open>flag\<close> package on the string flags of \<open>main.go\<close>).
\<close>

section \<open>Rooms and links\<close>

record room =
  roomID :: bytes
  roomSecret :: bytes

definition roomIDBytes :: nat where "roomIDBytes = 16"
definition keyBytes :: nat where "keyBytes = 32"
definition tokenBytes :: nat where "tokenBytes = 16"

text \<open>\<open>random\<close> is what the random source filled the buffer with, or \<open>None\<close> when it failed.\<close>

definition Mint :: "bytes option \<Rightarrow> room option" where
  "Mint random = map_option (\<lambda>b. \<lparr>roomID = rawurl_encode (take roomIDBytes b),
     roomSecret = rawurl_encode (drop roomIDBytes b)\<rparr>) random"

definition JoinLink :: "bytes \<Rightarrow> bytes \<Rightarrow> bytes \<Rightarrow> bytes" where
  "JoinLink relayHost room secret = relayHost @ ''/r/'' @ room @ ''.'' @ secret"

definition BrowserURL :: "bytes \<Rightarrow> bytes \<Rightarrow> bytes \<Rightarrow> bytes \<Rightarrow> bytes" where
  "BrowserURL webClient relayHost room secret = TrimSuffix webClient ''/'' @ ''/#'' @ JoinLink relayHost room secret"

section \<open>The tmux session\<close>

definition mux_rune :: "nat \<Rightarrow> bool" where
  "mux_rune r = (97 \<le> r \<and> r \<le> 122 \<or> 65 \<le> r \<and> r \<le> 90 \<or> 48 \<le> r \<and> r \<le> 57 \<or> r = 45 \<or> r = 95)"

definition sanitizeMux :: "bytes \<Rightarrow> bytes" where
  "sanitizeMux s = Trim (map (\<lambda>r. if mux_rune r then char_of r else CHR ''-'') (runes s)) ''-''"

definition mux_shortID :: "bytes \<Rightarrow> bytes" where
  "mux_shortID i = (let s = sanitizeMux i; s = (if length s > 8 then drop (length s - 8) s else s) in Trim s ''-_'')"

definition SessionName :: "bytes \<Rightarrow> bytes \<Rightarrow> bytes \<Rightarrow> bytes" where
  "SessionName base name i = (let n = sanitizeMux name;
     n = (if n = [] then sanitizeMux base else n);
     n = (if n = [] then ''covibe'' else n);
     s = mux_shortID i
   in if s \<noteq> [] then n @ ''-'' @ s else n)"

definition tmuxArgv :: "bytes \<Rightarrow> bytes list" where
  "tmuxArgv socket = (if socket = [] then [''tmux''] else [''tmux'', ''-S'', socket])"

record mux_spec =
  sID :: bytes
  sName :: bytes
  sDir :: bytes
  sSession :: bytes
  sSocket :: bytes
  sInner :: "bytes list"

definition mux_Command :: "mux_spec \<Rightarrow> bytes list option" where
  "mux_Command s = (if sSession s = [] then None
     else Some (tmuxArgv (sSocket s) @ [''new-session'', ''-d'', ''-s'', sSession s, ''-n'', sName s] @
       (if sID s \<noteq> [] then [''-e'', ''COVIBE_SESSION_ID='' @ sID s] else []) @
       (if sDir s \<noteq> [] then [''-c'', sDir s] else []) @ [''--''] @ sInner s))"

text \<open>\<open>runs\<close> says whether a command line succeeds; the result is whether the launch did and what was run.\<close>

definition mux_Launch :: "(bytes list \<Rightarrow> bool) \<Rightarrow> mux_spec \<Rightarrow> bool \<times> bytes list list" where
  "mux_Launch runs s = (case mux_Command s of None \<Rightarrow> (False, [])
   | Some cmd \<Rightarrow>
       if \<not> runs cmd then (False, [cmd])
       else if sID s \<noteq> [] then
         let tag = tmuxArgv (sSocket s) @ [''set-option'', ''-t'', ''='' @ sSession s @ '':'', IDOption, sID s]
         in (runs tag, [cmd, tag])
       else (True, [cmd]))"

definition mux_Kill :: "bytes \<Rightarrow> bytes \<Rightarrow> bytes list list" where
  "mux_Kill socket session = (if session = [] then [] else [tmuxArgv socket @ [''kill-session'', ''-t'', ''='' @ session]])"

section \<open>The wrapper's command line\<close>

record launch_options =
  oSelf :: bytes
  oID :: bytes
  oName :: bytes
  oDir :: bytes
  oMuxSession :: bytes
  oMuxSocket :: bytes
  oRelayHost :: bytes
  oWebClient :: bytes
  oLocalRelay :: bytes
  oOmp :: bytes
  oStateDir :: bytes
  oModel :: bytes
  oThinking :: bytes

definition opt_flag :: "bytes \<Rightarrow> bytes \<Rightarrow> bytes list" where
  "opt_flag f v = (if v \<noteq> [] then [f, v] else [])"

text \<open>\<open>exe\<close> is the path of the running executable, when it can be found.\<close>

definition inner :: "bytes option \<Rightarrow> launch_options \<Rightarrow> bytes \<Rightarrow> bytes \<Rightarrow> bytes list option" where
  "inner exe q i sess = (case (if oSelf q = [] then exe else Some (oSelf q)) of None \<Rightarrow> None
   | Some self \<Rightarrow> Some ([self, ''session'', ''--name'', oName q, ''--dir'', oDir q,
       ''--omp'', (if oOmp q = [] then ''omp'' else oOmp q), ''--mux-session'', sess] @
       opt_flag ''--mux-socket'' (oMuxSocket q) @ opt_flag ''--relay-host'' (oRelayHost q) @
       opt_flag ''--web-client'' (oWebClient q) @ opt_flag ''--local-relay'' (oLocalRelay q) @
       opt_flag ''--state-dir'' (oStateDir q) @ opt_flag ''--model'' (oModel q) @
       opt_flag ''--thinking'' (oThinking q) @ [''--id'', i]))"

definition NewID :: "int \<Rightarrow> int \<Rightarrow> bytes" where
  "NewID unixnano pid = Itoa unixnano @ ''-'' @ Itoa pid"

definition resolveSession :: "bytes \<Rightarrow> launch_options \<Rightarrow> bytes \<times> bytes" where
  "resolveSession fresh q = (let i = (if oID q = [] then fresh else oID q) in (i, SessionName (oMuxSession q) (oName q) i))"

definition launch_spec :: "bytes option \<Rightarrow> bytes \<Rightarrow> launch_options \<Rightarrow> (mux_spec \<times> bytes) option" where
  "launch_spec exe fresh q = (case resolveSession fresh q of (i, sess) \<Rightarrow>
     map_option (\<lambda>cmd. (\<lparr>sID = i, sName = oName q, sDir = oDir q, sSession = sess, sSocket = oMuxSocket q, sInner = cmd\<rparr>, sess))
       (inner exe q i sess))"

definition launch_Command :: "bytes option \<Rightarrow> bytes \<Rightarrow> launch_options \<Rightarrow> bytes list option" where
  "launch_Command exe fresh q = (case launch_spec exe fresh q of None \<Rightarrow> None | Some (s, _) \<Rightarrow> mux_Command s)"

definition launch_Launch :: "(bytes list \<Rightarrow> bool) \<Rightarrow> bytes option \<Rightarrow> bytes \<Rightarrow> launch_options \<Rightarrow> bytes \<times> bool \<times> bytes list list" where
  "launch_Launch runs exe fresh q = (case launch_spec exe fresh q of None \<Rightarrow> ([], False, [])
     | Some (s, sess) \<Rightarrow> (sess, mux_Launch runs s))"

section \<open>Reading it back\<close>

text \<open>\<open>flag.Parse\<close> over string flags: the values set, in order, and the arguments left; \<open>None\<close> is the
  error that ends the program.\<close>

definition flag_name :: "bytes \<Rightarrow> (bytes \<times> bytes option) option" where
  "flag_name a = (let n = (if HasPrefix a ''--'' then drop 2 a else drop 1 a) in
     if n = [] \<or> hd n = CHR ''-'' \<or> hd n = CHR ''='' then None
     else case Cut n CHR ''='' of (f, v, eq) \<Rightarrow> Some (f, if eq then Some v else None))"

fun flag_parse :: "bytes list \<Rightarrow> bytes list \<Rightarrow> ((bytes \<times> bytes) list \<times> bytes list) option" where
  "flag_parse known [] = Some ([], [])"
| "flag_parse known [a] = (if length a < 2 \<or> hd a \<noteq> CHR ''-'' then Some ([], [a])
     else if a = ''--'' then Some ([], [])
     else case flag_name a of
       None \<Rightarrow> None
     | Some (f, None) \<Rightarrow> None
     | Some (f, Some v) \<Rightarrow> if f \<in> set known then Some ([(f, v)], []) else None)"
| "flag_parse known (a # b # as) = (if length a < 2 \<or> hd a \<noteq> CHR ''-'' then Some ([], a # b # as)
     else if a = ''--'' then Some ([], b # as)
     else case flag_name a of
       None \<Rightarrow> None
     | Some (f, Some v) \<Rightarrow> if f \<in> set known then map_option (apfst ((#) (f, v))) (flag_parse known (b # as)) else None
     | Some (f, None) \<Rightarrow> if f \<in> set known then map_option (apfst ((#) (f, b))) (flag_parse known as) else None)"

definition session_flags :: "bytes list" where
  "session_flags = [''id'', ''name'', ''dir'', ''omp'', ''relay-host'', ''web-client'', ''local-relay'', ''mux-session'',
     ''mux-socket'', ''state-dir'', ''model'', ''thinking'', ''dashboard'', ''token'', ''p2p'', ''p2p-relay'']"

text \<open>The value a flag ends up with: the last one set, else its default.\<close>

definition flag_value :: "bytes \<Rightarrow> bytes \<Rightarrow> (bytes \<times> bytes) list \<Rightarrow> bytes" where
  "flag_value f d fs = (case map_of (rev fs) f of Some v \<Rightarrow> v | None \<Rightarrow> d)"

section \<open>Facts\<close>

text \<open>The names of the wrapper's flags, and how one is read.\<close>

definition plain_flag :: "bytes \<Rightarrow> bool" where
  "plain_flag f = (f \<noteq> [] \<and> hd f \<noteq> CHR ''-'' \<and> list_all (\<lambda>c. c \<noteq> CHR ''='') f)"

lemma flag_parse_pair:
  assumes "f \<in> set known" and "plain_flag f"
  shows "flag_parse known ((CHR ''-'' # CHR ''-'' # f) # v # as) = map_option (apfst ((#) (f, v))) (flag_parse known as)"
proof -
  have "CHR ''='' \<notin> set f" using assms(2) by (auto simp: plain_flag_def list_all_iff)
  moreover have "hd f \<noteq> CHR ''=''" using assms(2) by (cases f) (auto simp: plain_flag_def)
  ultimately have "flag_name (CHR ''-'' # CHR ''-'' # f) = Some (f, None)"
    using assms(2) by (simp add: flag_name_def plain_flag_def HasPrefix_def Cut_def IndexAny_None [THEN iffD2])
  then show ?thesis using assms by (simp add: plain_flag_def)
qed

definition opt_pair :: "bytes \<Rightarrow> bytes \<Rightarrow> (bytes \<times> bytes) list" where
  "opt_pair f v = (if v \<noteq> [] then [(f, v)] else [])"

lemma flag_parse_opt:
  assumes "f \<in> set known" and "plain_flag f"
  shows "flag_parse known (opt_flag (CHR ''-'' # CHR ''-'' # f) v @ as) = map_option (apfst ((@) (opt_pair f v))) (flag_parse known as)"
  using flag_parse_pair [OF assms, of v as]
  by (cases "flag_parse known as") (auto simp: opt_flag_def opt_pair_def)

lemma opt_pair_value: "map_of (rev (opt_pair f v)) g = (if g = f \<and> v \<noteq> [] then Some v else None)"
  by (simp add: opt_pair_def)

lemma flag_value_Nil: "flag_value f d [] = d"
  by (simp add: flag_value_def)

lemma flag_value_snoc: "flag_value f d (fs @ [(g, v)]) = (if f = g then v else flag_value f d fs)"
  by (simp add: flag_value_def)

lemma flag_value_opt: "flag_value f d (fs @ opt_pair g v) = (if f = g \<and> v \<noteq> [] then v else flag_value f d fs)"
  by (simp add: flag_value_def opt_pair_def)

lemma wrapper_flags:
  "flag_parse session_flags (''--name'' # v # as) = map_option (apfst ((#) (''name'', v))) (flag_parse session_flags as)"
  "flag_parse session_flags (''--dir'' # v # as) = map_option (apfst ((#) (''dir'', v))) (flag_parse session_flags as)"
  "flag_parse session_flags (''--omp'' # v # as) = map_option (apfst ((#) (''omp'', v))) (flag_parse session_flags as)"
  "flag_parse session_flags (''--mux-session'' # v # as) = map_option (apfst ((#) (''mux-session'', v))) (flag_parse session_flags as)"
  "flag_parse session_flags (''--id'' # v # as) = map_option (apfst ((#) (''id'', v))) (flag_parse session_flags as)"
  "flag_parse session_flags (opt_flag ''--mux-socket'' v @ as) =
     map_option (apfst ((@) (opt_pair ''mux-socket'' v))) (flag_parse session_flags as)"
  "flag_parse session_flags (opt_flag ''--relay-host'' v @ as) =
     map_option (apfst ((@) (opt_pair ''relay-host'' v))) (flag_parse session_flags as)"
  "flag_parse session_flags (opt_flag ''--web-client'' v @ as) =
     map_option (apfst ((@) (opt_pair ''web-client'' v))) (flag_parse session_flags as)"
  "flag_parse session_flags (opt_flag ''--local-relay'' v @ as) =
     map_option (apfst ((@) (opt_pair ''local-relay'' v))) (flag_parse session_flags as)"
  "flag_parse session_flags (opt_flag ''--state-dir'' v @ as) =
     map_option (apfst ((@) (opt_pair ''state-dir'' v))) (flag_parse session_flags as)"
  "flag_parse session_flags (opt_flag ''--model'' v @ as) =
     map_option (apfst ((@) (opt_pair ''model'' v))) (flag_parse session_flags as)"
  "flag_parse session_flags (opt_flag ''--thinking'' v @ as) =
     map_option (apfst ((@) (opt_pair ''thinking'' v))) (flag_parse session_flags as)"
  by (rule flag_parse_pair flag_parse_opt; simp add: session_flags_def plain_flag_def char_of_eq_iff)+

lemma inner_parsed:
  assumes "inner exe q i sess = Some cmd"
  shows "\<exists>self args. cmd = self # ''session'' # args \<and> flag_parse session_flags args = Some (
    ((((((((((([] @ [(''name'', oName q)]) @ [(''dir'', oDir q)]) @ [(''omp'', if oOmp q = [] then ''omp'' else oOmp q)]) @
      [(''mux-session'', sess)]) @ opt_pair ''mux-socket'' (oMuxSocket q)) @ opt_pair ''relay-host'' (oRelayHost q)) @
      opt_pair ''web-client'' (oWebClient q)) @ opt_pair ''local-relay'' (oLocalRelay q)) @
      opt_pair ''state-dir'' (oStateDir q)) @ opt_pair ''model'' (oModel q)) @ opt_pair ''thinking'' (oThinking q)) @ [(''id'', i)], [])"
proof -
  obtain self where c: "cmd = [self, ''session'', ''--name'', oName q, ''--dir'', oDir q,
       ''--omp'', (if oOmp q = [] then ''omp'' else oOmp q), ''--mux-session'', sess] @
       opt_flag ''--mux-socket'' (oMuxSocket q) @ opt_flag ''--relay-host'' (oRelayHost q) @
       opt_flag ''--web-client'' (oWebClient q) @ opt_flag ''--local-relay'' (oLocalRelay q) @
       opt_flag ''--state-dir'' (oStateDir q) @ opt_flag ''--model'' (oModel q) @
       opt_flag ''--thinking'' (oThinking q) @ [''--id'', i]"
    using assms unfolding inner_def by (auto split: option.splits)
  show ?thesis
    unfolding c append_Cons append_Nil
    by (intro exI conjI, rule refl)
      (simp only: wrapper_flags flag_parse.simps(1) option.map apfst_conv append_assoc append_Cons append_Nil)
qed

section \<open>Names\<close>

definition mux_char :: "char \<Rightarrow> bool" where
  "mux_char c = (alnum_char c \<or> c \<in> set ''-_'')"

lemma mux_rune_char: "mux_rune (byte_val c) = mux_char c"
  using byte_val_inj [of c "CHR ''-''"] byte_val_inj [of c "CHR ''_''"]
  by (auto simp: mux_rune_def mux_char_def alnum_char_def Let_def)

lemma sanitizeMux_chars: "list_all mux_char (sanitizeMux s)"
proof -
  have "mux_char (if mux_rune r then char_of r else CHR ''-'')" for r
  proof (cases "mux_rune r")
    case True
    then have "byte_val (char_of r) = r" by (intro byte_val_char_of) (auto simp: mux_rune_def)
    then show ?thesis using True mux_rune_char [of "char_of r"] by simp
  qed (simp add: mux_char_def)
  then show ?thesis unfolding sanitizeMux_def by (intro list_all_Trim) (unfold list_all_iff set_map, blast)
qed

lemma sanitizeMux_hd: "sanitizeMux s \<noteq> [] \<Longrightarrow> hd (sanitizeMux s) \<noteq> CHR ''-''"
  unfolding sanitizeMux_def using Trim_hd by fastforce

lemma sanitizeMux_id:
  assumes "list_all mux_char s" and "s = [] \<or> hd s \<noteq> CHR ''-'' \<and> last s \<noteq> CHR ''-''"
  shows "sanitizeMux s = s"
proof -
  have "byte_val c < 0x80" if "mux_char c" for c
    using that unfolding mux_rune_char [symmetric] mux_rune_def by auto
  then have "ascii s" using assms(1) unfolding ascii_def by (auto simp: list_all_iff)
  then have "map (\<lambda>r. if mux_rune r then char_of r else CHR ''-'') (runes s) = s"
    using assms(1) by (simp add: runes_ascii comp_def mux_rune_char list_all_iff map_idI)
  then show ?thesis
    unfolding sanitizeMux_def Trim_def TrimLeft_def
    using assms(2) TrimRight_id [of s "''-''"] by (cases s) auto
qed

lemma mux_shortID_chars: "list_all mux_char (mux_shortID i)"
  unfolding mux_shortID_def Let_def
  by (intro list_all_Trim) (simp add: sanitizeMux_chars list_all_drop)

lemma hex_mux: "list_all mux_char (EncodeToString r)"
proof -
  have "alnum c \<Longrightarrow> mux_char c" for c by (simp add: alnum_def mux_char_def alnum_char_def)
  then show ?thesis using EncodeToString_alnum [of r] by (auto simp: list_all_iff)
qed

lemma EncodeToString_Nil: "EncodeToString x = [] \<longleftrightarrow> x = []"
  by (cases x) (simp_all add: EncodeToString_def)

lemma minted_short:
  assumes "length r = 8"
  shows "mux_shortID (''covibe-'' @ EncodeToString r) = EncodeToString (drop 4 r)"
proof -
  have ne: "EncodeToString r \<noteq> []" "EncodeToString (drop 4 r) \<noteq> []"
    using assms by (auto simp: EncodeToString_Nil)
  have no: "c \<in> set (EncodeToString x) \<Longrightarrow> c \<noteq> CHR ''-'' \<and> c \<noteq> CHR ''_''" for c x
    using EncodeToString_alnum [of x] by (auto simp: list_all_iff alnum_def Let_def)
  have "list_all mux_char (''covibe-'' @ EncodeToString r)"
    using hex_mux by (simp add: mux_char_def alnum_char_def)
  then have s: "sanitizeMux (''covibe-'' @ EncodeToString r) = ''covibe-'' @ EncodeToString r"
    using ne no [of "last (EncodeToString r)" r] by (intro sanitizeMux_id) simp_all
  have "EncodeToString (a @ b) = EncodeToString a @ EncodeToString b" for a b
    by (simp add: EncodeToString_def)
  from this [of "take 4 r" "drop 4 r"]
  have "EncodeToString r = EncodeToString (take 4 r) @ EncodeToString (drop 4 r)" by simp
  moreover have "length (EncodeToString (take 4 r)) = 8" using assms by simp
  ultimately have d: "drop (length (''covibe-'' @ EncodeToString r) - 8) (''covibe-'' @ EncodeToString r) = EncodeToString (drop 4 r)"
    using assms by simp
  have "Trim (EncodeToString (drop 4 r)) ''-_'' = EncodeToString (drop 4 r)"
    unfolding Trim_def TrimLeft_def
    using ne(2) no [of "hd (EncodeToString (drop 4 r))" "drop 4 r"] no [of "last (EncodeToString (drop 4 r))" "drop 4 r"]
      TrimRight_id [of "EncodeToString (drop 4 r)" "''-_''"]
    by (cases "EncodeToString (drop 4 r)") auto
  then show ?thesis unfolding mux_shortID_def s Let_def using assms d by simp
qed

lemma SessionName_parts:
  "\<exists>n. n \<noteq> [] \<and> list_all mux_char n \<and> hd n \<noteq> CHR ''-'' \<and>
     SessionName base name i = (if mux_shortID i \<noteq> [] then n @ ''-'' @ mux_shortID i else n)"
proof -
  let ?n = "if sanitizeMux name = [] then if sanitizeMux base = [] then ''covibe'' else sanitizeMux base else sanitizeMux name"
  have "?n \<noteq> [] \<and> list_all mux_char ?n \<and> hd ?n \<noteq> CHR ''-''"
    using sanitizeMux_chars [of name] sanitizeMux_chars [of base] sanitizeMux_hd
    by (simp add: mux_char_def alnum_char_def)
  moreover have "SessionName base name i = (if mux_shortID i \<noteq> [] then ?n @ ''-'' @ mux_shortID i else ?n)"
    by (simp add: SessionName_def Let_def)
  ultimately show ?thesis by blast
qed

lemma SessionName_nonempty: "SessionName base name i \<noteq> []"
  using SessionName_parts [of base name i] by (auto split: if_splits)

lemma url_safe_room: "url_safe c \<Longrightarrow> alnum_char c \<or> c \<in> set ''_-''"
  using byte_val_inj [of c "CHR ''-''"] byte_val_inj [of c "CHR ''_''"]
  by (auto simp: url_safe_def url_val_def digit_val_def alnum_char_def Let_def split: if_splits)

section \<open>Properties\<close>

text \<open>A launched session can be addressed. Whatever display name and prefix it is given, its tmux
  name is a nonempty word of letters, digits, dashes and underscores that does not start with a
  dash, so no target built from it is read as an option, a pattern, another window or two words;
  and two sessions with ids of the server's making only share a name if the random halves the
  name shows agree.\<close>

theorem session_names_addressable:
  "SessionName base name i \<noteq> [] \<and> hd (SessionName base name i) \<noteq> CHR ''-'' \<and>
   list_all (\<lambda>c. alnum_char c \<or> c = CHR ''-'' \<or> c = CHR ''_'') (SessionName base name i) \<and>
   (length r = 8 \<and> length r' = 8 \<and>
      SessionName base name (''covibe-'' @ EncodeToString r) = SessionName base' name' (''covibe-'' @ EncodeToString r')
    \<longrightarrow> drop 4 r = drop 4 r')"
proof -
  obtain n where n: "n \<noteq> []" "list_all mux_char n" "hd n \<noteq> CHR ''-''"
      "SessionName base name i = (if mux_shortID i \<noteq> [] then n @ ''-'' @ mux_shortID i else n)"
    using SessionName_parts [of base name i] by blast
  have one: "SessionName base name i \<noteq> []" "hd (SessionName base name i) \<noteq> CHR ''-''"
    "list_all mux_char (SessionName base name i)"
    using n mux_shortID_chars [of i] by (simp_all add: mux_char_def)
  have "drop 4 r = drop 4 r'"
    if l: "length r = 8" "length r' = 8" and
      eq: "SessionName base name (''covibe-'' @ EncodeToString r) = SessionName base' name' (''covibe-'' @ EncodeToString r')"
  proof -
    have s: "\<exists>m. SessionName b x (''covibe-'' @ EncodeToString q) = m @ EncodeToString (drop 4 q)" if "length q = 8" for b x q
    proof -
      have "mux_shortID (''covibe-'' @ EncodeToString q) \<noteq> []"
        unfolding minted_short [OF that] using that by (simp add: EncodeToString_Nil)
      moreover obtain m where "SessionName b x (''covibe-'' @ EncodeToString q) =
          (if mux_shortID (''covibe-'' @ EncodeToString q) \<noteq> [] then m @ ''-'' @ mux_shortID (''covibe-'' @ EncodeToString q) else m)"
        using SessionName_parts [of b x "''covibe-'' @ EncodeToString q"] by blast
      ultimately have "SessionName b x (''covibe-'' @ EncodeToString q) = (m @ ''-'') @ EncodeToString (drop 4 q)"
        using minted_short [OF that] by simp
      then show ?thesis by blast
    qed
    obtain m m' where "m @ EncodeToString (drop 4 r) = m' @ EncodeToString (drop 4 r')"
      using s [OF l(1), of base name] s [OF l(2), of base' name'] eq by metis
    then have "EncodeToString (drop 4 r) = EncodeToString (drop 4 r')" using l by (simp add: append_eq_append_conv)
    then show ?thesis by (simp add: hexcodec.enc_inj)
  qed
  moreover have "mux_char = (\<lambda>c. alnum_char c \<or> c = CHR ''-'' \<or> c = CHR ''_'')"
    by (auto simp: fun_eq_iff mux_char_def)
  ultimately show ?thesis using one by metis
qed

theorem session_names_addressable_witness:
  "SessionName ''b'' ''n'' (''covibe-'' @ EncodeToString ''abcdefgh'') = SessionName ''b'' ''n'' (''covibe-'' @ EncodeToString ''xbcdefgh'')
   \<longrightarrow> drop 4 ''abcdefgh'' = drop 4 ''xbcdefgh''"
  using session_names_addressable [of "''b''" "''n''" "[]" "''abcdefgh''" "''xbcdefgh''" "''b''" "''n''"] by simp

text \<open>C33: The wrapper is configured as the launch was. The command tmux runs in the pane is, after its
  \<open>--\<close>, exactly the wrapper's command line, and what \<open>covibe session\<close> reads from that is every
  option's value, whatever characters it holds: no value can pass for a flag or swallow one. An
  empty optional value leaves the flag's default.\<close>

theorem launched_wrapper_configured:
  assumes "launch_spec exe fresh q = Some (s, sess)"
  shows "\<exists>pre self args fs. mux_Command s = Some (tmuxArgv (oMuxSocket q) @ [''new-session'', ''-d'', ''-s'', sess, ''-n'', oName q] @
      pre @ [''--''] @ self # ''session'' # args) \<and>
    sess = SessionName (oMuxSession q) (oName q) (if oID q = [] then fresh else oID q) \<and>
    flag_parse session_flags args = Some (fs, []) \<and>
    flag_value ''id'' d fs = (if oID q = [] then fresh else oID q) \<and> flag_value ''name'' d fs = oName q \<and>
    flag_value ''dir'' d fs = oDir q \<and> flag_value ''omp'' d fs = (if oOmp q = [] then ''omp'' else oOmp q) \<and>
    flag_value ''mux-session'' d fs = sess \<and>
    flag_value ''mux-socket'' d fs = (if oMuxSocket q = [] then d else oMuxSocket q) \<and>
    flag_value ''relay-host'' d fs = (if oRelayHost q = [] then d else oRelayHost q) \<and>
    flag_value ''web-client'' d fs = (if oWebClient q = [] then d else oWebClient q) \<and>
    flag_value ''local-relay'' d fs = (if oLocalRelay q = [] then d else oLocalRelay q) \<and>
    flag_value ''state-dir'' d fs = (if oStateDir q = [] then d else oStateDir q) \<and>
    flag_value ''model'' d fs = (if oModel q = [] then d else oModel q) \<and>
    flag_value ''thinking'' d fs = (if oThinking q = [] then d else oThinking q) \<and>
    flag_value ''token'' d fs = d \<and> flag_value ''dashboard'' d fs = d"
proof -
  let ?i = "if oID q = [] then fresh else oID q"
  have sess: "sess = SessionName (oMuxSession q) (oName q) ?i"
    and s: "sSession s = sess" "sName s = oName q" "sSocket s = oMuxSocket q" and i: "inner exe q ?i sess = Some (sInner s)"
    using assms by (auto simp: launch_spec_def resolveSession_def Let_def)
  have "sess \<noteq> []" by (simp only: sess SessionName_nonempty not_False_eq_True)
  then have c: "mux_Command s = Some (tmuxArgv (oMuxSocket q) @ [''new-session'', ''-d'', ''-s'', sess, ''-n'', oName q] @
      ((if sID s \<noteq> [] then [''-e'', ''COVIBE_SESSION_ID='' @ sID s] else []) @ (if sDir s \<noteq> [] then [''-c'', sDir s] else []))
      @ [''--''] @ sInner s)"
    by (simp add: mux_Command_def s)
  obtain self args where a: "sInner s = self # ''session'' # args" and
    p: "flag_parse session_flags args = Some (
    ((((((((((([] @ [(''name'', oName q)]) @ [(''dir'', oDir q)]) @ [(''omp'', if oOmp q = [] then ''omp'' else oOmp q)]) @
      [(''mux-session'', sess)]) @ opt_pair ''mux-socket'' (oMuxSocket q)) @ opt_pair ''relay-host'' (oRelayHost q)) @
      opt_pair ''web-client'' (oWebClient q)) @ opt_pair ''local-relay'' (oLocalRelay q)) @
      opt_pair ''state-dir'' (oStateDir q)) @ opt_pair ''model'' (oModel q)) @ opt_pair ''thinking'' (oThinking q)) @ [(''id'', ?i)], [])"
    using inner_parsed [OF i] by blast
  show ?thesis
    by (intro exI conjI, rule c [unfolded a], rule sess, rule p)
      (simp_all only: flag_value_snoc flag_value_opt flag_value_Nil, simp_all)
qed

definition sample_launch :: launch_options where
  "sample_launch = \<lparr>oSelf = ''/bin/covibe'', oID = ''covibe-1'', oName = ''--omp'', oDir = ''-d'', oMuxSession = ''covibe'', oMuxSocket = [],
     oRelayHost = ''c.example'', oWebClient = [], oLocalRelay = [], oOmp = [], oStateDir = [], oModel = ''--'', oThinking = []\<rparr>"

theorem launched_wrapper_configured_witness:
  "\<exists>s sess args fs. launch_spec None [] sample_launch = Some (s, sess) \<and> flag_parse session_flags args = Some (fs, []) \<and>
     flag_value ''name'' [] fs = ''--omp'' \<and> flag_value ''model'' [] fs = ''--'' \<and> flag_value ''omp'' [] fs = ''omp''"
proof -
  obtain s sess where l: "launch_spec None [] sample_launch = Some (s, sess)"
    by (auto simp: launch_spec_def resolveSession_def inner_def sample_launch_def Let_def)
  have v: "oName sample_launch = ''--omp''" "oModel sample_launch = ''--''" "oOmp sample_launch = []"
    by (simp_all add: sample_launch_def)
  from launched_wrapper_configured [OF l, of "[]"] l show ?thesis unfolding v by auto
qed

text \<open>A link leads to its room and keeps its key in the fragment. A minted room has a 22-character
  id the server accepts and a 64-character secret, both decoding to the random bytes they were made
  of (16 of identity, 32 of key, 16 of write token); the terminal link splits after its host into
  exactly that id and secret, and everything of the browser link before its \<open>#\<close> is the client's
  address, so neither room nor key is ever sent to the web server.\<close>

theorem link_names_room:
  assumes "length b = 64" and "list_all (\<lambda>c. c \<noteq> CHR ''#'') webClient"
  shows "\<exists>rm. Mint (Some b) = Some rm \<and> length (roomID rm) = 22 \<and> length (roomSecret rm) = 64 \<and> safeRoomID (roomID rm) \<and>
    rawurl_decode (roomID rm) = Some (take 16 b) \<and>
    rawurl_decode (roomSecret rm) = Some (take keyBytes (drop 16 b) @ drop 48 b) \<and> length (drop 48 b) = tokenBytes \<and>
    Cut (drop (length host + 3) (JoinLink host (roomID rm) (roomSecret rm))) CHR ''.'' = (roomID rm, roomSecret rm, True) \<and>
    Cut (BrowserURL webClient host (roomID rm) (roomSecret rm)) CHR ''#'' =
      (TrimSuffix webClient ''/'' @ ''/'', JoinLink host (roomID rm) (roomSecret rm), True)"
proof -
  let ?r = "\<lparr>roomID = rawurl_encode (take 16 b), roomSecret = rawurl_encode (drop 16 b)\<rparr>"
  have "list_all (\<lambda>c. alnum_char c \<or> c \<in> set ''_-'') (rawurl_encode x)" for x
    using rawurl_encode_safe [of x] url_safe_room by (auto simp: list_all_iff)
  then have s: "safeRoomID (roomID ?r)" using assms(1) by (simp add: safeRoomID_def length_rawurl_encode)
  have "drop 16 b = take 32 (drop 16 b) @ drop 32 (drop 16 b)" by (rule append_take_drop_id [symmetric])
  then have k: "drop 16 b = take keyBytes (drop 16 b) @ drop 48 b" by (simp add: keyBytes_def)
  have "set (TrimSuffix webClient ''/'') \<subseteq> set webClient" by (auto simp: TrimSuffix_def dest: in_set_takeD)
  then have h: "CHR ''#'' \<notin> set (TrimSuffix webClient ''/'' @ ''/'')" using assms(2) by (auto simp: list_all_iff)
  have c: "Cut (BrowserURL webClient host x y) CHR ''#'' = (TrimSuffix webClient ''/'' @ ''/'', JoinLink host x y, True)" for x y
    using Cut_append [OF h, of "JoinLink host x y"] by (simp add: BrowserURL_def)
  have j: "Cut (drop (length host + 3) (JoinLink host (rawurl_encode x) y)) CHR ''.'' = (rawurl_encode x, y, True)" for x y
    using Cut_append [OF rawurl_no_dot, of x y] by (simp add: JoinLink_def)
  have d: "rawurl_decode (roomSecret ?r) = Some (take keyBytes (drop 16 b) @ drop 48 b)"
    using k by (simp add: rawurl_decode_encode)
  show ?thesis
    by (intro exI [of _ ?r] conjI s c d)
      (use assms(1) j in \<open>simp_all add: Mint_def roomIDBytes_def tokenBytes_def length_rawurl_encode rawurl_decode_encode\<close>)
qed

theorem link_names_room_witness:
  "\<exists>rm. Mint (Some (replicate 64 CHR ''x'')) = Some rm \<and> length (roomID rm) = 22 \<and> safeRoomID (roomID rm)"
  using link_names_room [of "replicate 64 CHR ''x''" "''https://w''" "''h''"] by auto

end
