(* ===== verification/Start.thy ===== *)
theory Start
  imports Dashboard Launch
begin

text \<open>
  How a session starts: the options the dashboard launches a created session with (\<open>main.go\<close>), what
  \<open>covibe session\<close> makes of its command line (\<open>main.go\<close>), and what its wrapper sets up from that
  (\<open>session.Run\<close> in \<open>session/session.go\<close>): its record, the agent's arguments and environment, and which
  terminal it streams to whom.
\<close>

section \<open>Launching a created session\<close>

record serve_flags =
  sfMuxSession :: bytes
  sfRelayHost :: bytes
  sfWebClient :: bytes
  sfLocalRelay :: bytes
  sfOmp :: bytes

definition create_options :: "(nat \<Rightarrow> nat) \<Rightarrow> bytes \<Rightarrow> serve_flags \<Rightarrow> create_spec \<Rightarrow> launch_options" where
  "create_options ul dir f sp = \<lparr>oSelf = [], oID = csID sp, oName = csName sp, oDir = csDir sp, oMuxSession = sfMuxSession f,
     oMuxSocket = TmuxSocket ul dir (csOwner sp) (csID sp), oRelayHost = sfRelayHost f, oWebClient = sfWebClient f,
     oLocalRelay = sfLocalRelay f, oOmp = sfOmp f, oStateDir = dir, oModel = csModel sp, oThinking = csThinking sp\<rparr>"

section \<open>The wrapper's configuration\<close>

definition env_or :: "(bytes \<Rightarrow> bytes) \<Rightarrow> bytes \<Rightarrow> bytes \<Rightarrow> bytes" where
  "env_or getenv key fallback = (if getenv key \<noteq> [] then getenv key else fallback)"

definition Base :: "bytes \<Rightarrow> bytes" where
  "Base p = (if p = [] then ''.''
     else let q = rev (dropWhile (\<lambda>c. c = slash) (rev p)); b = rev (takeWhile (\<lambda>c. c \<noteq> slash) (rev q))
       in if b = [] then [slash] else b)"

record run_config =
  rcID :: bytes
  rcName :: bytes
  rcDir :: bytes
  rcOmpBin :: bytes
  rcOmpArgs :: "bytes list"
  rcModel :: bytes
  rcThinking :: bytes
  rcRelayHost :: bytes
  rcWebClient :: bytes
  rcLocalRelay :: bytes
  rcMuxSession :: bytes
  rcMuxSocket :: bytes
  rcToken :: bytes
  rcStateDir :: bytes
  rcP2PBin :: bytes
  rcP2PRelay :: bytes
  rcDashboard :: bytes      \<comment> \<open>the remote sink's base address; empty for the local spool\<close>

text \<open>\<open>wd\<close> is the working directory, when there is one. \<open>None\<close> ends the program with a usage message.\<close>

definition cmdSession :: "(bytes \<Rightarrow> bytes) \<Rightarrow> bytes option \<Rightarrow> bytes list \<Rightarrow> run_config option" where
  "cmdSession getenv wd args = (case flag_parse session_flags args of None \<Rightarrow> None
   | Some (fs, rest) \<Rightarrow>
     let val = (\<lambda>f d. flag_value f d fs); dir0 = val ''dir'' [];
         dir = (if dir0 = [] then (case wd of Some d \<Rightarrow> d | None \<Rightarrow> []) else dir0);
         name0 = val ''name'' []; b = Base dir;
         name = (if name0 = [] \<and> b \<noteq> [] \<and> b \<noteq> ''.'' \<and> b \<noteq> [slash] then b else name0)
     in Some \<lparr>rcID = val ''id'' [], rcName = orDefault name ''session'', rcDir = dir,
          rcOmpBin = val ''omp'' (env_or getenv ''COVIBE_OMP'' ''omp''), rcOmpArgs = rest,
          rcModel = val ''model'' (env_or getenv ''COVIBE_MODEL'' []),
          rcThinking = val ''thinking'' (env_or getenv ''COVIBE_THINKING'' []),
          rcRelayHost = val ''relay-host'' (env_or getenv ''COVIBE_RELAY_HOST'' []),
          rcWebClient = val ''web-client'' (env_or getenv ''COVIBE_WEB_CLIENT'' ''https://my.omp.sh''),
          rcLocalRelay = val ''local-relay'' (env_or getenv ''COVIBE_LOCAL_RELAY'' []),
          rcMuxSession = val ''mux-session'' (env_or getenv ''COVIBE_MUX_SESSION'' []),
          rcMuxSocket = val ''mux-socket'' (env_or getenv ''COVIBE_MUX_SOCKET'' []),
          rcToken = val ''token'' (env_or getenv ''COVIBE_TOKEN'' []), rcStateDir = val ''state-dir'' [],
          rcP2PBin = val ''p2p'' (env_or getenv ''COVIBE_P2P'' []),
          rcP2PRelay = val ''p2p-relay'' (env_or getenv ''COVIBE_P2P_RELAY'' []),
          rcDashboard = val ''dashboard'' (env_or getenv ''COVIBE_DASHBOARD'' [])\<rparr>)"

section \<open>Setting up the session\<close>

definition newRecord :: "run_config \<Rightarrow> bytes \<Rightarrow> int \<Rightarrow> nanos \<Rightarrow> rec" where
  "newRecord c fresh pid t = \<lparr>rID = (if rcID c = [] then fresh else rcID c), rName = rcName c, rDir = rcDir c,
     rMuxSession = rcMuxSession c, rMuxSocket = rcMuxSocket c, rMuxTab = rcName c, rModel = rcModel c, rThinking = rcThinking c,
     rPID = pid, rStatus = StatusStarting, rRelay = [], rJoinLink = [], rBrowserURL = [], rViewOnly = False, rRoomID = [],
     rStartedAt = t, rUpdatedAt = 0, rRemote = False, rHost = []\<rparr>"

definition ompArgs :: "run_config \<Rightarrow> bytes list" where
  "ompArgs c = (let as = rcOmpArgs c;
     as = (if rcThinking c \<noteq> [] then [''--thinking'', rcThinking c] @ as else as)
   in if rcModel c \<noteq> [] then [''--model'', rcModel c] @ as else as)"

text \<open>The room: the record with it and the agent's extra environment; \<open>None\<close> when minting fails.\<close>

definition with_room :: "run_config \<Rightarrow> bytes option \<Rightarrow> rec \<Rightarrow> (rec \<times> bytes list) option" where
  "with_room c random r = (if rcLocalRelay c = [] \<or> rcRelayHost c = [] then Some (r, [])
     else case Mint random of None \<Rightarrow> None
     | Some rm \<Rightarrow> Some (r\<lparr>rRoomID := roomID rm, rRelay := rcLocalRelay c,
           rJoinLink := JoinLink (rcRelayHost c) (roomID rm) (roomSecret rm),
           rBrowserURL := (if rcWebClient c \<noteq> [] then BrowserURL (rcWebClient c) (rcRelayHost c) (roomID rm) (roomSecret rm) else [])\<rparr>,
         [''OMP_COLLAB_RELAY='' @ rcLocalRelay c, ''OMP_COLLAB_ROOM='' @ roomID rm, ''OMP_COLLAB_KEY='' @ roomSecret rm]))"

record agent =
  agArgv :: "bytes list"
  agDir :: bytes
  agEnv :: "bytes list"

definition agent_of :: "run_config \<Rightarrow> bytes list \<Rightarrow> bytes list \<Rightarrow> agent" where
  "agent_of c environ extra = \<lparr>agArgv = (if rcOmpBin c = [] then ''omp'' else rcOmpBin c) # ompArgs c, agDir = rcDir c, agEnv = environ @ extra\<rparr>"

text \<open>Which terminal is streamed, and to whom: the dashboard only with a key and a remote sink, the sidecar
  when there is one. The fan-out is made by the first source that streams the pty.\<close>

datatype source_kind = SrcTmux tmux_server bytes | SrcPty

definition newSource :: "run_config \<Rightarrow> source_kind" where
  "newSource c = (if rcMuxSocket c \<noteq> [] \<and> rcMuxSession c \<noteq> []
     then SrcTmux \<lparr>Socket = rcMuxSocket c, Bin = []\<rparr> (rcMuxSession c) else SrcPty)"

definition hosts_dashboard :: "run_config \<Rightarrow> bool" where
  "hosts_dashboard c = (rcDashboard c \<noteq> [] \<and> TrimSuffix (rcDashboard c) ''/'' \<noteq> [] \<and> rcToken c \<noteq> [])"

definition fanned :: "run_config \<Rightarrow> bool" where
  "fanned c = (newSource c = SrcPty \<and> (hosts_dashboard c \<or> rcP2PBin c \<noteq> []))"

text \<open>The life of the record with the local sink.\<close>

definition local_Register :: "env \<Rightarrow> rec \<Rightarrow> spool \<Rightarrow> spool_error option \<times> spool" where
  "local_Register e r f = Save e r f"

definition local_End :: "env \<Rightarrow> rec \<Rightarrow> spool \<Rightarrow> spool" where
  "local_End e r f = snd (Save e (r\<lparr>rStatus := StatusEnded\<rparr>) f)"

text \<open>The set-up with the local sink, up to starting the agent; the clock is read once for the record and its
  first save. With a dashboard the record is registered as \<open>Wrapper\<close> has it.\<close>

datatype run_error = RunMint | RunRegister

definition Run_start :: "run_config \<Rightarrow> bytes \<Rightarrow> bytes option \<Rightarrow> int \<Rightarrow> env \<Rightarrow> bytes list \<Rightarrow> spool \<Rightarrow> run_error + rec \<times> agent \<times> spool" where
  "Run_start c fresh random pid e environ f = (case with_room c random (newRecord c fresh pid (now e)) of
     None \<Rightarrow> Inl RunMint
   | Some (r, extra) \<Rightarrow> (case local_Register e r f of
       (Some _, g) \<Rightarrow> Inl RunRegister | (None, g) \<Rightarrow> Inr (r, agent_of c environ extra, g)))"


section \<open>Facts\<close>

lemma with_room_fields:
  assumes "with_room c random r = Some (r', extra)"
  shows "rID r' = rID r" "rName r' = rName r" "rDir r' = rDir r" "rMuxSession r' = rMuxSession r" "rMuxSocket r' = rMuxSocket r"
    "rPID r' = rPID r" "rStatus r' = rStatus r" "rRemote r' = rRemote r" "rViewOnly r' = rViewOnly r"
  using assms by (auto simp: with_room_def split: if_splits option.splits)

lemma with_room_some: "\<exists>r' extra. with_room c (Some b) r = Some (r', extra)"
  by (auto simp: with_room_def Mint_def)

lemma JoinPath_nonempty: "b \<noteq> [] \<Longrightarrow> JoinPath a b \<noteq> []"
  by (simp add: JoinPath_def Clean_ne)

lemma TmuxSocket_nonempty: "TmuxSocket ul d u i \<noteq> []"
  unfolding TmuxSocket_def Let_def by (rule JoinPath_nonempty) simp

text \<open>A record that is listed and alive is found, and stays.\<close>

lemma find_unique:
  assumes "x \<in> set xs" and "P x" and "\<And>y. y \<in> set xs \<Longrightarrow> P y \<Longrightarrow> y = x"
  shows "find P xs = Some x"
proof (cases "find P xs")
  case None
  then show ?thesis using assms(1,2) by (auto simp: find_None_iff)
next
  case (Some y)
  then have "y \<in> set xs" "P y" by (auto simp: find_Some_iff)
  then show ?thesis using Some assms(3) by blast
qed

lemma live_found:
  assumes "spool_inv (files s)" and "files s i = Some r" and "dir_ok (sys w)" and "i \<in> set (dir_order (sys w))" and "lives (sys w) (keep_ended cfg) r"
  shows "\<exists>f. liveRecord cfg w i s = (Some r, s\<lparr>files := f\<rparr>)"
proof -
  have r: "rID r = i" using assms(1,2) by (simp add: spool_inv_def)
  have "find (\<lambda>q. rID q = i) (filter (lives (sys w) (keep_ended cfg)) (listing (sys w) (files s))) = Some r"
    by (rule find_unique) (use assms r listed [OF assms(1)] in auto)
  then show ?thesis using assms(3) by (auto simp: liveRecord_def Live_eq)
qed

lemma create_reply:
  assumes "handleCreate ul cfg w c body s = (Reply n (Created i name dir model thinking), s')"
  shows "i = newSessionID w" "name \<noteq> []" "spool_inv (files s) \<Longrightarrow> spool_inv (files s')"
    "effects s' = effects s @ [Launched \<lparr>csID = i, csName = name, csDir = dir, csModel = model, csThinking = thinking, csOwner = caller_key ul c\<rparr>]"
    "caller_key ul c \<noteq> [] \<Longrightarrow> owner (ACL (acls s') i) = Key ul (caller_key ul c)"
proof -
  obtain q where q: "body = Some q" using assms by (cases body) (auto simp: handleCreate_def split: if_splits)
  obtain full s0 where l: "over_limit cfg w s = (full, s0)" by fastforce
  note h = assms [unfolded handleCreate_def q option.case Let_def l prod.case]
  have f: "\<not> full" using h by (cases full) (simp_all split: if_splits)
  obtain d where d: "resolveWorkspaceDir (work_dir w) (workspace_root cfg) (TrimSpace (crName q)) (crDir q) = Inr d"
    using h f by (cases "resolveWorkspaceDir (work_dir w) (workspace_root cfg) (TrimSpace (crName q)) (crDir q)") (simp_all split: if_splits)
  have n: "validateName (TrimSpace (crName q))" using h by (simp split: if_splits)
  have m: "mkdir_ok w" "launch_ok w" using h f d by (simp_all split: if_splits)
  have r: "i = newSessionID w" "name = TrimSpace (crName q)" and s': "s' = effect (Launched \<lparr>csID = i, csName = name, csDir = dir, csModel = model,
        csThinking = thinking, csOwner = caller_key ul c\<rparr>) (if caller_key ul c \<noteq> []
        then s0\<lparr>acls := snd (SetOwner ul (acl_write w) (time w) i (caller_key ul c) (acls s0))\<rparr> else s0)"
    using h f d m by (auto split: if_splits)
  show "i = newSessionID w" by (rule r)
  show "name \<noteq> []" using n r(2) by (auto simp: validateName_def)
  have e: "effects s0 = effects s" using l by (auto simp: over_limit_def split: if_splits prod.splits)
  show "spool_inv (files s) \<Longrightarrow> spool_inv (files s')"
    using keeps_over_limit [OF l] s' by (simp add: keeps_def effect_def)
  show "effects s' = effects s @ [Launched \<lparr>csID = i, csName = name, csDir = dir, csModel = model, csThinking = thinking, csOwner = caller_key ul c\<rparr>]"
    using s' e by (simp add: effect_def)
  show "caller_key ul c \<noteq> [] \<Longrightarrow> owner (ACL (acls s') i) = Key ul (caller_key ul c)"
    using s' r(1) by (simp add: effect_def SetOwner_def newSessionID_def ACL_def frame touch_def)
qed

text \<open>What \<open>covibe session\<close> reads from the command line of a launch.\<close>

lemma launched_flags:
  assumes "inner exe q i sess = Some inner_argv"
  shows "\<exists>self args fs. inner_argv = self # ''session'' # args \<and> flag_parse session_flags args = Some (fs, []) \<and>
    (\<forall>d. flag_value ''id'' d fs = i \<and> flag_value ''name'' d fs = oName q \<and> flag_value ''dir'' d fs = oDir q \<and>
      flag_value ''mux-session'' d fs = sess \<and> flag_value ''mux-socket'' d fs = (if oMuxSocket q = [] then d else oMuxSocket q) \<and>
      flag_value ''state-dir'' d fs = (if oStateDir q = [] then d else oStateDir q) \<and> flag_value ''dashboard'' d fs = d)"
proof -
  obtain self args where a: "inner_argv = self # ''session'' # args" and
    p: "flag_parse session_flags args = Some (
    ((((((((((([] @ [(''name'', oName q)]) @ [(''dir'', oDir q)]) @ [(''omp'', if oOmp q = [] then ''omp'' else oOmp q)]) @
      [(''mux-session'', sess)]) @ opt_pair ''mux-socket'' (oMuxSocket q)) @ opt_pair ''relay-host'' (oRelayHost q)) @
      opt_pair ''web-client'' (oWebClient q)) @ opt_pair ''local-relay'' (oLocalRelay q)) @
      opt_pair ''state-dir'' (oStateDir q)) @ opt_pair ''model'' (oModel q)) @ opt_pair ''thinking'' (oThinking q)) @ [(''id'', i)], [])"
    using inner_parsed [OF assms] by blast
  show ?thesis
    by (intro exI conjI allI, rule a, rule p)
      (simp_all only: flag_value_snoc flag_value_opt flag_value_Nil, simp_all)
qed

lemma launched_config:
  assumes "launch_spec exe fresh q = Some (ms, sess)" and "oID q \<noteq> []" and "oName q \<noteq> []" and "oMuxSocket q \<noteq> []"
  shows "\<exists>self args rc. sInner ms = self # ''session'' # args \<and> cmdSession getenv wd args = Some rc \<and>
    rcID rc = oID q \<and> rcName rc = oName q \<and> rcMuxSession rc = sess \<and> rcMuxSocket rc = oMuxSocket q \<and>
    rcStateDir rc = oStateDir q \<and> rcDashboard rc = env_or getenv ''COVIBE_DASHBOARD'' [] \<and> sess \<noteq> []"
proof -
  have sess: "sess = SessionName (oMuxSession q) (oName q) (oID q)" and i: "inner exe q (oID q) sess = Some (sInner ms)"
    using assms(1,2) by (auto simp: launch_spec_def resolveSession_def Let_def)
  obtain self args fs where a: "sInner ms = self # ''session'' # args" and p: "flag_parse session_flags args = Some (fs, [])"
    and v: "\<And>d. flag_value ''id'' d fs = oID q" "\<And>d. flag_value ''name'' d fs = oName q" "\<And>d. flag_value ''mux-session'' d fs = sess"
      "\<And>d. flag_value ''mux-socket'' d fs = (if oMuxSocket q = [] then d else oMuxSocket q)"
      "\<And>d. flag_value ''state-dir'' d fs = (if oStateDir q = [] then d else oStateDir q)" "\<And>d. flag_value ''dashboard'' d fs = d"
    using launched_flags [OF i] by blast
  obtain rc where rc: "cmdSession getenv wd args = Some rc" using p by (simp add: cmdSession_def Let_def)
  have "rcID rc = oID q \<and> rcName rc = oName q \<and> rcMuxSession rc = sess \<and> rcMuxSocket rc = oMuxSocket q \<and>
    rcStateDir rc = oStateDir q \<and> rcDashboard rc = env_or getenv ''COVIBE_DASHBOARD'' []"
    using rc assms(3,4) by (auto simp: cmdSession_def p v Let_def orDefault_def)
  moreover have "sess \<noteq> []" using SessionName_nonempty by (simp add: sess)
  ultimately show ?thesis using a rc by blast
qed


section \<open>A created session\<close>



lemma sample_create:
  "\<exists>i dir s'. handleCreate ascii_ul (sample_cfg\<lparr>workspace_root := ''/ws'', create_enabled := True\<rparr>) (at_time 5) (as_user ''amy'')
      (Some \<lparr>crName = ''demo'', crDir = [], crModel = [], crThinking = []\<rparr>) sample_server = (Reply 201 (Created i ''demo'' dir [] []), s')"
proof -
  have t: "TrimSpace ''demo'' = ''demo''" by (simp add: TrimSpace_ascii ascii_def space_rune_def)
  have v: "validateName ''demo''" by (simp add: validateName_def t safeName_def matches_def alnum_char_def)
  have "resolveWorkspaceDir ''/'' ''/ws'' ''demo'' [] = Inr ''/ws/demo''"
    by (simp add: resolveWorkspaceDir_def t Abs_def IsAbs_def Clean_def components_def path_text_def slash_def JoinPath_def Rel_def)
  then show ?thesis
    by (simp add: handleCreate_def t v Let_def over_limit_def sample_cfg_def) (simp add: at_time_def Let_def)
qed


end
