(* ===== verification/Sidecar.thy ===== *)
theory Sidecar
  imports Start P2P
begin

text \<open>
  The peer-to-peer sidecar (\<open>session/p2psidecar.go\<close>): starting it, the pair of tickets it prints, the two
  sockets it is given, and the tickets kept for later. The sidecar itself is another process: whether it
  starts, and what it prints, is an argument, and so is the decoding of its line.
\<close>

section \<open>Tickets\<close>

record tickets =
  tkID :: bytes
  tkName :: bytes
  tkRW :: bytes
  tkRO :: bytes

datatype ticket_error = NoTickets | BadLine | Incomplete | SameTicket | TicketTimeout

definition first_line :: "bytes \<Rightarrow> bytes" where
  "first_line out = (let out = take (8 * 1024) out in
     if newline \<in> set out then takeWhile (\<lambda>c. c \<noteq> newline) out @ [newline] else out)"

definition readTickets :: "(bytes \<Rightarrow> tickets option) \<Rightarrow> bytes \<Rightarrow> bool \<Rightarrow> ticket_error + tickets" where
  "readTickets decode printed in_time = (let line = first_line printed in
     if \<not> in_time then Inl TicketTimeout
     else if line = [] then Inl NoTickets
     else case decode (TrimSpace line) of
         None \<Rightarrow> Inl BadLine
       | Some tk \<Rightarrow> if tkRW tk = [] \<or> tkRO tk = [] then Inl Incomplete
           else if tkRW tk = tkRO tk then Inl SameTicket else Inr tk)"

section \<open>Files\<close>

text \<open>The sockets that exist and the tickets that can be read back, by path.\<close>

record p2p_files =
  sock_files :: "bytes set"
  ticket_files :: "bytes \<rightharpoonup> tickets"

definition shortSessionID :: "bytes \<Rightarrow> bytes" where
  "shortSessionID i = (if length i > 12 then drop (length i - 12) i else if i = [] then ''session'' else i)"

definition p2pDir :: "bytes \<Rightarrow> bytes \<Rightarrow> bytes" where
  "p2pDir temp stateDir = JoinPath (if stateDir = [] then temp else stateDir) ''p2p''"

definition p2p_path :: "bytes \<Rightarrow> run_config \<Rightarrow> bytes \<Rightarrow> bytes" where
  "p2p_path temp c ext = JoinPath (p2pDir temp (rcStateDir c)) (shortSessionID (rcID c) @ ext)"

definition writeTickets :: "bytes \<Rightarrow> tickets \<Rightarrow> p2p_files \<Rightarrow> p2p_files" where
  "writeTickets p tk fs = fs\<lparr>ticket_files := (ticket_files fs)(p \<mapsto> tk)\<rparr>"

definition LoadTickets :: "bytes list \<Rightarrow> bytes \<Rightarrow> p2p_files \<Rightarrow> tickets list" where
  "LoadTickets order sought fs = filter (\<lambda>tk. sought = [] \<or> tkID tk = sought \<or> tkName tk = sought)
     (concat (map (\<lambda>p. case ticket_files fs p of None \<Rightarrow> [] | Some tk \<Rightarrow> [tk]) order))"

section \<open>Starting and stopping\<close>

record sidecar =
  sc_tickets :: tickets
  sc_served :: "(bytes \<times> bool) list"       \<comment> \<open>the sockets, and whether who comes by them may type\<close>
  sc_argv :: "bytes list"

text \<open>What happens around it, step by step.\<close>

record sidecar_luck =
  luck_dir :: bool
  luck_attach :: bool
  luck_rw :: bool
  luck_ro :: bool
  luck_spawn :: bool
  luck_printed :: bytes
  luck_in_time :: bool
  luck_recorded :: bool

datatype sidecar_error = NoDir | NoTerminal | NoSocket | NoProcess | NoTicket ticket_error

definition stop_sidecar :: "bytes list \<Rightarrow> p2p_files \<Rightarrow> p2p_files" where
  "stop_sidecar ps fs = fs\<lparr>sock_files := sock_files fs - set ps\<rparr>"

definition startP2P :: "(bytes \<Rightarrow> tickets option) \<Rightarrow> bytes \<Rightarrow> run_config \<Rightarrow> bool \<Rightarrow> sidecar_luck \<Rightarrow> p2p_files
    \<Rightarrow> (sidecar_error + sidecar) \<times> p2p_files" where
  "startP2P decode temp c allowWrite k fs = (
     let rw = p2p_path temp c ''-rw.sock''; ro = p2p_path temp c ''-ro.sock'';
         gone = stop_sidecar [rw, ro] fs;
         argv = [rcP2PBin c, ''host'', ''--rw-sock'', rw, ''--ro-sock'', ro] @
           (if rcP2PRelay c \<noteq> [] then [''--relay'', rcP2PRelay c] else [])
     in if \<not> luck_dir k then (Inl NoDir, fs)
        else if \<not> luck_attach k then (Inl NoTerminal, fs)
        else if \<not> luck_rw k \<or> \<not> luck_ro k then (Inl NoSocket, gone)
        else if \<not> luck_spawn k then (Inl NoProcess, gone)
        else case readTickets decode (luck_printed k) (luck_in_time k) of
            Inl e \<Rightarrow> (Inl (NoTicket e), gone)
          | Inr tk0 \<Rightarrow>
              let tk = tk0\<lparr>tkID := rcID c, tkName := rcName c\<rparr>;
                  fs1 = fs\<lparr>sock_files := sock_files fs \<union> {rw, ro}\<rparr>
              in (Inr \<lparr>sc_tickets = tk, sc_served = [(rw, allowWrite), (ro, False)], sc_argv = argv\<rparr>,
                  if luck_recorded k then writeTickets (p2p_path temp c ''.json'') tk fs1 else fs1))"

section \<open>Facts\<close>

lemma readTickets_pair: "readTickets decode out t = Inr tk \<Longrightarrow> tkRW tk \<noteq> [] \<and> tkRO tk \<noteq> [] \<and> tkRW tk \<noteq> tkRO tk"
  by (auto simp: readTickets_def Let_def split: if_splits option.splits)

lemma startP2P_Inr:
  assumes "startP2P decode temp c allowWrite k fs = (Inr sc, fs')"
  shows "tkRW (sc_tickets sc) \<noteq> []" "tkRO (sc_tickets sc) \<noteq> []" "tkRW (sc_tickets sc) \<noteq> tkRO (sc_tickets sc)"
    "tkID (sc_tickets sc) = rcID c" "tkName (sc_tickets sc) = rcName c"
    "sc_served sc = [(p2p_path temp c ''-rw.sock'', allowWrite), (p2p_path temp c ''-ro.sock'', False)]"
    "sock_files fs' = sock_files fs \<union> fst ` set (sc_served sc)"
    "ticket_files fs' = (if luck_recorded k then (ticket_files fs)(p2p_path temp c ''.json'' \<mapsto> sc_tickets sc) else ticket_files fs)"
  using assms readTickets_pair [of decode "luck_printed k" "luck_in_time k"]
  by (auto simp: startP2P_def Let_def writeTickets_def split: if_splits sum.splits)

text \<open>Names with different endings are different files, whatever the session id is.\<close>

lemma Split_tail: "c \<notin> set e \<Longrightarrow> Split (a @ e) c = butlast (Split a c) @ [last (Split a c) @ e]"
proof (induction a)
  case Nil
  then show ?case by (simp add: Split_none)
next
  case (Cons x a)
  then show ?case using Split_ne [of a c] by (cases "Split a c") auto
qed

lemma reduce_last: "c \<noteq> ''..'' \<Longrightarrow> \<exists>pre. reduce r st (cs @ [c]) = pre @ [c]"
  by (induction r st cs rule: reduce.induct) (auto split: list.splits)

lemma JoinPath_last:
  assumes "slash \<notin> set e" and "e \<noteq> []" and "last e \<noteq> CHR ''.''"
  shows "\<exists>pre x. components (JoinPath d (s @ e)) = pre @ [x @ e]"
proof -
  let ?p = "if d = [] then s @ e else d @ slash # s @ e"
  have "\<exists>q. ?p = q @ e" by (cases "d = []") (auto intro: exI [of _ "d @ slash # s"])
  then obtain q where q: "?p = q @ e" by blast
  let ?x = "last (Split q slash) @ e"
  have x: "?x \<noteq> []" "?x \<noteq> ''.''" "?x \<noteq> ''..''" using assms(2,3) by (auto dest: arg_cong [of _ _ last])
  have "components ?p = filter (\<lambda>c. c \<noteq> [] \<and> c \<noteq> ''.'') (butlast (Split q slash)) @ [?x]"
    using x(1,2) by (simp add: q components_def Split_tail [OF assms(1)])
  moreover have "JoinPath d (s @ e) = Clean ?p" using assms(2) by (simp add: JoinPath_def)
  ultimately show ?thesis using reduce_last [OF x(3)] by (simp add: components_Clean) metis
qed

lemma JoinPath_apart:
  assumes "length e = length e'" "e \<noteq> e'" "slash \<notin> set e" "slash \<notin> set e'" "e \<noteq> []" "last e \<noteq> CHR ''.''" "last e' \<noteq> CHR ''.''"
  shows "JoinPath d (s @ e) \<noteq> JoinPath d (s @ e')"
proof
  assume "JoinPath d (s @ e) = JoinPath d (s @ e')"
  moreover have "e' \<noteq> []" using assms(1,5) by auto
  ultimately obtain pre x pre' y where "pre @ [x @ e] = pre' @ [y @ e']"
    using JoinPath_last [OF assms(3,5,6), of d s] JoinPath_last [OF assms(4) _ assms(7), of d s] by metis
  then show False using assms(1,2) by simp
qed

lemma sockets_apart: "p2p_path temp c ''-rw.sock'' \<noteq> p2p_path temp c ''-ro.sock''"
  unfolding p2p_path_def by (rule JoinPath_apart) (simp_all add: slash_def)

section \<open>Who may type\<close>

text \<open>A peer is accepted on one of the served sockets, with that socket's right.\<close>

definition comes_by :: "sidecar \<Rightarrow> bytes \<Rightarrow> ts_event \<Rightarrow> bool" where
  "comes_by sc p e = (case e of TsAccept x y wr \<Rightarrow> (p, wr) \<in> set (sc_served sc) | _ \<Rightarrow> True)"

definition readers :: "'s term_server \<Rightarrow> bool" where
  "readers t = list_all (\<lambda>p. \<not> p_write p) (ts_peers t)"

lemma readers_set_peer: "readers t \<Longrightarrow> \<not> p_write p \<Longrightarrow> readers (set_peer i p t)"
  by (auto simp: readers_def set_peer_def list_all_iff dest!: set_update_subset_insert [THEN subsetD])


lemma frames_of_readers: "readers t \<Longrightarrow> open_peer t i = Some p \<Longrightarrow> \<not> p_write p"
  by (auto simp: readers_def open_peer_def list_all_iff split: if_splits)

lemma readers_fields [simp]: "readers (t\<lparr>ts_fan := f\<rparr>) = readers t" "readers (t\<lparr>ts_src := s\<rparr>) = readers t"
  "readers (t\<lparr>ts_pump := b, ts_done := b'\<rparr>) = readers t" "readers (t\<lparr>ts_started := b, ts_pump := b'\<rparr>) = readers t"
  "readers (t\<lparr>ts_started := b\<rparr>) = readers t"
  by (simp_all add: readers_def)

lemma readers_step:
  assumes "readers t" and "\<And>x y. e \<noteq> TsAccept x y True"
  shows "readers (ts_step sn sd rz t e)"
proof -
  have w: "readers (with_peer i g t)" if "\<And>p. \<not> p_write p \<Longrightarrow> readers (g p t)" for i g
    using that frames_of_readers [OF assms(1)] assms(1) by (auto simp: with_peer_def split: option.split)
  have d: "readers (drop_peer i p t)" if "\<not> p_write p" for i p
    using that assms(1) by (simp add: drop_peer_def readers_set_peer)
  show ?thesis
  proof (cases e)
    case (TsAccept x y wr)
    then have "\<not> wr" using assms(2) by (cases wr) auto
    then show ?thesis using TsAccept assms(1)
      by (simp add: serve_peer_def readers_def split: prod.split)
  next
    case (TsSend i)
    have "readers (send_live i p t)" if "\<not> p_write p" for p
      using that assms(1) by (auto simp: send_live_def wire_def intro!: readers_set_peer split: list.split)
    then show ?thesis using TsSend w by simp
  next
    case (TsFrame i f)
    have "readers (peer_frame sn sd rz i p f t)" if "\<not> p_write p" for p
      using that assms(1) by (auto simp: peer_frame_def wire_def intro!: readers_set_peer split: prod.split)
    then show ?thesis using TsFrame w by simp
  next
    case (TsExit i)
    then show ?thesis using w [of "\<lambda>p. drop_peer i (wire [PExit] p)" i] d assms(1) by (simp add: wire_def)
  next
    case (TsEOF i)
    then show ?thesis using w [of "\<lambda>p. if p_write p then drop_peer i p else (\<lambda>t. t)" i] d assms(1) by simp
  qed (use assms(1) w d in simp_all)
qed

lemma new_readers: "readers (newTermServer z)" and new_src [simp]: "ts_src (newTermServer z) = z"
  by (simp_all add: readers_def newTermServer_def)

lemma readers_heeded: "readers t \<Longrightarrow> (\<And>x y. TsAccept x y True \<notin> set es) \<Longrightarrow> heeded sn sd rz t es = []"
proof (induction es arbitrary: t)
  case (Cons e es)
  have "readers (ts_step sn sd rz t e)" by (rule readers_step [OF Cons.prems(1)]) (use Cons.prems(2) in force)
  then have "heeded sn sd rz (ts_step sn sd rz t e) es = []" using Cons.IH Cons.prems(2) by force
  then show ?case using frames_of_readers [OF Cons.prems(1)] by (auto split: ts_event.split option.split)
qed simp

section \<open>Properties\<close>

text \<open>C27: A read-only ticket cannot type. When the sidecar has started, its two tickets differ, each of its
  two sockets is its own file, and whatever the peers on the read-only socket do, in any order and
  however many, the program is given nothing, be it on a pty or in tmux.\<close>

theorem read_only_ticket_cannot_type:
  assumes "startP2P decode temp c allowWrite k fs = (Inr sc, fs')"
    and "list_all (comes_by sc (p2p_path temp c ''-ro.sock'')) es" and "tmuxSource_ok s"
  shows "tkRW (sc_tickets sc) \<noteq> tkRO (sc_tickets sc) \<and> p2p_path temp c ''-rw.sock'' \<noteq> p2p_path temp c ''-ro.sock'' \<and>
    ptmx_in (ts_src (run (ts_step ptySource_snapshot ptySource_send ptySource_resize) (newTermServer q) es)) = ptmx_in q \<and>
    tmuxSource_typed (ts_src (run (ts_step (tmuxSource_snapshot exec) tmuxSource_send tmuxSource_resize) (newTermServer s) es)) = tmuxSource_typed s"
proof -
  have a: "TsAccept x y True \<notin> set es" for x y
    using assms(2) sockets_apart [of temp c] startP2P_Inr(6) [OF assms(1)] by (auto simp: list_all_iff comes_by_def)
  show ?thesis
    using startP2P_Inr(3) [OF assms(1)] sockets_apart [of temp c] assms(3)
      pty.server_typed [of "newTermServer q" es] tmux.server_typed [of "newTermServer s" exec es]
    by (simp add: readers_heeded [OF new_readers a])
qed

text \<open>The sidecar starts whole or not at all. If it fails its sockets are gone and no ticket is recorded;
  if it starts both sockets are there, stopping removes them, and its tickets, once recorded, are
  found by the session's id, by its name and among all.\<close>

theorem sidecar_all_or_nothing:
  "case startP2P decode temp c allowWrite k fs of
     (Inl e, fs') \<Rightarrow> ticket_files fs' = ticket_files fs \<and> sock_files fs' \<subseteq> sock_files fs \<and>
       (e = NoDir \<or> e = NoTerminal \<or> p2p_path temp c ''-rw.sock'' \<notin> sock_files fs' \<and> p2p_path temp c ''-ro.sock'' \<notin> sock_files fs')
   | (Inr sc, fs') \<Rightarrow> {p2p_path temp c ''-rw.sock'', p2p_path temp c ''-ro.sock''} \<subseteq> sock_files fs' \<and>
       sock_files (stop_sidecar (map fst (sc_served sc)) fs') \<inter> {p2p_path temp c ''-rw.sock'', p2p_path temp c ''-ro.sock''} = {} \<and>
       (\<not> luck_recorded k \<or> (\<forall>sought. sought \<noteq> rcID c \<and> sought \<noteq> rcName c \<and> sought \<noteq> [] \<or>
          sc_tickets sc \<in> set (LoadTickets [p2p_path temp c ''.json''] sought fs')))"
proof (cases "startP2P decode temp c allowWrite k fs")
  case (Pair x fs')
  show ?thesis
  proof (cases x)
    case (Inl e)
    then show ?thesis using Pair by (auto simp: startP2P_def stop_sidecar_def Let_def split: if_splits sum.splits)
  next
    case (Inr sc)
    note f = startP2P_Inr [OF Pair [unfolded Inr]]
    then show ?thesis using Pair Inr by (auto simp: stop_sidecar_def LoadTickets_def)
  qed
qed

theorem read_only_ticket_cannot_type_witness:
  "\<exists>sc fs'. startP2P (\<lambda>l. Some \<lparr>tkID = [], tkName = [], tkRW = ''w'', tkRO = ''r''\<rparr>) ''/tmp''
      \<lparr>rcID = ''1-2'', rcName = ''demo'', rcDir = [], rcOmpBin = [], rcOmpArgs = [], rcModel = [], rcThinking = [], rcRelayHost = [],
       rcWebClient = [], rcLocalRelay = [], rcMuxSession = [], rcMuxSocket = [], rcToken = [], rcStateDir = [], rcP2PBin = ''p2p'',
       rcP2PRelay = [], rcDashboard = []\<rparr> True
      \<lparr>luck_dir = True, luck_attach = True, luck_rw = True, luck_ro = True, luck_spawn = True, luck_printed = ''x'', luck_in_time = True, luck_recorded = True\<rparr>
      \<lparr>sock_files = {}, ticket_files = Map.empty\<rparr> = (Inr sc, fs') \<and> tkRW (sc_tickets sc) \<noteq> tkRO (sc_tickets sc) \<and>
    ptmx_in (ts_src (run (ts_step ptySource_snapshot ptySource_send ptySource_resize) (newTermServer sample_pty)
      [TsAccept 80 24 False, TsFrame 0 (TText (Some (MInput (std_encode ''y''))))])) = ''ls''"
proof -
  let ?c = "\<lparr>rcID = ''1-2'', rcName = ''demo'', rcDir = [], rcOmpBin = [], rcOmpArgs = [], rcModel = [], rcThinking = [], rcRelayHost = [],
       rcWebClient = [], rcLocalRelay = [], rcMuxSession = [], rcMuxSocket = [], rcToken = [], rcStateDir = [], rcP2PBin = ''p2p'',
       rcP2PRelay = [], rcDashboard = []\<rparr>"
  let ?k = "\<lparr>luck_dir = True, luck_attach = True, luck_rw = True, luck_ro = True, luck_spawn = True, luck_printed = ''x'', luck_in_time = True, luck_recorded = True\<rparr>"
  obtain sc fs' where st: "startP2P (\<lambda>l. Some \<lparr>tkID = [], tkName = [], tkRW = ''w'', tkRO = ''r''\<rparr>) ''/tmp'' ?c True ?k
      \<lparr>sock_files = {}, ticket_files = Map.empty\<rparr> = (Inr sc, fs')"
    by (simp add: startP2P_def readTickets_def first_line_def newline_def Let_def)
  have "list_all (comes_by sc (p2p_path ''/tmp'' ?c ''-ro.sock'')) [TsAccept 80 24 False, TsFrame 0 (TText (Some (MInput (std_encode ''y''))))]"
    using startP2P_Inr(6) [OF st] by (simp add: comes_by_def)
  from read_only_ticket_cannot_type [OF st this sample_tmux_ok(1), of sample_pty] st show ?thesis by (auto simp: sample_pty_def)
qed

end
