(* ===== verification/Wrapper.thy ===== *)
theory Wrapper
  imports Session Server
begin

unbundle bit_operations_syntax

text \<open>
  A wrapper on another machine (\<open>session/remote.go\<close>): registering with the dashboard, and the loop that
  sends a heartbeat every few seconds, learns that its session was killed, and registers again when the
  dashboard has forgotten it. The dashboard's side are the handlers of \<open>Server\<close>; \<open>up\<close> says whether
  a request gets through.
\<close>

section \<open>The sink\<close>

definition hashBytes :: "bytes \<Rightarrow> 64 word" where
  "hashBytes b = foldl (\<lambda>h c. (h XOR of_nat (byte_val c)) * 1099511628211) 14695981039346656037 b"

record watch =
  w_id :: bytes                \<comment> \<open>the id the dashboard gave it\<close>
  w_sent :: bool
  w_hash :: "64 word"
  w_killed :: bool             \<comment> \<open>the channel that stops the program is closed\<close>

text \<open>\<open>hostname\<close> is this machine's, used when the record names none.\<close>

definition register_request :: "bytes \<Rightarrow> rec \<Rightarrow> RegisterRequest" where
  "register_request hostname r = \<lparr>qName = rName r, qDir = rDir r, qModel = rModel r, qThinking = rThinking r,
     qHost = (if rHost r = [] then hostname else rHost r), qRelay = rRelay r, qJoinLink = rJoinLink r,
     qBrowserURL = rBrowserURL r, qRoomID = rRoomID r, qViewOnly = rViewOnly r\<rparr>"

text \<open>The id to adopt, or \<open>None\<close> for an error.\<close>

definition sink_Register :: "(nat \<Rightarrow> nat) \<Rightarrow> (bytes \<Rightarrow> bytes) \<Rightarrow> config \<Rightarrow> caller \<Rightarrow> bytes \<Rightarrow> rec \<Rightarrow> outside \<Rightarrow> bool
    \<Rightarrow> server \<Rightarrow> bytes option \<times> server" where
  "sink_Register ul sha cfg c hostname r w up s = (if \<not> up then (None, s)
     else case handleRegister ul sha cfg w c (Some (register_request hostname r)) s of
       (Reply n (Registered i), s1) \<Rightarrow> (if n = 201 \<and> i \<noteq> [] then Some i else None, s1)
     | (_, s1) \<Rightarrow> (None, s1))"

datatype beat = BeatStop bool | BeatGone | BeatError

definition heartbeat :: "outside \<Rightarrow> bool \<Rightarrow> bytes \<Rightarrow> server \<Rightarrow> beat \<times> server" where
  "heartbeat w up i s = (if \<not> up then (BeatError, s)
     else case handleRemotePane w True i s of
       (Fail n _, s1) \<Rightarrow> (if n = 404 then BeatGone else BeatError, s1)
     | (Reply n p, s1) \<Rightarrow> (if n = 404 then BeatGone else if n \<noteq> 200 then BeatError
         else BeatStop (case p of Stop b \<Rightarrow> b | _ \<Rightarrow> False), s1))"

text \<open>One tick of the loop: the snapshot it takes, and whether its two requests get through. The pane is
  only sent when it changed, which the dashboard does not notice: it discards the body.\<close>

definition watch_body :: "bytes \<Rightarrow> watch \<Rightarrow> bytes" where
  "watch_body snap st = (if \<not> w_sent st \<or> hashBytes snap \<noteq> w_hash st then snap else [])"

definition watch_tick :: "(nat \<Rightarrow> nat) \<Rightarrow> (bytes \<Rightarrow> bytes) \<Rightarrow> config \<Rightarrow> caller \<Rightarrow> bytes \<Rightarrow> rec \<Rightarrow> outside \<Rightarrow> bool \<Rightarrow> bool
    \<Rightarrow> bytes \<Rightarrow> watch \<times> server \<Rightarrow> watch \<times> server" where
  "watch_tick ul sha cfg c hostname r w up1 up2 snap x = (case x of (st, s) \<Rightarrow>
     if w_killed st then (st, s)
     else case heartbeat w up1 (w_id st) s of
       (BeatStop b, s1) \<Rightarrow> (st\<lparr>w_hash := hashBytes snap, w_sent := True, w_killed := b\<rparr>, s1)
     | (BeatGone, s1) \<Rightarrow> (case sink_Register ul sha cfg c hostname r w up2 s1 of
           (Some i, s2) \<Rightarrow> (st\<lparr>w_id := i, w_sent := False\<rparr>, s2)
         | (None, s2) \<Rightarrow> (st, s2))
     | (BeatError, s1) \<Rightarrow> (st, s1))"

section \<open>A wrapper among the dashboard's callers\<close>

datatype wrapper_event = Others "outside \<times> request" | Tick outside bool bool bytes

fun wrapper_step :: "(nat \<Rightarrow> nat) \<Rightarrow> (bytes \<Rightarrow> bytes) \<Rightarrow> config \<Rightarrow> caller \<Rightarrow> bytes \<Rightarrow> rec \<Rightarrow> watch \<times> server
    \<Rightarrow> wrapper_event \<Rightarrow> watch \<times> server" where
  "wrapper_step ul sha cfg c hostname r (st, s) (Others e) = (st, serve ul sha cfg s e)"
| "wrapper_step ul sha cfg c hostname r (st, s) (Tick w up1 up2 snap) = watch_tick ul sha cfg c hostname r w up1 up2 snap (st, s)"

fun in_window :: "(bytes \<Rightarrow> bytes) \<Rightarrow> nanos \<Rightarrow> bytes \<Rightarrow> bytes \<Rightarrow> wrapper_event \<Rightarrow> bool" where
  "in_window sha t0 i room (Others e) = while_buried sha t0 i room e"
| "in_window sha t0 i room (Tick w up1 up2 snap) = (t0 \<le> time w \<and> time w \<le> t0 + killedTTL)"

definition doomed :: "nanos \<Rightarrow> bytes \<Rightarrow> bytes \<Rightarrow> watch \<times> server \<Rightarrow> bool" where
  "doomed t0 i room x = (i \<noteq> [] \<and> w_id (fst x) = i \<and> dead t0 i room (snd x))"

lemma doomed_tick:
  assumes "doomed t0 i room (st, s)" and "t0 \<le> time w" and "time w \<le> t0 + killedTTL"
  shows "doomed t0 i room (watch_tick ul sha cfg c hostname r w up1 up2 snap (st, s)) \<and>
    w_killed (fst (watch_tick ul sha cfg c hostname r w up1 up2 snap (st, s))) = (w_killed st \<or> up1)"
proof -
  have d: "dead t0 i room s" "i \<noteq> []" "w_id st = i" using assms(1) by (simp_all add: doomed_def)
  obtain rep s1 where p: "handleRemotePane w True i s = (rep, s1)" by fastforce
  have rep: "rep = Reply 200 (Stop True)" using dead_answers(1) [OF d(1) assms(2,3) d(2), of True] p by simp
  have s1: "dead t0 i room s1" using dead_pane [OF d(1) assms(2,3), of True i] p by simp
  show ?thesis
    using d s1 p rep by (simp add: watch_tick_def heartbeat_def doomed_def)
qed

interpretation dying: machine "wrapper_step ul sha cfg c hostname r" "in_window sha t0 i room" "doomed t0 i room"
proof
  fix x e
  assume i: "doomed t0 i room x" and a: "in_window sha t0 i room e"
  obtain st s where x: "x = (st, s)" by (cases x)
  show "doomed t0 i room (wrapper_step ul sha cfg c hostname r x e)"
  proof (cases e)
    case (Others e')
    then show ?thesis using i a x dead_serve [of t0 i room s sha e' ul cfg] by (simp add: doomed_def)
  next
    case (Tick w up1 up2 snap)
    then show ?thesis using doomed_tick [of t0 i room st s w] i a x by simp
  qed
qed

definition gets_through :: "wrapper_event \<Rightarrow> bool" where
  "gets_through e = (case e of Tick w up1 up2 snap \<Rightarrow> up1 | _ \<Rightarrow> False)"

lemma doomed_run:
  "doomed t0 i room x \<Longrightarrow> list_all (in_window sha t0 i room) es \<Longrightarrow>
   w_killed (fst (run (wrapper_step ul sha cfg c hostname r) x es)) = (w_killed (fst x) \<or> list_ex gets_through es)"
proof (induction es arbitrary: x)
  case (Cons e es)
  obtain st s where x: "x = (st, s)" by (cases x)
  have "doomed t0 i room (wrapper_step ul sha cfg c hostname r x e)"
    using Cons.prems by (intro dying.step_inv) auto
  then have "w_killed (fst (run (wrapper_step ul sha cfg c hostname r) x (e # es))) =
      (w_killed (fst (wrapper_step ul sha cfg c hostname r x e)) \<or> list_ex gets_through es)"
    using Cons by simp
  also have "w_killed (fst (wrapper_step ul sha cfg c hostname r x e)) = (w_killed (fst x) \<or> gets_through e)"
    using doomed_tick [of t0 i room st s] Cons.prems x by (cases e) (auto simp: gets_through_def)
  finally show ?case by auto
qed simp

section \<open>Properties\<close>


definition sample_watch :: watch where
  "sample_watch = \<lparr>w_id = ''covibe-1'', w_sent = True, w_hash = 0, w_killed = False\<rparr>"




end
